(* ===== verification/Prelude.thy ===== *)
theory Prelude
  imports Main "HOL-Library.Word"
begin

text \<open>
  Shared vocabulary of the development: the faults a C program can run into, the
  sequencing of computations that may fault, machine-integer type names, and generic
  lemmas on lists, words and results that the component theories use.

  A C function that may dereference a null pointer, index out of bounds, divide by zero,
  read past the end of a file or leave through \<open>exit\<close> is modelled with result type
  \<open>fault + 'a\<close>: \<open>Inl f\<close> is the fault that stops the program, \<open>Inr x\<close>
  the normal result.
\<close>

section \<open>Machine integers\<close>

type_synonym u8 = "8 word"
type_synonym u32 = "32 word"
type_synonym i32 = "32 word" \<comment> \<open>\<open>int32_t\<close>: the same bits, read with \<open>sint\<close>\<close>
type_synonym u64 = "64 word"

section \<open>Faults and results\<close>

datatype fault =
    NullDeref          \<comment> \<open>a null (or freed) pointer is dereferenced\<close>
  | OutOfBounds        \<comment> \<open>an array is read or written outside its bounds\<close>
  | DivByZero          \<comment> \<open>\<open>/\<close> or \<open>%\<close> by zero\<close>
  | Uninitialised      \<comment> \<open>a variable is read before it has been given a value\<close>
  | NonTermination     \<comment> \<open>a pointer loop runs round a cycle for ever\<close>
  | Exit int           \<comment> \<open>the program calls \<open>exit\<close>\<close>
  | Overflow           \<comment> \<open>a signed addition leaves the range of its type\<close>
  | Replaced           \<comment> \<open>\<open>execve\<close> puts another program in its place\<close>

definition bindE :: "'e + 'a \<Rightarrow> ('a \<Rightarrow> 'e + 'b) \<Rightarrow> 'e + 'b" where
  "bindE m f = (case m of Inl e \<Rightarrow> Inl e | Inr x \<Rightarrow> f x)"

lemma bindE_simps [simp]:
  "bindE (Inl e) f = Inl e"
  "bindE (Inr x) f = f x"
  by (simp_all add: bindE_def)

lemma bindE_eq_Inr_iff: "bindE m f = Inr y \<longleftrightarrow> (\<exists>x. m = Inr x \<and> f x = Inr y)"
  by (cases m) auto

lemma bindE_assoc: "bindE (bindE m f) g = bindE m (\<lambda>x. bindE (f x) g)"
  by (cases m) auto

lemma bindE_cong [fundef_cong]:
  "m = m' \<Longrightarrow> (\<And>x. m' = Inr x \<Longrightarrow> f x = f' x) \<Longrightarrow> bindE m f = bindE m' f'"
  by (cases m') auto

text \<open>
  Computations that may also run for ever have type \<open>(fault + 'a) option\<close>, with
  \<open>None\<close> for not returning.
\<close>

definition bindO :: "('e + 'a) option \<Rightarrow> ('a \<Rightarrow> ('e + 'b) option) \<Rightarrow> ('e + 'b) option" where
  "bindO m f = (case m of None \<Rightarrow> None | Some (Inl e) \<Rightarrow> Some (Inl e) | Some (Inr x) \<Rightarrow> f x)"

lemma bindO_simps [simp]:
  "bindO None f = None"
  "bindO (Some (Inl e)) f = Some (Inl e)"
  "bindO (Some (Inr x)) f = f x"
  by (simp_all add: bindO_def)

lemma bindO_eq_Inr_iff:
  "bindO m f = Some (Inr y) \<longleftrightarrow> (\<exists>x. m = Some (Inr x) \<and> f x = Some (Inr y))"
  by (auto simp: bindO_def split: option.splits sum.splits)

text \<open>A loop that runs a faulting body over a list of indices.\<close>

fun foldE :: "('i \<Rightarrow> 's \<Rightarrow> 'e + 's) \<Rightarrow> 'i list \<Rightarrow> 's \<Rightarrow> 'e + 's" where
  "foldE f [] s = Inr s"
| "foldE f (i # is) s = bindE (f i s) (foldE f is)"

lemma foldE_append: "foldE f (xs @ ys) s = bindE (foldE f xs s) (foldE f ys)"
  by (induction xs arbitrary: s) (auto simp: bindE_assoc intro: bindE_cong)

section \<open>Words and numbers\<close>

lemma unat_Suc_u32: "unat x + 1 < 2 ^ 32 \<Longrightarrow> unat (x + 1 :: u32) = unat x + 1"
  by (simp add: unat_word_ariths)

lemma unat_u32_bound: "unat (x :: u32) < 2 ^ 32"
  using unsigned_less [of x] by simp

lemma u32_less_Suc_le:
  assumes "t < (q :: u32)"
  shows "t < r \<longleftrightarrow> t + 1 \<le> r"
proof -
  have "unat (t + 1) = unat t + 1"
    using assms unat_u32_bound [of q] by (intro unat_Suc_u32) (simp add: word_less_nat_alt)
  then show ?thesis by (simp add: word_less_nat_alt word_le_nat_alt Suc_le_eq)
qed

lemma word_eq_0_unat: "(x = 0) = (unat x = 0)"
  by (simp add: unat_eq_0)

lemma unat_of_nat_u32: "n < 2 ^ 32 \<Longrightarrow> unat (of_nat n :: u32) = n"
  by (simp add: unat_of_nat take_bit_nat_eq_self)

lemma of_nat_u32_inject:
  "m < 2 ^ 32 \<Longrightarrow> n < 2 ^ 32 \<Longrightarrow> (of_nat m :: u32) = of_nat n \<longleftrightarrow> m = n"
  by (metis unat_of_nat_u32)

section \<open>Lists\<close>

definition lastp :: "'a list \<Rightarrow> 'a option" where
  \<comment> \<open>a pointer to the last cell, null for the empty list\<close>
  "lastp xs = (if xs = [] then None else Some (last xs))"

lemma lastp_simps [simp]:
  "lastp [] = None"
  "lastp (xs @ [x]) = Some x"
  "lastp [x] = Some x"
  by (simp_all add: lastp_def)

lemma lastp_eq_None_iff [simp]: "lastp xs = None \<longleftrightarrow> xs = []"
  by (simp add: lastp_def)

lemma lastp_Cons: "xs \<noteq> [] \<Longrightarrow> lastp (x # xs) = lastp xs"
  by (simp add: lastp_def)

lemma map_nth_update [simp]: "(map f xs)[i := f (xs ! i)] = map f xs"
  by (metis list_update_id map_update)

lemma map_update_nth:
  "i < length xs \<Longrightarrow> g y = g (xs ! i) \<Longrightarrow> map g (xs[i := y]) = map g xs"
  by (metis list_update_id map_update)

lemma all_set_update:
  "\<forall>x \<in> set xs. P x \<Longrightarrow> P y \<Longrightarrow> \<forall>x \<in> set (xs[i := y]). P x"
  using set_update_subset_insert [of xs i y] by blast

lemma length_filter_update:
  assumes "i < length xs"
  shows "length (filter P (xs[i := y])) + (if P (xs ! i) then 1 else 0) =
         length (filter P xs) + (if P y then 1 else 0)"
  using assms
proof (induction xs arbitrary: i)
  case Nil
  then show ?case by simp
next
  case (Cons x xs)
  then show ?case by (cases i) auto
qed

lemma length_filter_nth:
  "length (filter (\<lambda>i. P (xs ! i)) [0..<length xs]) = length (filter P xs)"
proof -
  have "filter P (map ((!) xs) [0..<length xs]) = map ((!) xs) (filter (P \<circ> (!) xs) [0..<length xs])"
    by (rule filter_map)
  then show ?thesis by (simp add: map_nth comp_def)
qed

lemma find_skip: "\<forall>x \<in> set xs. \<not> P x \<Longrightarrow> List.find P (xs @ ys) = List.find P ys"
  by (induction xs) auto

text \<open>
  Chains of pointers: \<open>chain nx p xs\<close> says that following \<open>nx\<close> from \<open>p\<close>
  visits the cells \<open>xs\<close> in order and then reaches the null pointer.
\<close>

fun chain :: "('a \<Rightarrow> 'a option) \<Rightarrow> 'a option \<Rightarrow> 'a list \<Rightarrow> bool" where
  "chain nx p [] \<longleftrightarrow> p = None"
| "chain nx p (x # xs) \<longleftrightarrow> p = Some x \<and> chain nx (nx x) xs"

lemma chain_None [simp]: "chain nx None xs \<longleftrightarrow> xs = []"
  by (cases xs) auto

lemma chain_unique: "chain nx p xs \<Longrightarrow> chain nx p ys \<Longrightarrow> xs = ys"
  by (induction xs arbitrary: p ys) (case_tac ys; auto)+

lemma chain_upd [simp]: "a \<notin> set xs \<Longrightarrow> chain (nx(a := v)) p xs = chain nx p xs"
  by (induction xs arbitrary: p) auto

lemma chain_cong: "(\<And>x. x \<in> set xs \<Longrightarrow> nx x = nx' x) \<Longrightarrow> chain nx p xs = chain nx' p xs"
  by (induction xs arbitrary: p) auto

lemma chain_suffix:
  "chain nx p (xs @ y # ys) \<Longrightarrow> chain nx (Some y) (y # ys)"
  by (induction xs arbitrary: p) auto

lemma chain_distinct: "chain nx p xs \<Longrightarrow> distinct xs"
proof (induction xs arbitrary: p)
  case Nil
  then show ?case by simp
next
  case (Cons x xs)
  have "x \<notin> set xs"
  proof
    assume "x \<in> set xs"
    then obtain ys zs where s: "xs = ys @ x # zs" by (auto simp: in_set_conv_decomp)
    with Cons.prems have "chain nx (Some x) (x # zs)"
      by (auto dest: chain_suffix)
    moreover from Cons.prems have "chain nx (Some x) (x # xs)" by simp
    ultimately have "x # zs = x # xs" by (rule chain_unique)
    with s show False by simp
  qed
  with Cons show ?case by auto
qed

lemma chain_snoc:
  "chain nx p (xs @ [y]) \<Longrightarrow> nx y = None"
  by (auto dest!: chain_suffix)

lemma chain_append_cell:
  assumes "chain nx p xs" and "xs \<noteq> []" and "b \<notin> set xs"
  shows "chain (nx(last xs := Some b, b := None)) p (xs @ [b])"
  using assms
proof (induction xs arbitrary: p)
  case Nil
  then show ?case by simp
next
  case (Cons x xs)
  show ?case
  proof (cases "xs = []")
    case True
    with Cons.prems show ?thesis by simp
  next
    case False
    have "distinct (x # xs)" using Cons.prems(1) by (rule chain_distinct)
    with False Cons.prems have "x \<noteq> last xs" "x \<noteq> b" by auto
    with False Cons show ?thesis by simp
  qed
qed

lemma chain_remove_cell:
  assumes "chain nx p (xs @ [a, b] @ ys)"
  shows "chain (nx(a := nx b, b := None)) p (xs @ [a] @ ys)"
proof -
  from assms have d: "distinct (xs @ [a, b] @ ys)" by (rule chain_distinct)
  show ?thesis using assms d
    by (induction xs arbitrary: p) (auto simp: chain_upd)
qed

lemma chain_next:
  "chain nx p (xs @ a # b # ys) \<Longrightarrow> nx a = Some b"
  by (induction xs arbitrary: p) auto

section \<open>Linked queues as a shared contract\<close>

text \<open>
  Every queue of the programs is a linked list with a head and a tail pointer. What a
  client relies on: cells come out in the order they went in. \<open>rep s xs\<close> says that
  state \<open>s\<close> represents the queue \<open>xs\<close>; \<open>ok s x\<close> says that the cell
  \<open>x\<close> may be added.
\<close>

locale fifo =
  fixes enq :: "'c \<Rightarrow> 's \<Rightarrow> fault + 's"
    and deq :: "'s \<Rightarrow> fault + 'c option \<times> 's"
    and rep :: "'s \<Rightarrow> 'c list \<Rightarrow> bool"
    and ok :: "'s \<Rightarrow> 'c \<Rightarrow> bool"
  assumes enq_rep: "rep s xs \<Longrightarrow> ok s c \<Longrightarrow> c \<notin> set xs \<Longrightarrow>
      \<exists>t. enq c s = Inr t \<and> rep t (xs @ [c]) \<and> (\<forall>d. ok t d = ok s d)"
    and deq_rep: "rep s (c # xs) \<Longrightarrow>
      \<exists>t. deq s = Inr (Some c, t) \<and> rep t xs \<and> (\<forall>d. ok t d = ok s d)"
    and deq_empty: "rep s [] \<Longrightarrow> \<exists>t. deq s = Inr (None, t)"
begin

fun drain :: "nat \<Rightarrow> 's \<Rightarrow> fault + 'c list \<times> 's" where
  "drain 0 s = Inr ([], s)"
| "drain (Suc n) s = bindE (deq s) (\<lambda>(c, t). case c of
     None \<Rightarrow> Inr ([], t)
   | Some x \<Rightarrow> bindE (drain n t) (\<lambda>(xs, u). Inr (x # xs, u)))"

lemma drain_rep: "rep s (xs @ ys) \<Longrightarrow> \<exists>t. drain (length xs) s = Inr (xs, t) \<and> rep t ys"
proof (induction xs arbitrary: s)
  case Nil
  then show ?case by simp
next
  case (Cons x xs)
  then obtain t where t: "deq s = Inr (Some x, t)" "rep t (xs @ ys)"
    using deq_rep [of s x "xs @ ys"] by auto
  from Cons.IH [OF t(2)] obtain u where "drain (length xs) t = Inr (xs, u)" "rep u ys"
    by blast
  with t show ?case by simp
qed

lemma enq_all:
  assumes "rep s xs" and "distinct (xs @ cs)" and "\<forall>c \<in> set cs. ok s c"
  shows "\<exists>t. foldE enq cs s = Inr t \<and> rep t (xs @ cs) \<and> (\<forall>d. ok t d = ok s d)"
  using assms
proof (induction cs arbitrary: s xs)
  case Nil
  then show ?case by simp
next
  case (Cons c cs)
  then obtain t where t: "enq c s = Inr t" "rep t (xs @ [c])" "\<forall>d. ok t d = ok s d"
    using enq_rep [of s xs c] by auto
  from Cons.prems t(3) have "distinct ((xs @ [c]) @ cs)" "\<forall>d \<in> set cs. ok t d" by auto
  from Cons.IH [OF t(2) this] obtain u where
    "foldE enq cs t = Inr u" "rep u (xs @ [c] @ cs)" "\<forall>d. ok u d = ok t d" by auto
  with t show ?case by simp
qed

text \<open>First in, first out: what goes into an empty queue comes out in the same order.\<close>

lemma fifo_order:
  assumes "rep s []" and "distinct cs" and "\<forall>c \<in> set cs. ok s c"
  shows "\<exists>t u. foldE enq cs s = Inr t \<and> drain (length cs) t = Inr (cs, u) \<and> rep u []"
proof -
  from enq_all [OF assms(1), of cs] assms(2,3) obtain t where
    "foldE enq cs s = Inr t" "rep t (cs @ [])" by auto
  with drain_rep [of t cs "[]"] show ?thesis by auto
qed

end

section \<open>Invariants of step relations\<close>

text \<open>
  A component that runs as a sequence of steps: a property that holds initially and is
  kept by every step holds in every reachable state.
\<close>

locale step_system =
  fixes init :: "'s \<Rightarrow> bool"
    and step :: "'s \<Rightarrow> 's \<Rightarrow> bool"
    and inv :: "'s \<Rightarrow> bool"
  assumes inv_init: "init s \<Longrightarrow> inv s"
    and inv_step: "inv s \<Longrightarrow> step s t \<Longrightarrow> inv t"
begin

lemma inv_steps: "step\<^sup>*\<^sup>* s t \<Longrightarrow> inv s \<Longrightarrow> inv t"
  by (induction rule: rtranclp_induct) (auto intro: inv_step)

lemma inv_reachable: "init s \<Longrightarrow> step\<^sup>*\<^sup>* s t \<Longrightarrow> inv t"
  using inv_init inv_steps by blast

end

section \<open>Tables\<close>

text \<open>
  A component that keeps values under keys: what a lookup returns after an insertion and after
  a deletion. From the two laws, a table behaves like a map under any sequence of operations.
  An operation is a key with the value to insert, or with \<open>None\<close> to delete it.
\<close>

locale keyed_table =
  fixes look :: "'s \<Rightarrow> 'k \<Rightarrow> 'v option"
    and ins :: "'k \<Rightarrow> 'v \<Rightarrow> 's \<Rightarrow> 's option"
    and del :: "'k \<Rightarrow> 's \<Rightarrow> 's"
    and ok :: "'s \<Rightarrow> bool"
    and key :: "'k \<Rightarrow> bool"
  assumes ins_law: "ok s \<Longrightarrow> key k \<Longrightarrow> look s k = None \<Longrightarrow> ins k v s = Some t \<Longrightarrow>
      ok t \<and> look t = (look s)(k := Some v)"
    and del_law: "ok s \<Longrightarrow> key k \<Longrightarrow> ok (del k s) \<and> look (del k s) = (look s)(k := None)"
begin

fun run :: "('k \<times> 'v option) list \<Rightarrow> 's \<Rightarrow> 's option" where
  "run [] s = Some s"
| "run ((k, None) # ops) s = run ops (del k s)"
| "run ((k, Some v) # ops) s = (case ins k v s of None \<Rightarrow> None | Some t \<Rightarrow> run ops t)"

fun allowed :: "('k \<Rightarrow> 'v option) \<Rightarrow> ('k \<times> 'v option) list \<Rightarrow> bool" where
  \<comment> \<open>a key is only inserted while it is absent\<close>
  "allowed m [] = True"
| "allowed m ((k, vo) # ops) = (key k \<and> (vo = None \<or> m k = None) \<and> allowed (m(k := vo)) ops)"

lemma run_map:
  "ok s \<Longrightarrow> allowed (look s) ops \<Longrightarrow> run ops s = Some t \<Longrightarrow>
   ok t \<and> look t = foldl (\<lambda>m (k, vo). m(k := vo)) (look s) ops"
proof (induction ops s rule: run.induct)
  case (1 s)
  then show ?case by simp
next
  case (2 k ops s)
  then show ?case using del_law [of s k] by (simp del: fun_upd_apply)
next
  case (3 k v ops s)
  then obtain u where "ins k v s = Some u" by (auto split: option.splits)
  then show ?case using 3 ins_law [of s k v u] by (simp del: fun_upd_apply)
qed

lemma ins_del: "ok s \<Longrightarrow> key k \<Longrightarrow> look s k = None \<Longrightarrow> ins k v s = Some t \<Longrightarrow> look (del k t) = look s"
  using ins_law [of s k v t] del_law [of t k] by (auto simp: fun_eq_iff)

end

end
