(* ===== verification/CString.thy ===== *)
theory CString
  imports Prelude
begin

text \<open>
  The part of the C library that the programs use on strings and text files: the
  character classes, \<open>atoi\<close>, the \<open>%i\<close>/\<open>%lu\<close> conversions of \<open>printf\<close>,
  \<open>strchr\<close>, \<open>strstr\<close>, \<open>strtok\<close>, \<open>fgets\<close> and the \<open>%s\<close> conversion of
  \<open>sscanf\<close>. A C string is its list of characters without the terminating NUL, and a
  text file the list of characters still to be read.
\<close>

section \<open>Characters\<close>

abbreviation newline :: char where "newline \<equiv> CHR 0x0A"
abbreviation carriage_return :: char where "carriage_return \<equiv> CHR 0x0D"
abbreviation crlf :: string where "crlf \<equiv> [carriage_return, newline]"

definition isspace :: "char \<Rightarrow> bool" where
  "isspace c \<longleftrightarrow> c \<in> {CHR '' '', CHR 0x09, CHR 0x0A, CHR 0x0B, CHR 0x0C, CHR 0x0D}"

definition isdigit :: "char \<Rightarrow> bool" where
  "isdigit c \<longleftrightarrow> 48 \<le> (of_char c :: nat) \<and> (of_char c :: nat) \<le> 57"

definition digit_value :: "char \<Rightarrow> nat" where
  "digit_value c = of_char c - 48"

definition digit_char :: "nat \<Rightarrow> char" where
  "digit_char d = char_of (48 + d)"

lemma isdigit_digit_char [simp]: "d < 10 \<Longrightarrow> isdigit (digit_char d)"
  by (simp add: isdigit_def digit_char_def)

lemma digit_value_digit_char [simp]: "d < 10 \<Longrightarrow> digit_value (digit_char d) = d"
  by (simp add: digit_value_def digit_char_def)

lemma isdigit_not_isspace: "isdigit c \<Longrightarrow> \<not> isspace c"
  by (auto simp: isdigit_def isspace_def)

lemma isdigit_not_sign: "isdigit c \<Longrightarrow> c \<noteq> CHR ''-'' \<and> c \<noteq> CHR ''+''"
  by (auto simp: isdigit_def)

section \<open>Numbers\<close>

fun digits_value :: "nat \<Rightarrow> string \<Rightarrow> nat" where
  "digits_value acc [] = acc"
| "digits_value acc (c # cs) =
     (if isdigit c then digits_value (10 * acc + digit_value c) cs else acc)"

text \<open>
  \<open>atoi\<close>: leading white space, an optional sign, then digits; anything else ends the
  number, and no digits give 0. \<open>strtol_value\<close> is the number read. \<open>atoi\<close> is \<open>(int) strtol (s, NULL, 10)\<close>,
  as the C library of Linux has it: \<open>strtol\<close> stops at the ends of the range of \<open>long\<close>, and the conversion
  keeps the low 32 bits. (The C standard defines \<open>atoi\<close> only for numbers in the range of \<open>int\<close>.)
\<close>

definition in_int :: "int \<Rightarrow> bool" where
  "in_int i \<longleftrightarrow> - (2 ^ 31) \<le> i \<and> i < 2 ^ 31"

definition strtol_value :: "string \<Rightarrow> int" where
  "strtol_value s = (case dropWhile isspace s of
      [] \<Rightarrow> 0
    | c # cs \<Rightarrow>
        if c = CHR ''-'' then - int (digits_value 0 cs)
        else if c = CHR ''+'' then int (digits_value 0 cs)
        else int (digits_value 0 (c # cs)))"

definition atoi :: "string \<Rightarrow> int" where
  "atoi s = sint (word_of_int (max (- (2 ^ 63)) (min (2 ^ 63 - 1) (strtol_value s))) :: i32)"

lemma atoi_in_int: "in_int (strtol_value s) \<Longrightarrow> atoi s = strtol_value s"
  by (simp add: in_int_def atoi_def sint_sbintrunc' signed_take_bit_int_eq_self max_def min_def)

fun show_nat :: "nat \<Rightarrow> string" where
  "show_nat n = (if n < 10 then [digit_char n] else show_nat (n div 10) @ [digit_char (n mod 10)])"

declare show_nat.simps [simp del]

definition show_int :: "int \<Rightarrow> string" where
  "show_int i = (if i < 0 then CHR ''-'' # show_nat (nat (- i)) else show_nat (nat i))"

lemma show_nat_nonempty [simp]: "show_nat n \<noteq> []"
  by (subst show_nat.simps) simp

lemma show_nat_digits: "\<forall>c \<in> set (show_nat n). isdigit c"
proof (induction n rule: show_nat.induct)
  case (1 n)
  then show ?case by (subst show_nat.simps) (cases "n < 10"; simp)
qed

lemma digits_value_append:
  "\<forall>c \<in> set cs. isdigit c \<Longrightarrow>
     digits_value acc (cs @ ds) = digits_value (digits_value acc cs) ds"
  by (induction cs arbitrary: acc) auto

lemma digits_value_show_nat: "digits_value 0 (show_nat n) = n"
proof (induction n rule: show_nat.induct)
  case (1 n)
  show ?case
  proof (cases "n < 10")
    case True
    then show ?thesis by (subst show_nat.simps) simp
  next
    case False
    with 1 show ?thesis
      by (subst show_nat.simps) (simp add: digits_value_append show_nat_digits)
  qed
qed

lemma dropWhile_isspace_show_nat [simp]:
  "dropWhile isspace (show_nat n @ s) = show_nat n @ s"
proof -
  obtain c cs where c: "show_nat n = c # cs"
    using show_nat_nonempty [of n] by (cases "show_nat n") auto
  with show_nat_digits [of n] have "\<not> isspace c"
    using isdigit_not_isspace [of c] by simp
  with c show ?thesis by simp
qed

lemma strtol_show_nat: "strtol_value (show_nat n) = int n"
proof -
  obtain c cs where c: "show_nat n = c # cs"
    using show_nat_nonempty [of n] by (cases "show_nat n") auto
  with show_nat_digits [of n] have "c \<noteq> CHR ''-'' \<and> c \<noteq> CHR ''+''"
    by (auto dest: isdigit_not_sign)
  with c dropWhile_isspace_show_nat [of n "[]"] digits_value_show_nat [of n]
  show ?thesis by (simp add: strtol_value_def del: digits_value.simps dropWhile_isspace_show_nat)
qed

lemma strtol_show_int: "strtol_value (show_int i) = i"
proof (cases "i < 0")
  case True
  then show ?thesis
    by (simp add: show_int_def strtol_value_def isspace_def digits_value_show_nat)
next
  case False
  then show ?thesis by (simp add: show_int_def strtol_show_nat)
qed

lemma atoi_show_int: "in_int i \<Longrightarrow> atoi (show_int i) = i"
  using atoi_in_int [of "show_int i"] by (simp add: strtol_show_int)

section \<open>Terminated strings\<close>

definition c_string :: "string \<Rightarrow> string" where
  \<comment> \<open>what the string functions see of the bytes of a buffer: those before the first NUL\<close>
  "c_string bs = takeWhile (\<lambda>c. c \<noteq> CHR 0x00) bs"

lemma c_string_id: "CHR 0x00 \<notin> set bs \<Longrightarrow> c_string bs = bs"
  unfolding c_string_def takeWhile_eq_all_conv by metis

lemma c_string_NUL [simp]: "c_string (c_string bs @ CHR 0x00 # rest) = c_string bs"
  by (induction bs) (auto simp: c_string_def)

lemma c_string_length: "length (c_string bs) \<le> length bs"
  by (simp add: c_string_def length_takeWhile_le)

definition copy_to :: "nat \<Rightarrow> string \<Rightarrow> fault + string" where
  \<comment> \<open>\<open>strcpy\<close> into an array of the given size\<close>
  "copy_to cap t = (if length t < cap then Inr t else Inl OutOfBounds)"

section \<open>Searching\<close>

fun strchr :: "string \<Rightarrow> char \<Rightarrow> nat option" where
  \<comment> \<open>the index of the first occurrence, \<open>None\<close> for the null pointer\<close>
  "strchr [] c = None"
| "strchr (x # xs) c = (if x = c then Some 0 else map_option Suc (strchr xs c))"

fun is_prefix :: "string \<Rightarrow> string \<Rightarrow> bool" where
  "is_prefix [] s = True"
| "is_prefix (p # ps) [] = False"
| "is_prefix (p # ps) (c # cs) = (p = c \<and> is_prefix ps cs)"

fun strstr :: "string \<Rightarrow> string \<Rightarrow> nat option" where
  "strstr [] p = (if p = [] then Some 0 else None)"
| "strstr (x # xs) p = (if is_prefix p (x # xs) then Some 0 else map_option Suc (strstr xs p))"

lemma is_prefix_append [simp]: "is_prefix p (p @ s)"
  by (induction p) auto

lemma is_prefix_iff: "is_prefix p s \<longleftrightarrow> (\<exists>t. s = p @ t)"
  by (induction p s rule: is_prefix.induct) auto

lemma strchr_append [simp]: "c \<notin> set xs \<Longrightarrow> strchr (xs @ c # ys) c = Some (length xs)"
  by (induction xs) auto

lemma strchr_None_iff: "strchr s c = None \<longleftrightarrow> c \<notin> set s"
  by (induction s) auto

lemma strchr_Some:
  "strchr s c = Some i \<Longrightarrow> i < length s \<and> s ! i = c \<and> c \<notin> set (take i s)"
  by (induction s arbitrary: i) (auto split: if_splits)

lemma strstr_prefix: "strstr (p @ s) p = Some 0"
  using is_prefix_append [of p s] by (cases "p @ s") (simp_all del: is_prefix_append)

lemma strstr_skip: "c \<noteq> hd p \<Longrightarrow> p \<noteq> [] \<Longrightarrow> strstr (c # s) p = map_option Suc (strstr s p)"
  by (cases p) auto

lemma strstr_single [simp]: "c \<notin> set xs \<Longrightarrow> strstr (xs @ c # ys) [c] = Some (length xs)"
  by (induction xs) auto

section \<open>Tokens\<close>

fun tokens :: "(char \<Rightarrow> bool) \<Rightarrow> string \<Rightarrow> string \<Rightarrow> string list" where
  \<comment> \<open>\<open>tokens d acc s\<close>: the maximal non-empty runs of characters outside \<open>d\<close>, as
      repeated \<open>strtok\<close> returns them; \<open>acc\<close> is the run being read\<close>
  "tokens d acc [] = (if acc = [] then [] else [acc])"
| "tokens d acc (c # cs) =
     (if d c then (if acc = [] then tokens d [] cs else acc # tokens d [] cs)
      else tokens d (acc @ [c]) cs)"

definition strtok_all :: "char \<Rightarrow> string \<Rightarrow> string list" where
  "strtok_all c s = tokens (\<lambda>x. x = c) [] s"

definition scan_words :: "string \<Rightarrow> string list" where
  \<comment> \<open>the strings that successive \<open>%s\<close> conversions of \<open>sscanf\<close> read\<close>
  "scan_words s = tokens isspace [] s"

lemma tokens_run:
  "\<forall>c \<in> set w. \<not> d c \<Longrightarrow> tokens d acc (w @ s) = tokens d (acc @ w) s"
  by (induction w arbitrary: acc) auto

lemma tokens_word:
  "w \<noteq> [] \<Longrightarrow> \<forall>c \<in> set w. \<not> d c \<Longrightarrow> d x \<Longrightarrow> tokens d [] (w @ x # s) = w # tokens d [] s"
  by (simp add: tokens_run)

lemma tokens_last_word:
  "w \<noteq> [] \<Longrightarrow> \<forall>c \<in> set w. \<not> d c \<Longrightarrow> tokens d [] w = [w]"
  using tokens_run [of w d "[]" "[]"] by simp

lemma tokens_delim [simp]: "d x \<Longrightarrow> tokens d [] (x # s) = tokens d [] s"
  by simp

definition word :: "string \<Rightarrow> bool" where
  "word w \<longleftrightarrow> w \<noteq> [] \<and> (\<forall>c \<in> set w. \<not> isspace c \<and> c \<noteq> CHR 0x00)"

lemma scan_three_words:
  assumes "word a" "word b" "word c"
  shows "scan_words (a @ '' '' @ b @ '' '' @ c @ crlf) = [a, b, c]"
proof -
  have s: "isspace (CHR '' '')" "isspace carriage_return" "isspace newline" by (simp_all add: isspace_def)
  have "tokens isspace [] (c @ crlf) = [c]"
    using tokens_word [of c isspace carriage_return "[newline]"] assms(3) s by (simp add: word_def)
  then show ?thesis using assms s
    by (simp add: scan_words_def word_def tokens_word del: tokens.simps(2))
qed

lemma word_chars: "word w \<Longrightarrow> newline \<notin> set w \<and> carriage_return \<notin> set w \<and> CHR 0x00 \<notin> set w"
  by (auto simp: word_def isspace_def)

section \<open>Reading lines\<close>

fun fgets_chars :: "nat \<Rightarrow> string \<Rightarrow> string \<times> string" where
  \<comment> \<open>at most \<open>n\<close> characters, stopping after a newline\<close>
  "fgets_chars 0 f = ([], f)"
| "fgets_chars (Suc n) [] = ([], [])"
| "fgets_chars (Suc n) (c # f) =
     (if c = newline then ([c], f)
      else (let (l, r) = fgets_chars n f in (c # l, r)))"

definition fgets :: "nat \<Rightarrow> string \<Rightarrow> (string \<times> string) option" where
  \<comment> \<open>\<open>fgets (buf, n, f)\<close>: \<open>None\<close> is the null pointer returned at the end of file\<close>
  "fgets n f = (if f = [] then None else Some (fgets_chars (n - 1) f))"

lemma fgets_chars_append: "fgets_chars n f = (l, r) \<Longrightarrow> l @ r = f"
  by (induction n f arbitrary: l r rule: fgets_chars.induct) (auto split: if_splits prod.splits)

lemma fgets_chars_line:
  "newline \<notin> set l \<Longrightarrow> length l < n \<Longrightarrow> fgets_chars n (l @ newline # f) = (l @ [newline], f)"
proof (induction l arbitrary: n)
  case Nil
  then show ?case by (cases n) auto
next
  case (Cons c l)
  then show ?case by (cases n) auto
qed

lemma fgets_line:
  "newline \<notin> set l \<Longrightarrow> Suc (length l) < n \<Longrightarrow> fgets n (l @ newline # f) = Some (l @ [newline], f)"
  by (simp add: fgets_def fgets_chars_line)

lemma fgets_chars_shrinks:
  assumes "f \<noteq> []"
  shows "length (snd (fgets_chars (Suc n) f)) < length f"
proof -
  obtain c g where f: "f = c # g" using assms by (cases f) auto
  obtain l r where lr: "fgets_chars n g = (l, r)" by fastforce
  have "l @ r = g" by (rule fgets_chars_append [OF lr])
  then have "length r \<le> length g" by auto
  then show ?thesis by (simp add: f lr)
qed

section \<open>How long a number is\<close>

lemma show_nat_length: "n < 10 ^ Suc k \<Longrightarrow> length (show_nat n) \<le> Suc k"
proof (induction k arbitrary: n)
  case 0
  then show ?case by (simp add: show_nat.simps [of n])
next
  case (Suc k)
  then have "length (show_nat (n div 10)) \<le> Suc k" by (intro Suc.IH) (simp add: div_less_iff_less_mult)
  then show ?case by (simp add: show_nat.simps [of n])
qed

end
