(* ===== verification/Sched_State.thy ===== *)
theory Sched_State
  imports CString
begin

text \<open>
  lab3/scheduler.c, the data: \<open>struct Process\<close>, the global variables, and the three
  intrusive lists (ready queue, paused queue, blocked list) with the operations on them.

  A \<open>struct Process*\<close> always points into the array \<open>Prime\<close>; it is modelled as the
  index of the cell, \<open>None\<close> being the null pointer. Dereferencing null is the fault
  \<open>NullDeref\<close>. The array, the globals and the standard output are the state record
  \<open>sched\<close> that every operation takes and returns. The loops of the C code that walk along
  link fields carry fuel, one more than the number of cells: a walk that does not
  change the links and has not ended by then is on a cycle and never ends.
\<close>

type_synonym ptr = "nat option"

record process =
  arr_A :: u32
  burst_B :: u32
  total_C :: u32
  mult_M :: u32
  processID :: u32
  condition :: u8
  finishingTime :: i32
  CPUTime :: u32
  Btime :: u32
  currentWaitingTime :: u32
  BurstTime :: u32
  CPUBurst :: u32
  quantum :: i32
  operating :: bool
  pushBlock :: ptr
  freshPrime :: ptr
  pushPrimeForward :: ptr

record sched =
  Prime :: "process list"
  sumDat :: bool
  ranomizeN :: bool
  firstPrime :: bool
  namelessOp :: ptr
  present :: u32
  countPrime :: u32
  totalPrime :: u32
  completion :: u32
  totalTimeNumber :: u32
  selection :: ptr
  Afront :: ptr
  Aback :: ptr
  Pausefront :: ptr
  Pauseback :: ptr
  Blockfront :: ptr
  Blockback :: ptr
  placement :: u32
  PauseQ :: u32
  BlockQ :: u32
  terminateAlg :: "process option list" \<comment> \<open>the local array of \<open>listoutputs\<close>, uninitialised cells \<open>None\<close>\<close>
  randomFile :: string \<comment> \<open>the unread part of the open random-number file\<close>
  out_text :: string \<comment> \<open>what has been printed\<close>

section \<open>Reading and writing through a pointer\<close>

definition load :: "ptr \<Rightarrow> sched \<Rightarrow> fault + process" where
  "load p s = (case p of None \<Rightarrow> Inl NullDeref
     | Some i \<Rightarrow> if i < length (Prime s) then Inr (Prime s ! i) else Inl OutOfBounds)"

definition store :: "ptr \<Rightarrow> (process \<Rightarrow> process) \<Rightarrow> sched \<Rightarrow> fault + sched" where
  "store p f s = (case p of None \<Rightarrow> Inl NullDeref
     | Some i \<Rightarrow> if i < length (Prime s) then Inr (s\<lparr>Prime := (Prime s)[i := f (Prime s ! i)]\<rparr>)
                 else Inl OutOfBounds)"

definition emit :: "string \<Rightarrow> sched \<Rightarrow> sched" where
  "emit t s = s\<lparr>out_text := out_text s @ t\<rparr>"

lemma load_simps [simp]:
  "load None s = Inl NullDeref"
  "i < length (Prime s) \<Longrightarrow> load (Some i) s = Inr (Prime s ! i)"
  by (simp_all add: load_def)

lemma store_simps [simp]:
  "store None f s = Inl NullDeref"
  "i < length (Prime s) \<Longrightarrow> store (Some i) f s = Inr (s\<lparr>Prime := (Prime s)[i := f (Prime s ! i)]\<rparr>)"
  by (simp_all add: store_def)

lemma store_eq_Inr_iff:
  "store p f s = Inr t \<longleftrightarrow>
     (\<exists>i. p = Some i \<and> i < length (Prime s) \<and> t = s\<lparr>Prime := (Prime s)[i := f (Prime s ! i)]\<rparr>)"
  by (auto simp: store_def split: option.splits if_splits)

lemma placement_store: "store p f s = Inr t \<Longrightarrow> placement t = placement s"
  by (auto simp: store_eq_Inr_iff)

lemma load_eq_Inr_iff:
  "load p s = Inr q \<longleftrightarrow> (\<exists>i. p = Some i \<and> i < length (Prime s) \<and> q = Prime s ! i)"
  by (auto simp: load_def split: option.splits if_splits)

lemma emit_sel [simp]:
  "Prime (emit t s) = Prime s" "selection (emit t s) = selection s"
  "placement (emit t s) = placement s" "out_text (emit t s) = out_text s @ t"
  by (simp_all add: emit_def)

section \<open>The random-number file\<close>

definition read_number :: "nat \<Rightarrow> string \<Rightarrow> fault + u32 \<times> string" where
  \<comment> \<open>\<open>(uint32_t) atoi(fgets(str, n, f))\<close>: at the end of file \<open>atoi\<close> gets a null pointer\<close>
  "read_number n f = (case fgets n f of None \<Rightarrow> Inl NullDeref
     | Some (l, r) \<Rightarrow> Inr (word_of_int (atoi l), r))"

definition ranomize :: "u32 \<Rightarrow> string \<Rightarrow> fault + u32 \<times> string" where
  "ranomize line infinity =
     bindE (read_number 512 infinity) (\<lambda>(MysteryNumb, infinity).
       if line = 0 then Inl DivByZero else Inr (1 + MysteryNumb mod line, infinity))"

section \<open>The ready queue\<close>

definition Qsetup :: "ptr \<Rightarrow> sched \<Rightarrow> fault + sched" where
  "Qsetup FreshN s =
     (if placement s = 0
      then Inr (s\<lparr>Afront := FreshN, Aback := FreshN, placement := placement s + 1\<rparr>)
      else bindE (store FreshN (\<lambda>q. q\<lparr>freshPrime := None\<rparr>) s) (\<lambda>s.
           bindE (store (Aback s) (\<lambda>q. q\<lparr>freshPrime := FreshN\<rparr>) s) (\<lambda>s.
           bindE (load (Aback s) s) (\<lambda>b.
             Inr (s\<lparr>Aback := freshPrime b, placement := placement s + 1\<rparr>)))))"

definition dsetup :: "sched \<Rightarrow> fault + ptr \<times> sched" where
  "dsetup s =
     (if placement s = 0 then Inr (None, emit (''ERROR'' @ [newline]) s)
      else let rot = Afront s in
           bindE (load (Afront s) s) (\<lambda>a.
           let s = s\<lparr>Afront := freshPrime a, placement := placement s - 1\<rparr>;
               s = (if placement s = 0 then s\<lparr>Aback := None\<rparr> else s) in
           bindE (store rot (\<lambda>q. q\<lparr>freshPrime := None\<rparr>) s) (\<lambda>s. Inr (rot, s))))"

section \<open>The queue of paused processes\<close>

definition pauseQue :: "ptr \<Rightarrow> sched \<Rightarrow> fault + sched" where
  "pauseQue FreshN s =
     (if PauseQ s = 0
      then Inr (s\<lparr>Pausefront := FreshN, Pauseback := FreshN, Afront := Aback s,
                  PauseQ := PauseQ s + 1\<rparr>)
      else bindE (store FreshN (\<lambda>q. q\<lparr>pushPrimeForward := None\<rparr>) s) (\<lambda>s.
           bindE (store (Pauseback s) (\<lambda>q. q\<lparr>pushPrimeForward := FreshN\<rparr>) s) (\<lambda>s.
           bindE (load (Pauseback s) s) (\<lambda>b.
             Inr (s\<lparr>Pauseback := pushPrimeForward b, PauseQ := PauseQ s + 1\<rparr>)))))"

definition replaceN :: "sched \<Rightarrow> fault + ptr \<times> sched" where
  "replaceN s =
     (if PauseQ s = 0 then Inr (None, s)
      else let rot = Pausefront s in
           bindE (load (Pausefront s) s) (\<lambda>a.
           let s = s\<lparr>Pausefront := pushPrimeForward a, PauseQ := PauseQ s - 1\<rparr>;
               s = (if PauseQ s = 0 then s\<lparr>Pauseback := None\<rparr> else s) in
           bindE (store rot (\<lambda>q. q\<lparr>pushPrimeForward := None\<rparr>) s) (\<lambda>s. Inr (rot, s))))"

section \<open>The list of blocked processes\<close>

definition insertB :: "ptr \<Rightarrow> sched \<Rightarrow> fault + sched" where
  "insertB FreshN s =
     (if Blockfront s = None \<or> Blockback s = None
      then Inr (s\<lparr>Blockfront := FreshN, Blockback := FreshN, BlockQ := BlockQ s + 1\<rparr>)
      else bindE (store (Blockback s) (\<lambda>q. q\<lparr>pushBlock := FreshN\<rparr>) s) (\<lambda>s.
             Inr (s\<lparr>Blockback := FreshN, BlockQ := BlockQ s + 1\<rparr>)))"

definition removeB :: "sched \<Rightarrow> fault + ptr \<times> sched" where
  "removeB s =
     (if Blockfront s = None then Inr (None, s)
      else let rot = Blockfront s in
           bindE (load (Blockfront s) s) (\<lambda>a.
           let s = s\<lparr>Blockfront := pushBlock a\<rparr>;
               s = (if Blockfront s = None then s\<lparr>Blockback := None\<rparr> else s);
               s = s\<lparr>BlockQ := BlockQ s - 1\<rparr> in
           bindE (store rot (\<lambda>q. q\<lparr>pushBlock := None\<rparr>) s) (\<lambda>s. Inr (rot, s))))"

section \<open>Walking along a list\<close>

fun before_last :: "(process \<Rightarrow> ptr) \<Rightarrow> nat \<Rightarrow> ptr \<Rightarrow> sched \<Rightarrow> fault + ptr" where
  \<comment> \<open>\<open>while (p->next->next != NULL) p = p->next;\<close>\<close>
  "before_last nx 0 p s = Inl NonTermination"
| "before_last nx (Suc k) p s =
     bindE (load p s) (\<lambda>q. bindE (load (nx q) s) (\<lambda>r.
       if nx r \<noteq> None then before_last nx k (nx q) s else Inr p))"

fun before_id :: "(process \<Rightarrow> ptr) \<Rightarrow> nat \<Rightarrow> u32 \<Rightarrow> ptr \<Rightarrow> sched \<Rightarrow> fault + ptr" where
  \<comment> \<open>\<open>while (p->next->processID != id) p = p->next;\<close>\<close>
  "before_id nx 0 idn p s = Inl NonTermination"
| "before_id nx (Suc k) idn p s =
     bindE (load p s) (\<lambda>q. bindE (load (nx q) s) (\<lambda>r.
       if processID r \<noteq> idn then before_id nx k idn (nx q) s else Inr p))"

end
