(* ===== verification/Sched_Run.thy ===== *)
theory Sched_Run
  imports Sched_State
begin

text \<open>
  lab3/scheduler.c, the simulation: the phases of one cycle (\<open>proceedForward\<close>,
  \<open>execxuteB\<close>, \<open>creation\<close>, \<open>executeR\<close>, \<open>countdown\<close>), the cycle itself
  (\<open>datapoint\<close>), the reset between passes (\<open>Extra\<close>), the printing functions and
  the driver \<open>listoutputs\<close>. The scheduling discipline is the code's small integer:
  0 first come first served, 1 round robin, 2 uniprogrammed, 3 shortest job first.
\<close>

section \<open>The running process\<close>

definition proceedForward :: "u8 \<Rightarrow> sched \<Rightarrow> fault + sched" where
  "proceedForward selectAlg s =
     (if selection s = None then Inr s
      else
        bindE (load (selection s) s) (\<lambda>j.
        bindE (if operating j
               then store (selection s)
                      (\<lambda>q. q\<lparr>operating := False, BurstTime := 1 + mult_M q * CPUBurst q\<rparr>) s
               else Inr s) (\<lambda>s.
        bindE (load (selection s) s) (\<lambda>j.
        if total_C j = CPUTime j then
          bindE (store (selection s) (\<lambda>q. q\<lparr>condition := 4, finishingTime := present s\<rparr>) s) (\<lambda>s.
          bindE (load (selection s) s) (\<lambda>j.
          if unat (completion s) < length (terminateAlg s)
          then let s = s\<lparr>terminateAlg := (terminateAlg s)[unat (completion s) := Some j],
                         completion := completion s + 1\<rparr>;
                   s = (if selectAlg = 2 then s\<lparr>namelessOp := None\<rparr> else s)
               in Inr (s\<lparr>selection := None\<rparr>)
          else Inl OutOfBounds))
        else if CPUBurst j \<le> 0 then
          bindE (store (selection s) (\<lambda>q. q\<lparr>condition := 3\<rparr>) s) (\<lambda>s.
          bindE (insertB (selection s) s) (\<lambda>s.
          Inr (s\<lparr>selection := None\<rparr>)))
        else if selectAlg = 1 \<and> sint (quantum j) \<le> 0 then
          bindE (store (selection s) (\<lambda>q. q\<lparr>condition := 1\<rparr>) s) (\<lambda>s.
          bindE (Qsetup (selection s) s) (\<lambda>s.
          Inr (s\<lparr>selection := None\<rparr>)))
        else store (selection s) (\<lambda>q. q\<lparr>condition := 2\<rparr>) s))))"

section \<open>Blocked processes\<close>

definition take_blocked :: "ptr \<Rightarrow> sched \<Rightarrow> fault + ptr \<times> sched" where
  \<comment> \<open>takes an expired process out of the blocked list, wherever it is\<close>
  "take_blocked presentN s =
     bindE (load presentN s) (\<lambda>q.
     bindE (load (Blockfront s) s) (\<lambda>bf.
     if processID q = processID bf then removeB s
     else
     bindE (load (Blockback s) s) (\<lambda>bb.
     if processID q = processID bb then
       bindE (before_last pushBlock (Suc (length (Prime s))) (Blockfront s) s) (\<lambda>blockPrime.
       let s = s\<lparr>Blockback := blockPrime\<rparr> in
       bindE (load blockPrime s) (\<lambda>bp.
       let extraN = pushBlock bp in
       bindE (store blockPrime (\<lambda>q. q\<lparr>pushBlock := None\<rparr>) s) (\<lambda>s.
       bindE (store extraN (\<lambda>q. q\<lparr>pushBlock := None\<rparr>) s) (\<lambda>s.
       Inr (extraN, s\<lparr>BlockQ := BlockQ s - 1\<rparr>)))))
     else
       bindE (before_id pushBlock (Suc (length (Prime s))) (processID q) (Blockfront s) s) (\<lambda>blockPrime.
       bindE (load blockPrime s) (\<lambda>bp.
       let extraN = pushBlock bp in
       bindE (load extraN s) (\<lambda>ex.
       bindE (store blockPrime (\<lambda>q. q\<lparr>pushBlock := pushBlock ex\<rparr>) s) (\<lambda>s.
       bindE (store extraN (\<lambda>q. q\<lparr>pushBlock := None\<rparr>) s) (\<lambda>s.
       Inr (extraN, s\<lparr>BlockQ := BlockQ s - 1\<rparr>)))))))))"

definition unblock :: "ptr \<Rightarrow> sched \<Rightarrow> fault + sched" where
  \<comment> \<open>the body of the loop of \<open>execxuteB\<close> for an expired process\<close>
  "unblock presentN s =
     bindE (store presentN (\<lambda>q. q\<lparr>condition := 1\<rparr>) s) (\<lambda>s.
     bindE (take_blocked presentN s) (\<lambda>(extraN, s). Qsetup extraN s))"

fun execxuteB_loop :: "nat \<Rightarrow> ptr \<Rightarrow> sched \<Rightarrow> fault + sched" where
  "execxuteB_loop 0 presentN s = Inl NonTermination"
| "execxuteB_loop (Suc k) presentN s =
     (if presentN = None then Inr s
      else bindE (load presentN s) (\<lambda>q.
           bindE (if sint (BurstTime q) \<le> 0 then unblock presentN s else Inr s) (\<lambda>s.
           bindE (load presentN s) (\<lambda>q.
           execxuteB_loop k (pushBlock q) s))))"

definition execxuteB :: "sched \<Rightarrow> fault + sched" where
  "execxuteB s =
     (if BlockQ s \<noteq> 0 then execxuteB_loop (Suc (length (Prime s))) (Blockfront s) s else Inr s)"

section \<open>Arrivals\<close>

definition create_one :: "nat \<Rightarrow> sched \<Rightarrow> fault + sched" where
  "create_one i s =
     bindE (load (Some i) s) (\<lambda>q.
     if arr_A q = present s then
       bindE (store (Some i) (\<lambda>q. q\<lparr>condition := 1\<rparr>) (s\<lparr>totalPrime := totalPrime s + 1\<rparr>)) (\<lambda>s.
       let s = (if namelessOp s = None \<and> firstPrime s
                then s\<lparr>firstPrime := False, namelessOp := Some i\<rparr> else s) in
       Qsetup (Some i) s)
     else Inr s)"

definition creation :: "sched \<Rightarrow> fault + sched" where
  "creation s = foldE create_one [0..<unat (countPrime s)] s"

section \<open>Dispatching\<close>

text \<open>
  The two loops that move processes from the ready queue to the paused queue under
  discipline 2. The counter is compared with the size of the queue, which shrinks as the
  loop runs. \<open>guard\<close> is the test inside the second loop (true in the first).
\<close>

definition pause_one :: "sched \<Rightarrow> fault + sched" where
  "pause_one s =
     bindE (dsetup s) (\<lambda>(pauseNo, s).
     bindE (store pauseNo (\<lambda>q. q\<lparr>condition := 1\<rparr>) s) (\<lambda>s. pauseQue pauseNo s))"

lemma placement_dsetup:
  assumes "dsetup s = Inr (p, t)"
  shows "unat (placement t) \<le> unat (placement s)"
proof (cases "placement s = 0")
  case True
  with assms show ?thesis by (auto simp: dsetup_def)
next
  case False
  have "placement t = placement s - 1"
    using assms False
    by (auto simp: dsetup_def Let_def bindE_eq_Inr_iff if_distrib [of placement]
        dest!: placement_store)
  with False show ?thesis by (simp add: unat_minus_one)
qed

lemma placement_pauseQue: "pauseQue p s = Inr t \<Longrightarrow> placement t = placement s"
  by (auto simp: pauseQue_def bindE_eq_Inr_iff store_eq_Inr_iff load_eq_Inr_iff split: if_splits)

lemma placement_pause_one: "pause_one s = Inr t \<Longrightarrow> unat (placement t) \<le> unat (placement s)"
  by (auto simp: pause_one_def bindE_eq_Inr_iff store_eq_Inr_iff
      dest!: placement_dsetup placement_pauseQue)

function pause_loop :: "(sched \<Rightarrow> bool) \<Rightarrow> nat \<Rightarrow> sched \<Rightarrow> fault + sched" where
  "pause_loop guard i s =
     (if i < unat (placement s)
      then bindE (if guard s then pause_one s else Inr s) (\<lambda>s'.
             if unat (placement s') \<le> unat (placement s)
             then pause_loop guard (Suc i) s' else Inr s')
      else Inr s)"
  by pat_completeness auto
termination
  by (relation "measure (\<lambda>(g, i, s). unat (placement s) - i)") auto

declare pause_loop.simps [simp del]

text \<open>The test on the size in the definition is there for its termination only; it always holds.\<close>

lemma pause_loop_unfold:
  "pause_loop guard i s =
     (if i < unat (placement s)
      then bindE (if guard s then pause_one s else Inr s) (pause_loop guard (Suc i))
      else Inr s)"
  by (subst pause_loop.simps)
     (auto simp: placement_pause_one intro!: bindE_cong split: if_splits)

fun shortest :: "nat \<Rightarrow> ptr \<Rightarrow> ptr \<Rightarrow> sched \<Rightarrow> fault + ptr" where
  \<comment> \<open>\<open>shortest n presentPrime quickPrime\<close>: \<open>n\<close> rounds of the search loop\<close>
  "shortest 0 presentPrime quickPrime s = Inr quickPrime"
| "shortest (Suc n) presentPrime quickPrime s =
     bindE (load quickPrime s) (\<lambda>q.
     bindE (load presentPrime s) (\<lambda>p.
     shortest n (freshPrime p)
       (if total_C q - CPUTime q > total_C p - CPUTime p then presentPrime else quickPrime) s))"

definition unlink_ready :: "ptr \<Rightarrow> sched \<Rightarrow> fault + ptr \<times> sched" where
  \<comment> \<open>takes the chosen process out of the ready queue, wherever it is\<close>
  "unlink_ready quickPrime s =
     bindE (load quickPrime s) (\<lambda>q.
     bindE (load (Afront s) s) (\<lambda>af.
     if processID af = processID q then dsetup s
     else
     bindE (load (Aback s) s) (\<lambda>ab.
     if processID ab = processID q then
       bindE (before_last freshPrime (Suc (length (Prime s))) (Afront s) s) (\<lambda>presentNode.
       let s = s\<lparr>Aback := presentNode\<rparr> in
       bindE (load presentNode s) (\<lambda>pn.
       let loadedPrime = freshPrime pn in
       bindE (store presentNode (\<lambda>q. q\<lparr>freshPrime := None\<rparr>) s) (\<lambda>s.
       bindE (store loadedPrime (\<lambda>q. q\<lparr>freshPrime := None\<rparr>) s) (\<lambda>s.
       Inr (loadedPrime, s\<lparr>placement := placement s - 1\<rparr>)))))
     else
       bindE (before_id freshPrime (Suc (length (Prime s))) (processID q) (Afront s) s) (\<lambda>presentNode.
       bindE (load presentNode s) (\<lambda>pn.
       let loadedPrime = freshPrime pn in
       bindE (load loadedPrime s) (\<lambda>ld.
       bindE (store presentNode (\<lambda>q. q\<lparr>freshPrime := freshPrime ld\<rparr>) s) (\<lambda>s.
       bindE (store loadedPrime (\<lambda>q. q\<lparr>freshPrime := None\<rparr>) s) (\<lambda>s.
       Inr (loadedPrime, s\<lparr>placement := placement s - 1\<rparr>)))))))))"

definition draw :: "u8 \<Rightarrow> sched \<Rightarrow> fault + u32 \<times> sched" where
  \<comment> \<open>reads the next random number, with the optional trace line\<close>
  "draw pushthroughCurrent s =
     bindE (read_number 20 (randomFile s)) (\<lambda>(MysteryNumb, rest).
     let s = s\<lparr>randomFile := rest\<rparr> in
     Inr (MysteryNumb,
          if ranomizeN s \<and> pushthroughCurrent mod 2 = 0
          then emit (''select '' @ show_int (sint MysteryNumb) @ [newline]) s else s))"

definition new_burst :: "u32 \<Rightarrow> u32 \<Rightarrow> process \<Rightarrow> fault + u32" where
  "new_burst MysteryNumb B q =
     (if B = 0 then Inl DivByZero
      else let newCPUBurst = 1 + MysteryNumb mod B in
           Inr (if newCPUBurst > total_C q - CPUTime q then total_C q - CPUTime q else newCPUBurst))"

definition dispatch_sjf :: "u8 \<Rightarrow> sched \<Rightarrow> fault + sched" where
  "dispatch_sjf pushthroughCurrent s =
     bindE (shortest (unat (placement s)) (Afront s) (Afront s) s) (\<lambda>quickPrime.
     bindE (unlink_ready quickPrime s) (\<lambda>(loadedPrime, s).
     bindE (store loadedPrime (\<lambda>q. q\<lparr>condition := 2, operating := True\<rparr>) s) (\<lambda>s.
     bindE (draw pushthroughCurrent s) (\<lambda>(MysteryNumb, s).
     bindE (load quickPrime s) (\<lambda>qp.
     bindE (load loadedPrime s) (\<lambda>lp.
     bindE (new_burst MysteryNumb (burst_B qp) lp) (\<lambda>newCPUBurst.
     bindE (store loadedPrime (\<lambda>q. q\<lparr>CPUBurst := newCPUBurst\<rparr>) s) (\<lambda>s.
     Inr (s\<lparr>selection := loadedPrime\<rparr>)))))))))"

definition dispatch_head :: "u8 \<Rightarrow> u8 \<Rightarrow> sched \<Rightarrow> fault + sched" where
  "dispatch_head selectAlg pushthroughCurrent s =
     bindE (dsetup s) (\<lambda>(preparePrime, s).
     bindE (draw pushthroughCurrent s) (\<lambda>(MysteryNumb, s).
     bindE (load preparePrime s) (\<lambda>pp.
     bindE (new_burst MysteryNumb (burst_B pp) pp) (\<lambda>newCPUBurst.
     bindE (store preparePrime (\<lambda>q. q\<lparr>CPUBurst := newCPUBurst\<rparr>) s) (\<lambda>s.
     bindE (load preparePrime s) (\<lambda>pp.
     if CPUBurst pp > 0 then
       bindE (store preparePrime (\<lambda>q. q\<lparr>condition := 2, operating := True\<rparr>) s) (\<lambda>s.
       bindE (if selectAlg = 1 then store preparePrime (\<lambda>q. q\<lparr>quantum := 2\<rparr>) s else Inr s) (\<lambda>s.
       Inr (s\<lparr>selection := preparePrime\<rparr>)))
     else Inr s))))))"

definition resume_paused :: "sched \<Rightarrow> fault + sched" where
  "resume_paused s =
     (if namelessOp s = None then
        bindE (replaceN s) (\<lambda>(continueRunning, s).
        bindE (store continueRunning (\<lambda>q. q\<lparr>condition := 1\<rparr>) s) (\<lambda>s.
        Qsetup continueRunning (s\<lparr>namelessOp := continueRunning\<rparr>)))
      else Inr s)"

definition executeR :: "u8 \<Rightarrow> u8 \<Rightarrow> sched \<Rightarrow> fault + sched" where
  "executeR selectAlg pushthroughCurrent s =
     bindE (if namelessOp s \<noteq> None \<and> placement s \<noteq> 0 \<and> Afront s \<noteq> namelessOp s \<and> selectAlg = 2
            then pause_loop (\<lambda>s. True) 0 s else Inr s) (\<lambda>s.
     bindE (if PauseQ s \<noteq> 0 \<and> selectAlg = 2 then resume_paused s else Inr s) (\<lambda>s.
     bindE (if placement s \<noteq> 0 \<and> selection s = None
            then (if selectAlg = 3 then dispatch_sjf pushthroughCurrent s
                  else dispatch_head selectAlg pushthroughCurrent s)
            else Inr s) (\<lambda>s.
     if selectAlg = 2 \<and> placement s \<noteq> 0
     then pause_loop (\<lambda>s. selection s \<noteq> None) 0 s else Inr s)))"

section \<open>The timers\<close>

definition tick :: "u8 \<Rightarrow> nat \<Rightarrow> sched \<Rightarrow> fault + sched" where
  "tick selectAlg i s =
     bindE (load (Some i) s) (\<lambda>q.
     if condition q = 0 then Inr s
     else if condition q = 3 then
       store (Some i) (\<lambda>q. q\<lparr>Btime := Btime q + 1, BurstTime := BurstTime q - 1\<rparr>) s
     else if condition q = 2 then
       store (Some i) (\<lambda>q. q\<lparr>CPUTime := CPUTime q + 1, CPUBurst := CPUBurst q - 1,
           quantum := (if selectAlg = 1 then quantum q - 1 else quantum q)\<rparr>) s
     else if condition q = 1 then
       store (Some i) (\<lambda>q. q\<lparr>currentWaitingTime := currentWaitingTime q + 1\<rparr>) s
     else if condition q = 4 then Inr s
     else Inl (Exit 1))"

fun any_blocked :: "nat list \<Rightarrow> sched \<Rightarrow> fault + bool" where
  \<comment> \<open>the second loop of \<open>countdown\<close>, which stops at the first blocked process\<close>
  "any_blocked [] s = Inr False"
| "any_blocked (i # is) s =
     bindE (load (Some i) s) (\<lambda>q. if condition q = 3 then Inr True else any_blocked is s)"

definition countdown :: "u8 \<Rightarrow> sched \<Rightarrow> fault + sched" where
  "countdown selectAlg s =
     bindE (foldE (tick selectAlg) [0..<unat (countPrime s)] s) (\<lambda>s.
     bindE (any_blocked [0..<unat (countPrime s)] s) (\<lambda>b.
     Inr (if b then s\<lparr>totalTimeNumber := totalTimeNumber s + 1\<rparr> else s)))"

section \<open>One cycle\<close>

definition cond_text :: "process \<Rightarrow> fault + string" where
  "cond_text q =
     (if condition q = 0 then Inr (''unstarted '' @ [CHR 0x09] @ ''0'' @ [CHR 0x09])
      else if condition q = 1 then Inr (''ready   '' @ [CHR 0x09] @ ''0'' @ [CHR 0x09])
      else if condition q = 2 then
        Inr (''running '' @ [CHR 0x09] @ show_int (sint (CPUBurst q + 1)) @ [CHR 0x09])
      else if condition q = 3 then
        Inr (''blocked '' @ [CHR 0x09] @ show_int (sint (BurstTime q + 1)) @ [CHR 0x09])
      else if condition q = 4 then Inr (''terminated '' @ [CHR 0x09] @ ''0'' @ [CHR 0x09])
      else Inl (Exit 1))"

definition print_cycle :: "u8 \<Rightarrow> sched \<Rightarrow> fault + sched" where
  "print_cycle pushthroughCurrent s =
     (if sumDat s \<and> pushthroughCurrent mod 2 = 0 then
        bindE (foldE (\<lambda>i s. bindE (load (Some i) s) (\<lambda>q.
                 bindE (cond_text q) (\<lambda>t. Inr (emit t s))))
               [0..<unat (countPrime s)]
               (emit (''previous run'' @ [CHR 0x09] @ show_int (sint (present s)) @ '':'' @ [CHR 0x09]) s))
          (\<lambda>s. Inr (emit [newline] s))
      else Inr s)"

definition datapoint :: "u8 \<Rightarrow> u8 \<Rightarrow> sched \<Rightarrow> fault + sched" where
  "datapoint pushthroughCurrent datastream s =
     bindE (print_cycle pushthroughCurrent s) (\<lambda>s.
     bindE (proceedForward datastream s) (\<lambda>s.
     bindE (execxuteB s) (\<lambda>s.
     bindE (if totalPrime s \<noteq> countPrime s then creation s else Inr s) (\<lambda>s.
     bindE (executeR datastream pushthroughCurrent s) (\<lambda>s.
     bindE (countdown datastream s) (\<lambda>s.
     Inr (s\<lparr>present := present s + 1\<rparr>)))))))"

partial_function (option) datapoints :: "u8 \<Rightarrow> u8 \<Rightarrow> sched \<Rightarrow> (fault + sched) option" where
  \<comment> \<open>\<open>while (completion != countPrime) datapoint(...)\<close>; \<open>None\<close> if it never ends\<close>
  "datapoints pushthroughCurrent datastream s =
     (if completion s = countPrime s then Some (Inr s)
      else case datapoint pushthroughCurrent datastream s of
             Inl e \<Rightarrow> Some (Inl e)
           | Inr s \<Rightarrow> datapoints pushthroughCurrent datastream s)"

declare datapoints.simps [code]

section \<open>Reset between the passes\<close>

definition reset_one :: "nat \<Rightarrow> string \<times> sched \<Rightarrow> fault + string \<times> sched" where
  "reset_one i = (\<lambda>(infinity, s).
     bindE (store (Some i) (\<lambda>q. q\<lparr>condition := 0, freshPrime := None, pushPrimeForward := None,
        pushBlock := None, finishingTime := -1, CPUTime := 0, Btime := 0,
        currentWaitingTime := 0, operating := False\<rparr>) s) (\<lambda>s.
     bindE (load (Some i) s) (\<lambda>q.
     bindE (ranomize (burst_B q) infinity) (\<lambda>(r, infinity).
     bindE (store (Some i) (\<lambda>q. q\<lparr>CPUBurst := r, BurstTime := mult_M q * r\<rparr>) s) (\<lambda>s.
     Inr (infinity, s))))))"

definition reset_globals :: "sched \<Rightarrow> sched" where
  "reset_globals s = s\<lparr>present := 0, totalPrime := 0, completion := 0, totalTimeNumber := 0,
     firstPrime := True, namelessOp := None, Afront := None, Aback := None, placement := 0,
     Pausefront := None, Pauseback := None, PauseQ := 0, Blockfront := None, Blockback := None,
     BlockQ := 0, selection := None\<rparr>"

definition Extra :: "string \<Rightarrow> sched \<Rightarrow> fault + sched" where
  \<comment> \<open>the first argument is the content of the file \<open>random-numbers\<close>\<close>
  "Extra random_numbers s =
     bindE (foldE reset_one [0..<unat (countPrime s)] (random_numbers, reset_globals s))
       (\<lambda>(infinity, s). Inr s)"

end
