(* ===== verification/Sched_Out.thy ===== *)
theory Sched_Out
  imports Sched_Run Complex_Main
begin

text \<open>
  lab3/scheduler.c, the outside: the command line, the reading of the process list, the
  printed reports and the two passes that \<open>listoutputs\<close> makes for each discipline.
  \<open>%i\<close> prints a \<open>uint32_t\<close> as the signed integer with the same bits.
\<close>

definition show_u32 :: "u32 \<Rightarrow> string" where
  "show_u32 x = show_int (sint x)"

section \<open>Reports\<close>

definition abcm_text :: "process \<Rightarrow> string" where
  "abcm_text q = '' ( '' @ show_u32 (arr_A q) @ '' '' @ show_u32 (burst_B q) @ '' ''
     @ show_u32 (total_C q) @ '' '' @ show_u32 (mult_M q) @ '')''"

definition printStart :: "sched \<Rightarrow> fault + sched" where
  "printStart s =
     bindE (foldE (\<lambda>i s. bindE (load (Some i) s) (\<lambda>q. Inr (emit (abcm_text q) s)))
              [0..<unat (countPrime s)] (emit (''insert '' @ show_u32 (countPrime s)) s))
       (\<lambda>s. Inr (emit [newline] s))"

definition finished_cell :: "nat \<Rightarrow> sched \<Rightarrow> fault + process" where
  "finished_cell i s =
     (if i < length (terminateAlg s)
      then (case terminateAlg s ! i of None \<Rightarrow> Inl Uninitialised | Some q \<Rightarrow> Inr q)
      else Inl OutOfBounds)"

definition printFinal :: "sched \<Rightarrow> fault + sched" where
  "printFinal s =
     bindE (foldE (\<lambda>i s. bindE (finished_cell i s) (\<lambda>q. Inr (emit (abcm_text q) s)))
              [0..<unat (completion s)]
              (emit (''The (sorted) input is: '' @ show_u32 (countPrime s)) s))
       (\<lambda>s. Inr (emit [newline] s))"

definition specifics_text :: "process \<Rightarrow> string" where
  "specifics_text q =
     ''Process '' @ show_u32 (processID q) @ '':'' @ [newline] @
     [CHR 0x09] @ ''(A,B,C,M) = ('' @ show_u32 (arr_A q) @ '','' @ show_u32 (burst_B q) @ '',''
       @ show_u32 (total_C q) @ '','' @ show_u32 (mult_M q) @ '')'' @ [newline] @
     [CHR 0x09] @ ''Finishing time: '' @ show_u32 (finishingTime q) @ [newline] @
     [CHR 0x09] @ ''Turnaround time: '' @ show_u32 (finishingTime q - arr_A q) @ [newline] @
     [CHR 0x09] @ ''I/O time: '' @ show_u32 (Btime q) @ [newline] @
     [CHR 0x09] @ ''Waiting time: '' @ show_u32 (currentWaitingTime q) @ [newline] @ [newline]"

definition printProcessSpecifics :: "sched \<Rightarrow> fault + sched" where
  "printProcessSpecifics s =
     foldE (\<lambda>i s. bindE (load (Some i) s) (\<lambda>q. Inr (emit (specifics_text q) s)))
       [0..<unat (countPrime s)] (emit [newline] s)"

text \<open>
  The summary works in \<open>double\<close>. The sums of \<open>uint32_t\<close> values are exact there and
  are natural numbers here; the text that \<open>%6f\<close> prints for \<open>k * (x / y)\<close>, computed
  in doubles, is the parameter \<open>fmt k x y\<close> of the model.
\<close>

record totals =
  cpu_total :: nat
  io_total :: nat
  wait_total :: nat
  turnaround_total :: nat

definition add_totals :: "process \<Rightarrow> totals \<Rightarrow> totals" where
  "add_totals q t = \<lparr>cpu_total = cpu_total t + unat (CPUTime q),
     io_total = io_total t + unat (Btime q),
     wait_total = wait_total t + unat (currentWaitingTime q),
     turnaround_total = turnaround_total t + unat (finishingTime q - arr_A q)\<rparr>"

fun summary_totals :: "nat list \<Rightarrow> sched \<Rightarrow> totals \<Rightarrow> fault + totals" where
  "summary_totals [] s t = Inr t"
| "summary_totals (i # is) s t =
     bindE (load (Some i) s) (\<lambda>q. summary_totals is s (add_totals q t))"

definition printSummaryData :: "(real \<Rightarrow> real \<Rightarrow> real \<Rightarrow> string) \<Rightarrow> sched \<Rightarrow> fault + sched" where
  "printSummaryData fmt s =
     bindE (summary_totals [0..<unat (countPrime s)] s
              \<lparr>cpu_total = 0, io_total = 0, wait_total = 0, turnaround_total = 0\<rparr>) (\<lambda>t.
     let finalFinishingTime = real (unat (present s - 1));
         n = real (unat (countPrime s)) in
     Inr (emit (''Summary Data:'' @ [newline] @
       [CHR 0x09] @ ''Finishing time: '' @ show_u32 (present s - 1) @ [newline] @
       [CHR 0x09] @ ''CPU Utilisation: '' @ fmt 1 (real (cpu_total t)) finalFinishingTime @ [newline] @
       [CHR 0x09] @ ''I/O Utilisation: ''
         @ fmt 1 (real (unat (totalTimeNumber s))) finalFinishingTime @ [newline] @
       [CHR 0x09] @ ''Throughput: '' @ fmt 100 n finalFinishingTime
         @ '' processes per hundred cycles'' @ [newline] @
       [CHR 0x09] @ ''Average turnaround time: '' @ fmt 1 (real (turnaround_total t)) n @ [newline] @
       [CHR 0x09] @ ''Average waiting time: '' @ fmt 1 (real (wait_total t)) n @ [newline]) s))"

section \<open>The two passes\<close>

definition banner :: "u8 \<Rightarrow> string" where
  "banner datastream =
     (if datastream = 0 then ''---- FCFS ----'' @ [newline]
      else if datastream = 1 then ''---- RR ----'' @ [newline]
      else if datastream = 2 then ''---- block ----'' @ [newline]
      else if datastream = 3 then ''---- SJF ----'' @ [newline]
      else ''Error'' @ [newline])"

definition title :: "u8 \<Rightarrow> string" where
  "title datastream =
     (if datastream = 0 then ''************First Come First Serve************'' @ [newline]
      else if datastream = 1 then ''************Round Robin************'' @ [newline]
      else if datastream = 2 then ''************ Block ************'' @ [newline]
      else if datastream = 3 then ''************Shortest Job First************'' @ [newline]
      else [])"

definition end_banner :: "u8 \<Rightarrow> string" where
  "end_banner datastream =
     (if datastream = 0 then ''---- FCFS ----'' @ [newline]
      else if datastream = 1 then ''---- RR ----'' @ [newline]
      else if datastream = 2 then ''----Block ----'' @ [newline]
      else if datastream = 3 then ''---- SJF ----'' @ [newline]
      else [])"

definition known_stream :: "u8 \<Rightarrow> u8" where
  "known_stream datastream = (if datastream \<in> {0, 1, 2, 3} then datastream else 0)"

definition first_pass :: "string \<Rightarrow> u8 \<Rightarrow> sched \<Rightarrow> (fault + sched) option" where
  \<comment> \<open>up to the end of the first \<open>while\<close>; an unknown discipline prints an error and becomes 0\<close>
  "first_pass random_numbers datastream s =
     bindO (Some (printStart (emit (banner datastream) s))) (\<lambda>s.
     datapoints 1 (known_stream datastream)
       (s\<lparr>terminateAlg := replicate (unat (countPrime s)) None, randomFile := random_numbers\<rparr>))"

definition second_pass :: "string \<Rightarrow> u8 \<Rightarrow> sched \<Rightarrow> (fault + sched) option" where
  "second_pass random_numbers datastream s =
     bindO (Some (Extra random_numbers s)) (\<lambda>s.
     let s = emit [newline] s;
         s = (if sumDat s then emit (''burst for processes'' @ [newline]) s else s) in
     datapoints 2 datastream (s\<lparr>randomFile := random_numbers\<rparr>))"

definition listoutputs ::
  "(real \<Rightarrow> real \<Rightarrow> real \<Rightarrow> string) \<Rightarrow> string \<Rightarrow> u8 \<Rightarrow> sched \<Rightarrow> (fault + sched) option" where
  "listoutputs fmt random_numbers datastream s =
     bindO (first_pass random_numbers datastream s) (\<lambda>s.
     let datastream' = known_stream datastream in
     bindO (Some (printFinal s)) (\<lambda>s.
     bindO (second_pass random_numbers datastream' s) (\<lambda>s.
     let s = emit (title datastream') s in
     bindO (Some (printProcessSpecifics s)) (\<lambda>s.
     bindO (Some (printSummaryData fmt s)) (\<lambda>s.
     bindO (Some (Extra random_numbers s)) (\<lambda>s.
     Some (Inr (emit (end_banner datastream') s))))))))"

section \<open>Command line and input file\<close>

definition arg :: "string list \<Rightarrow> nat \<Rightarrow> fault + string" where
  \<comment> \<open>\<open>argv[argc]\<close> is the null pointer, anything beyond is out of bounds\<close>
  "arg argv i = (if i < length argv then Inr (argv ! i)
     else if i = length argv then Inl NullDeref else Inl OutOfBounds)"

definition arguments :: "string list \<Rightarrow> sched \<Rightarrow> fault + nat \<times> sched" where
  "arguments argv s =
     (if length argv = 2 then Inr (1, s)
      else bindE (arg argv 1) (\<lambda>a1. bindE (arg argv 2) (\<lambda>a2.
        let s = (if a1 = ''yes'' \<or> a2 = ''yes'' then s\<lparr>sumDat := True\<rparr> else s);
            s = (if a1 = ''no'' \<or> a2 = ''no'' then s\<lparr>ranomizeN := True\<rparr> else s) in
        Inr (if a1 \<noteq> ''no'' \<and> a1 \<noteq> ''yes'' then 1
             else if a2 \<noteq> ''no'' \<and> a2 \<noteq> ''yes'' then 2 else 3, s))))"

definition new_process :: "nat \<Rightarrow> u32 \<Rightarrow> u32 \<Rightarrow> u32 \<Rightarrow> u32 \<Rightarrow> u32 \<Rightarrow> process" where
  "new_process end A1 A2 A3 A4 r = \<lparr>arr_A = A1, burst_B = A2, total_C = A3, mult_M = A4,
     processID = of_nat end, condition = 0, finishingTime = -1, CPUTime = 0, Btime = 0,
     currentWaitingTime = 0, BurstTime = A4 * r, CPUBurst = r, quantum = 2, operating = False,
     pushBlock = None, freshPrime = None, pushPrimeForward = None\<rparr>"

fun read_processes ::
  "nat \<Rightarrow> (u32 \<times> u32 \<times> u32 \<times> u32) list \<Rightarrow> string \<Rightarrow> fault + process list" where
  \<comment> \<open>the loop of \<open>main\<close>, from the numbers that \<open>fscanf\<close> returned for each process\<close>
  "read_processes end [] infinity = Inr []"
| "read_processes end ((A1, A2, A3, A4) # rest) infinity =
     bindE (ranomize A2 infinity) (\<lambda>(r, infinity).
     bindE (read_processes (Suc end) rest infinity) (\<lambda>ps.
     Inr (new_process end A1 A2 A3 A4 r # ps)))"

definition initial_sched :: "process list \<Rightarrow> sched" where
  \<comment> \<open>the static initialisers of the globals, with the array filled\<close>
  "initial_sched ps = \<lparr>Prime = ps, sumDat = False, ranomizeN = False, firstPrime = True,
     namelessOp = None, present = 0, countPrime = of_nat (length ps), totalPrime = 0,
     completion = 0, totalTimeNumber = 0, selection = None, Afront = None, Aback = None,
     Pausefront = None, Pauseback = None, Blockfront = None, Blockback = None,
     placement = 0, PauseQ = 0, BlockQ = 0, terminateAlg = [], randomFile = [], out_text = []\<rparr>"

definition main_sched ::
  "(real \<Rightarrow> real \<Rightarrow> real \<Rightarrow> string) \<Rightarrow> string \<Rightarrow> string list \<Rightarrow>
   (string \<Rightarrow> (u32 \<times> u32 \<times> u32 \<times> u32) list option) \<Rightarrow> (fault + sched) option" where
  \<comment> \<open>the last argument is the scanned content of a named input file, \<open>None\<close> if \<open>fopen\<close> fails\<close>
  "main_sched fmt random_numbers argv input =
     bindO (Some (arguments argv (initial_sched []))) (\<lambda>(k, flags).
     bindO (Some (arg argv k)) (\<lambda>filePath.
     case input filePath of
       None \<Rightarrow> Some (Inl (Exit 1))
     | Some quads \<Rightarrow>
         bindO (Some (read_processes 0 quads random_numbers)) (\<lambda>ps.
         let s = (initial_sched ps)\<lparr>sumDat := sumDat flags, ranomizeN := ranomizeN flags\<rparr> in
         bindO (listoutputs fmt random_numbers 0 s) (\<lambda>s.
         bindO (listoutputs fmt random_numbers 1 s) (\<lambda>s.
         bindO (listoutputs fmt random_numbers 2 s) (\<lambda>s.
         listoutputs fmt random_numbers 3 s))))))"

end
