(* ===== verification/Sched_Links.thy ===== *)
theory Sched_Links
  imports Sched_Out
begin

text \<open>
  The lists of lab3/scheduler.c represent queues. \<open>lrep nx hd tl n xs\<close> says that the
  link fields \<open>nx\<close> (one per process), the head and tail pointers and the counter
  represent the queue \<open>xs\<close>, and that the link of every process outside the queue is
  null, which the code relies on when it appends a cell without clearing its link. Each
  queue operation is shown to be the list operation it stands for, and to leave the rest
  of the state alone; the ready queue and the blocked list are interpreted as \<open>fifo\<close>.
\<close>

definition lrep :: "ptr list \<Rightarrow> ptr \<Rightarrow> ptr \<Rightarrow> u32 \<Rightarrow> nat list \<Rightarrow> bool" where
  "lrep nx hp tp n xs \<longleftrightarrow> chain (\<lambda>i. nx ! i) hp xs \<and> tp = lastp xs \<and> unat n = length xs \<and>
     (\<forall>i \<in> set xs. i < length nx) \<and> (\<forall>i < length nx. i \<notin> set xs \<longrightarrow> nx ! i = None)"

definition ready_rep :: "sched \<Rightarrow> nat list \<Rightarrow> bool" where
  "ready_rep s xs \<longleftrightarrow> lrep (map freshPrime (Prime s)) (Afront s) (Aback s) (placement s) xs"

definition block_rep :: "sched \<Rightarrow> nat list \<Rightarrow> bool" where
  "block_rep s xs \<longleftrightarrow> lrep (map pushBlock (Prime s)) (Blockfront s) (Blockback s) (BlockQ s) xs"

definition erase :: "process \<Rightarrow> process" where
  \<comment> \<open>the process without its link fields\<close>
  "erase q = q\<lparr>pushBlock := None, freshPrime := None, pushPrimeForward := None\<rparr>"

lemma nth_update_fun: "i < length nx \<Longrightarrow> (\<lambda>j. nx[i := v] ! j) = (\<lambda>j. nx ! j)(i := v)"
  by (auto simp: fun_eq_iff nth_list_update)

lemma lrep_distinct: "lrep nx hp tp n xs \<Longrightarrow> distinct xs"
  by (auto simp: lrep_def dest: chain_distinct)

lemma lrep_0_iff: "lrep nx hp tp n xs \<Longrightarrow> n = 0 \<longleftrightarrow> xs = []"
  by (simp add: lrep_def word_eq_0_unat)

lemma lrep_head: "lrep nx hp tp n xs \<Longrightarrow> hp = (case xs of [] \<Rightarrow> None | x # _ \<Rightarrow> Some x)"
  by (cases xs) (auto simp: lrep_def)

lemma lrep_length: "lrep nx hp tp n xs \<Longrightarrow> length xs \<le> length nx"
proof -
  assume r: "lrep nx hp tp n xs"
  then have "set xs \<subseteq> {..<length nx}" "distinct xs" by (auto simp: lrep_def intro: lrep_distinct)
  then show ?thesis by (metis card_lessThan card_mono distinct_card finite_lessThan)
qed

lemma lrep_room:
  "lrep nx hp tp n xs \<Longrightarrow> c < length nx \<Longrightarrow> c \<notin> set xs \<Longrightarrow> length xs < length nx"
proof -
  assume r: "lrep nx hp tp n xs" and c: "c < length nx" "c \<notin> set xs"
  from r c have "set (c # xs) \<subseteq> {..<length nx}" "distinct (c # xs)"
    by (auto simp: lrep_def dest: chain_distinct)
  then have "length (c # xs) \<le> length nx"
    by (metis card_lessThan card_mono distinct_card finite_lessThan)
  then show ?thesis by simp
qed

lemma lrep_snoc_empty:
  "lrep nx hp tp n [] \<Longrightarrow> c < length nx \<Longrightarrow> lrep nx (Some c) (Some c) (n + 1) [c]"
  by (auto simp: lrep_def word_eq_0_unat [symmetric])

lemma lrep_snoc:
  assumes "lrep nx hp tp n xs" and "xs \<noteq> []" and "c < length nx" and "c \<notin> set xs"
    and "length nx < 2 ^ 32"
  shows "lrep (nx[last xs := Some c, c := None]) hp (Some c) (n + 1) (xs @ [c])"
proof -
  have l: "last xs < length nx" using assms(1,2) by (auto simp: lrep_def)
  have ch: "chain ((\<lambda>i. nx ! i)(last xs := Some c, c := None)) hp (xs @ [c])"
    using assms by (intro chain_append_cell) (auto simp: lrep_def)
  have "(\<lambda>i. nx[last xs := Some c, c := None] ! i) = (\<lambda>i. nx ! i)(last xs := Some c, c := None)"
    using l assms(3) by (auto simp: fun_eq_iff nth_list_update)
  moreover have "unat (n + 1) = length xs + 1"
    using assms lrep_room [OF assms(1,3,4)] by (subst unat_Suc_u32) (auto simp: lrep_def)
  ultimately show ?thesis
    using assms ch l by (auto simp: lrep_def nth_list_update)
qed

lemma lrep_tl:
  assumes "lrep nx hp tp n (x # xs)"
  shows "lrep (nx[x := None]) (nx ! x) (if xs = [] then None else tp) (n - 1) xs"
proof -
  have x: "x < length nx" "x \<notin> set xs" using assms lrep_distinct [OF assms] by (auto simp: lrep_def)
  have "unat (n - 1) = length xs"
    using assms by (subst unat_minus_one) (auto simp: lrep_def word_eq_0_unat)
  moreover have "chain (\<lambda>i. nx[x := None] ! i) (nx ! x) xs"
    using assms x by (simp add: lrep_def nth_update_fun del: fun_upd_apply)
  ultimately show ?thesis using assms x
    by (auto simp: lrep_def nth_list_update lastp_Cons)
qed

lemma lrep_remove:
  assumes "lrep nx hp tp n (xs @ [a, b] @ ys)"
  shows "lrep (nx[a := nx ! b, b := None]) hp (if ys = [] then Some a else tp) (n - 1) (xs @ [a] @ ys)"
proof -
  have d: "distinct (xs @ [a, b] @ ys)" using lrep_distinct [OF assms] .
  have ab: "a < length nx" "b < length nx" using assms by (auto simp: lrep_def)
  have "chain ((\<lambda>i. nx ! i)(a := nx ! b, b := None)) hp (xs @ [a] @ ys)"
    using assms by (intro chain_remove_cell) (auto simp: lrep_def)
  moreover have "(\<lambda>i. nx[a := nx ! b, b := None] ! i) = (\<lambda>i. nx ! i)(a := nx ! b, b := None)"
    using ab by (auto simp: fun_eq_iff nth_list_update)
  ultimately have "chain (\<lambda>i. nx[a := nx ! b, b := None] ! i) hp (xs @ [a] @ ys)" by (simp del: fun_upd_apply)
  moreover have "unat (n - 1) = length (xs @ [a] @ ys)"
    using assms by (subst unat_minus_one) (auto simp: lrep_def word_eq_0_unat)
  moreover have "(if ys = [] then Some a else tp) = lastp (xs @ [a] @ ys)"
    using assms by (auto simp: lrep_def lastp_def)
  ultimately show ?thesis
    using assms ab d by (auto simp: lrep_def nth_list_update)
qed

lemma lrep_next: "lrep nx hp tp n (xs @ [a, b] @ ys) \<Longrightarrow> nx ! a = Some b"
  using chain_next [of "\<lambda>i. nx ! i" hp xs a b ys] by (auto simp: lrep_def)

lemma lrep_last_next: "lrep nx hp tp n (xs @ [a]) \<Longrightarrow> nx ! a = None"
  using chain_snoc [of "\<lambda>i. nx ! i" hp xs a] by (auto simp: lrep_def)

section \<open>Frames\<close>

text \<open>An operation on one list changes link fields of one kind only.\<close>

definition only_fresh :: "process list \<Rightarrow> process list \<Rightarrow> bool" where
  "only_fresh P P' \<longleftrightarrow> map erase P' = map erase P \<and> map pushBlock P' = map pushBlock P"

definition only_block :: "process list \<Rightarrow> process list \<Rightarrow> bool" where
  "only_block P P' \<longleftrightarrow> map erase P' = map erase P \<and> map freshPrime P' = map freshPrime P"

lemma erase_links [simp]:
  "erase (q\<lparr>freshPrime := v\<rparr>) = erase q"
  "erase (q\<lparr>pushBlock := v\<rparr>) = erase q"
  by (simp_all add: erase_def)

lemma erase_sel [simp]:
  "arr_A (erase q) = arr_A q" "burst_B (erase q) = burst_B q" "total_C (erase q) = total_C q"
  "mult_M (erase q) = mult_M q" "processID (erase q) = processID q"
  "condition (erase q) = condition q" "finishingTime (erase q) = finishingTime q"
  "CPUTime (erase q) = CPUTime q" "Btime (erase q) = Btime q"
  "currentWaitingTime (erase q) = currentWaitingTime q" "BurstTime (erase q) = BurstTime q"
  "CPUBurst (erase q) = CPUBurst q" "quantum (erase q) = quantum q"
  "operating (erase q) = operating q"
  by (simp_all add: erase_def)

lemma only_fresh_refl [simp]: "only_fresh P P"
  by (simp add: only_fresh_def)

lemma only_block_refl [simp]: "only_block P P"
  by (simp add: only_block_def)

lemma only_fresh_length: "only_fresh P P' \<Longrightarrow> length P' = length P"
  by (metis length_map only_fresh_def)

lemma only_block_length: "only_block P P' \<Longrightarrow> length P' = length P"
  by (metis length_map only_block_def)

lemma only_fresh_update:
  "i < length P \<Longrightarrow> only_fresh P0 P \<Longrightarrow> only_fresh P0 (P[i := (P ! i)\<lparr>freshPrime := v\<rparr>])"
  by (auto simp: only_fresh_def map_update_nth)

lemma only_block_update:
  "i < length P \<Longrightarrow> only_block P0 P \<Longrightarrow> only_block P0 (P[i := (P ! i)\<lparr>pushBlock := v\<rparr>])"
  by (auto simp: only_block_def map_update_nth)

end
