(* ===== verification/Sched_Queues.thy ===== *)
theory Sched_Queues
  imports Sched_Links
begin

text \<open>
  The operations of the three lists of lab3/scheduler.c are the queue operations they
  stand for: \<open>Qsetup\<close>/\<open>dsetup\<close>, \<open>pauseQue\<close>/\<open>replaceN\<close> and
  \<open>insertB\<close>/\<open>removeB\<close> are first-in first-out on the processes they hold.
\<close>

section \<open>The ready queue\<close>

lemma Qsetup_ready:
  assumes r: "ready_rep s xs" and c: "c < length (Prime s)" "c \<notin> set xs"
    and len: "length (Prime s) < 2 ^ 32"
  shows "\<exists>P f. Qsetup (Some c) s = Inr (s\<lparr>Prime := P, Afront := f, Aback := Some c,
             placement := placement s + 1\<rparr>) \<and> only_fresh (Prime s) P \<and>
           lrep (map freshPrime P) f (Some c) (placement s + 1) (xs @ [c])"
proof (cases "xs = []")
  case True
  with r have "placement s = 0" by (simp add: ready_rep_def lrep_def word_eq_0_unat)
  moreover have "lrep (map freshPrime (Prime s)) (Some c) (Some c) (placement s + 1) [c]"
    using r c True by (intro lrep_snoc_empty) (auto simp: ready_rep_def)
  ultimately show ?thesis
    by (intro exI [of _ "Prime s"] exI [of _ "Some c"]) (simp add: Qsetup_def True)
next
  case False
  let ?b = "last xs"
  let ?P = "(Prime s)[c := (Prime s ! c)\<lparr>freshPrime := None\<rparr>]"
  let ?Q = "?P[?b := (?P ! ?b)\<lparr>freshPrime := Some c\<rparr>]"
  have n: "placement s \<noteq> 0" and b: "Aback s = Some ?b" "?b < length (Prime s)" "?b \<noteq> c"
    using r False c by (auto simp: ready_rep_def lrep_def word_eq_0_unat lastp_def)
  have "Qsetup (Some c) s = Inr (s\<lparr>Prime := ?Q, Aback := Some c, placement := placement s + 1\<rparr>)"
    using n b c by (simp add: Qsetup_def)
  moreover have "only_fresh (Prime s) ?Q"
    using b c by (intro only_fresh_update) simp_all
  moreover have "map freshPrime ?Q = (map freshPrime (Prime s))[?b := Some c, c := None]"
    using b(3) by (simp add: map_update list_update_swap)
  moreover have "lrep ((map freshPrime (Prime s))[?b := Some c, c := None]) (Afront s) (Some c)
      (placement s + 1) (xs @ [c])"
    using r False c len by (intro lrep_snoc [where tp = "Aback s"]) (auto simp: ready_rep_def)
  ultimately show ?thesis
    by (intro exI [of _ ?Q] exI [of _ "Afront s"]) simp
qed

lemma dsetup_ready:
  assumes r: "ready_rep s (x # xs)"
  shows "\<exists>P f b. dsetup s = Inr (Some x, s\<lparr>Prime := P, Afront := f, Aback := b,
             placement := placement s - 1\<rparr>) \<and> only_fresh (Prime s) P \<and>
           lrep (map freshPrime P) f b (placement s - 1) xs"
proof -
  let ?P = "(Prime s)[x := (Prime s ! x)\<lparr>freshPrime := None\<rparr>]"
  let ?b = "if xs = [] then None else Aback s"
  have n: "placement s \<noteq> 0" and x: "Afront s = Some x" "x < length (Prime s)"
    using r by (auto simp: ready_rep_def lrep_def word_eq_0_unat)
  have t: "lrep (map freshPrime ?P) (freshPrime (Prime s ! x)) ?b (placement s - 1) xs"
    using lrep_tl [OF r [unfolded ready_rep_def]] x by (simp add: map_update)
  then have "placement s - 1 = 0 \<longleftrightarrow> xs = []" by (rule lrep_0_iff)
  then have "dsetup s = Inr (Some x, s\<lparr>Prime := ?P, Afront := freshPrime (Prime s ! x),
      Aback := ?b, placement := placement s - 1\<rparr>)"
    using n x by (simp add: dsetup_def Let_def)
  moreover have "only_fresh (Prime s) ?P" using x by (intro only_fresh_update) simp_all
  ultimately show ?thesis using t by blast
qed

lemma dsetup_empty: "ready_rep s [] \<Longrightarrow> dsetup s = Inr (None, emit (''ERROR'' @ [newline]) s)"
  by (simp add: dsetup_def ready_rep_def lrep_def word_eq_0_unat)

definition ready_queue :: "sched \<Rightarrow> nat list \<Rightarrow> bool" where
  "ready_queue s xs \<longleftrightarrow> ready_rep s xs \<and> length (Prime s) < 2 ^ 32"

interpretation rq: fifo "\<lambda>c. Qsetup (Some c)" dsetup ready_queue "\<lambda>s c. c < length (Prime s)"
proof unfold_locales
  fix s xs c
  assume "ready_queue s xs" and "c < length (Prime s)" and "c \<notin> set xs"
  then show "\<exists>t. Qsetup (Some c) s = Inr t \<and> ready_queue t (xs @ [c]) \<and>
      (\<forall>d. (d < length (Prime t)) = (d < length (Prime s)))"
    using Qsetup_ready [of s xs c]
    by (auto simp: ready_queue_def ready_rep_def only_fresh_length)
next
  fix s c xs
  assume "ready_queue s (c # xs)"
  then show "\<exists>t. dsetup s = Inr (Some c, t) \<and> ready_queue t xs \<and>
      (\<forall>d. (d < length (Prime t)) = (d < length (Prime s)))"
    using dsetup_ready [of s c xs]
    by (auto simp: ready_queue_def ready_rep_def only_fresh_length)
next
  fix s
  assume "ready_queue s []"
  then show "\<exists>t. dsetup s = Inr (None, t)" by (simp add: ready_queue_def dsetup_empty)
qed

section \<open>The blocked list\<close>

lemma insertB_block:
  assumes r: "block_rep s xs" and c: "c < length (Prime s)" "c \<notin> set xs"
    and len: "length (Prime s) < 2 ^ 32"
  shows "\<exists>P f. insertB (Some c) s = Inr (s\<lparr>Prime := P, Blockfront := f, Blockback := Some c,
             BlockQ := BlockQ s + 1\<rparr>) \<and> only_block (Prime s) P \<and>
           lrep (map pushBlock P) f (Some c) (BlockQ s + 1) (xs @ [c])"
proof (cases "xs = []")
  case True
  with r have "Blockfront s = None" by (simp add: block_rep_def lrep_def)
  moreover have "lrep (map pushBlock (Prime s)) (Some c) (Some c) (BlockQ s + 1) [c]"
    using r c True by (intro lrep_snoc_empty) (auto simp: block_rep_def)
  ultimately show ?thesis
    by (intro exI [of _ "Prime s"] exI [of _ "Some c"]) (simp add: insertB_def True)
next
  case False
  let ?b = "last xs"
  let ?Q = "(Prime s)[?b := (Prime s ! ?b)\<lparr>pushBlock := Some c\<rparr>]"
  have b: "Blockback s = Some ?b" "?b < length (Prime s)" "?b \<noteq> c" "Blockfront s \<noteq> None"
  proof -
    have "?b \<in> set xs" using False by simp
    with r c show "Blockback s = Some ?b" "?b < length (Prime s)" "?b \<noteq> c"
      by (auto simp: block_rep_def lrep_def lastp_def False)
    show "Blockfront s \<noteq> None" using r False by (cases xs) (auto simp: block_rep_def lrep_def)
  qed
  have "pushBlock (Prime s ! c) = None"
    using r c by (simp add: block_rep_def lrep_def)
  then have "(map pushBlock (Prime s))[?b := Some c, c := None] = map pushBlock ?Q"
    using b c by (intro nth_equalityI) (auto simp: nth_list_update map_update)
  moreover have "lrep ((map pushBlock (Prime s))[?b := Some c, c := None]) (Blockfront s) (Some c)
      (BlockQ s + 1) (xs @ [c])"
    using r False c len by (intro lrep_snoc [where tp = "Blockback s"]) (auto simp: block_rep_def)
  moreover have "insertB (Some c) s = Inr (s\<lparr>Prime := ?Q, Blockback := Some c, BlockQ := BlockQ s + 1\<rparr>)"
    using b by (auto simp: insertB_def)
  moreover have "only_block (Prime s) ?Q" using b by (intro only_block_update) simp_all
  ultimately show ?thesis
    by (intro exI [of _ ?Q] exI [of _ "Blockfront s"]) simp
qed

lemma removeB_block:
  assumes r: "block_rep s (x # xs)"
  shows "\<exists>P f b. removeB s = Inr (Some x, s\<lparr>Prime := P, Blockfront := f, Blockback := b,
             BlockQ := BlockQ s - 1\<rparr>) \<and> only_block (Prime s) P \<and>
           lrep (map pushBlock P) f b (BlockQ s - 1) xs"
proof -
  let ?P = "(Prime s)[x := (Prime s ! x)\<lparr>pushBlock := None\<rparr>]"
  let ?b = "if xs = [] then None else Blockback s"
  have x: "Blockfront s = Some x" "x < length (Prime s)"
    using r by (auto simp: block_rep_def lrep_def)
  have t: "lrep (map pushBlock ?P) (pushBlock (Prime s ! x)) ?b (BlockQ s - 1) xs"
    using lrep_tl [OF r [unfolded block_rep_def]] x by (simp add: map_update)
  then have "pushBlock (Prime s ! x) = None \<longleftrightarrow> xs = []"
    by (auto dest!: lrep_head split: list.splits)
  then have "removeB s = Inr (Some x, s\<lparr>Prime := ?P, Blockfront := pushBlock (Prime s ! x),
      Blockback := ?b, BlockQ := BlockQ s - 1\<rparr>)"
    using x by (auto simp: removeB_def Let_def)
  moreover have "only_block (Prime s) ?P" using x by (intro only_block_update) simp_all
  ultimately show ?thesis using t by blast
qed

lemma removeB_empty: "block_rep s [] \<Longrightarrow> removeB s = Inr (None, s)"
  by (simp add: removeB_def block_rep_def lrep_def)

definition blocked_list :: "sched \<Rightarrow> nat list \<Rightarrow> bool" where
  "blocked_list s xs \<longleftrightarrow> block_rep s xs \<and> length (Prime s) < 2 ^ 32"

interpretation bq: fifo "\<lambda>c. insertB (Some c)" removeB blocked_list "\<lambda>s c. c < length (Prime s)"
proof unfold_locales
  fix s xs c
  assume "blocked_list s xs" and "c < length (Prime s)" and "c \<notin> set xs"
  then show "\<exists>t. insertB (Some c) s = Inr t \<and> blocked_list t (xs @ [c]) \<and>
      (\<forall>d. (d < length (Prime t)) = (d < length (Prime s)))"
    using insertB_block [of s xs c]
    by (auto simp: blocked_list_def block_rep_def only_block_length)
next
  fix s c xs
  assume "blocked_list s (c # xs)"
  then show "\<exists>t. removeB s = Inr (Some c, t) \<and> blocked_list t xs \<and>
      (\<forall>d. (d < length (Prime t)) = (d < length (Prime s)))"
    using removeB_block [of s c xs]
    by (auto simp: blocked_list_def block_rep_def only_block_length)
next
  fix s
  assume "blocked_list s []"
  then show "\<exists>t. removeB s = Inr (None, t)" by (simp add: blocked_list_def removeB_empty)
qed

section \<open>The queue of paused processes\<close>

definition pause_rep :: "sched \<Rightarrow> nat list \<Rightarrow> bool" where
  "pause_rep s xs \<longleftrightarrow>
     lrep (map pushPrimeForward (Prime s)) (Pausefront s) (Pauseback s) (PauseQ s) xs \<and>
     length (Prime s) < 2 ^ 32"

lemma pauseQue_pause:
  assumes r: "pause_rep s xs" and c: "c < length (Prime s)" "c \<notin> set xs"
  shows "\<exists>t. pauseQue (Some c) s = Inr t \<and> pause_rep t (xs @ [c]) \<and>
           length (Prime t) = length (Prime s)"
proof (cases "xs = []")
  case True
  with r have "PauseQ s = 0" by (simp add: pause_rep_def lrep_def word_eq_0_unat)
  moreover have "lrep (map pushPrimeForward (Prime s)) (Some c) (Some c) (PauseQ s + 1) [c]"
    using r c True by (intro lrep_snoc_empty) (auto simp: pause_rep_def)
  ultimately show ?thesis using r True by (simp add: pauseQue_def pause_rep_def)
next
  case False
  let ?b = "last xs"
  let ?P = "(Prime s)[c := (Prime s ! c)\<lparr>pushPrimeForward := None\<rparr>]"
  let ?Q = "?P[?b := (?P ! ?b)\<lparr>pushPrimeForward := Some c\<rparr>]"
  have n: "PauseQ s \<noteq> 0" and b: "Pauseback s = Some ?b" "?b < length (Prime s)" "?b \<noteq> c"
    using r False c by (auto simp: pause_rep_def lrep_def word_eq_0_unat lastp_def)
  have "pauseQue (Some c) s = Inr (s\<lparr>Prime := ?Q, Pauseback := Some c, PauseQ := PauseQ s + 1\<rparr>)"
    using n b c by (simp add: pauseQue_def)
  moreover have "map pushPrimeForward ?Q = (map pushPrimeForward (Prime s))[?b := Some c, c := None]"
    using b(3) by (simp add: map_update list_update_swap)
  moreover have "lrep ((map pushPrimeForward (Prime s))[?b := Some c, c := None]) (Pausefront s)
      (Some c) (PauseQ s + 1) (xs @ [c])"
    using r False c by (intro lrep_snoc [where tp = "Pauseback s"]) (auto simp: pause_rep_def)
  ultimately show ?thesis using r by (simp add: pause_rep_def)
qed

lemma replaceN_pause:
  assumes r: "pause_rep s (x # xs)"
  shows "\<exists>t. replaceN s = Inr (Some x, t) \<and> pause_rep t xs \<and> length (Prime t) = length (Prime s)"
proof -
  let ?P = "(Prime s)[x := (Prime s ! x)\<lparr>pushPrimeForward := None\<rparr>]"
  let ?b = "if xs = [] then None else Pauseback s"
  have n: "PauseQ s \<noteq> 0" and x: "Pausefront s = Some x" "x < length (Prime s)"
    using r by (auto simp: pause_rep_def lrep_def word_eq_0_unat)
  have t: "lrep (map pushPrimeForward ?P) (pushPrimeForward (Prime s ! x)) ?b (PauseQ s - 1) xs"
    using r lrep_tl [of "map pushPrimeForward (Prime s)" "Pausefront s" "Pauseback s" "PauseQ s" x xs]
      x by (simp add: pause_rep_def map_update)
  then have "PauseQ s - 1 = 0 \<longleftrightarrow> xs = []" by (rule lrep_0_iff)
  then have "replaceN s = Inr (Some x, s\<lparr>Prime := ?P, Pausefront := pushPrimeForward (Prime s ! x),
      Pauseback := ?b, PauseQ := PauseQ s - 1\<rparr>)"
    using n x by (simp add: replaceN_def Let_def)
  then show ?thesis using t r by (simp add: pause_rep_def)
qed

interpretation pq: fifo "\<lambda>c. pauseQue (Some c)" replaceN pause_rep "\<lambda>s c. c < length (Prime s)"
proof unfold_locales
  fix s xs c
  assume "pause_rep s xs" and "c < length (Prime s)" and "c \<notin> set xs"
  then show "\<exists>t. pauseQue (Some c) s = Inr t \<and> pause_rep t (xs @ [c]) \<and>
      (\<forall>d. (d < length (Prime t)) = (d < length (Prime s)))"
    using pauseQue_pause [of s xs c] by auto
next
  fix s c xs
  assume "pause_rep s (c # xs)"
  then show "\<exists>t. replaceN s = Inr (Some c, t) \<and> pause_rep t xs \<and>
      (\<forall>d. (d < length (Prime t)) = (d < length (Prime s)))"
    using replaceN_pause [of s c xs] by auto
next
  fix s
  assume "pause_rep s []"
  then show "\<exists>t. replaceN s = Inr (None, t)"
    by (simp add: replaceN_def pause_rep_def lrep_def word_eq_0_unat)
qed

end
