(* ===== verification/Sched_Spec.thy ===== *)
theory Sched_Spec
  imports Sched_Queues
begin

text \<open>
  One cycle of lab3/scheduler.c for the disciplines first come first
  served, round robin and shortest job first, with the ready queue and the blocked list
  as plain lists: the abstract scheduler that the pointer program is shown to implement,
  and the invariants of its states. Process records carry no links here. Where the order of the queues matters, it
  follows the code and not lab3_documentation.pdf, section 3.2: there, processes that become ready in the same cycle
  are ordered by their arrival time and shortest job first favours the earlier arrival among equals; in the code they are
  queued as the phases of the cycle find them, a single process leaves the blocked list, and the first
  in the queue wins.
\<close>

record aspec =
  procs :: "process list"
  ready :: "nat list"
  blocked :: "nat list"
  running :: ptr
  clock :: u32
  arrived :: u32
  io_cycles :: u32
  finished :: "process list"
  numbers :: string

definition upd_proc :: "nat \<Rightarrow> (process \<Rightarrow> process) \<Rightarrow> aspec \<Rightarrow> aspec" where
  "upd_proc i f a = a\<lparr>procs := (procs a)[i := f (procs a ! i)]\<rparr>"

section \<open>The phases of a cycle\<close>

definition settle :: "process \<Rightarrow> process" where
  \<comment> \<open>after the first cycle of a burst the time that the process will block is fixed\<close>
  "settle q = (if operating q then q\<lparr>operating := False, BurstTime := 1 + mult_M q * CPUBurst q\<rparr> else q)"

definition a_forward :: "u8 \<Rightarrow> aspec \<Rightarrow> aspec" where
  "a_forward alg a = (case running a of None \<Rightarrow> a | Some j \<Rightarrow>
     let a = upd_proc j settle a; q = procs a ! j in
     if total_C q = CPUTime q then
       let a = upd_proc j (\<lambda>q. q\<lparr>condition := 4, finishingTime := clock a\<rparr>) a in
       a\<lparr>finished := finished a @ [procs a ! j], running := None\<rparr>
     else if CPUBurst q = 0 then
       (upd_proc j (condition_update (\<lambda>_. 3)) a)\<lparr>blocked := blocked a @ [j], running := None\<rparr>
     else if alg = 1 \<and> sint (quantum q) \<le> 0 then
       (upd_proc j (condition_update (\<lambda>_. 1)) a)\<lparr>ready := ready a @ [j], running := None\<rparr>
     else upd_proc j (condition_update (\<lambda>_. 2)) a)"

definition expired :: "aspec \<Rightarrow> nat \<Rightarrow> bool" where
  "expired a i \<longleftrightarrow> sint (BurstTime (procs a ! i)) \<le> 0"

definition a_unblock :: "aspec \<Rightarrow> aspec" where
  \<comment> \<open>at most one process leaves the blocked list: the first whose time is up\<close>
  "a_unblock a = (case List.find (expired a) (blocked a) of None \<Rightarrow> a | Some i \<Rightarrow>
     (upd_proc i (condition_update (\<lambda>_. 1)) a)
       \<lparr>blocked := remove1 i (blocked a), ready := ready a @ [i]\<rparr>)"

definition arriving :: "aspec \<Rightarrow> nat list" where
  "arriving a = filter (\<lambda>i. arr_A (procs a ! i) = clock a) [0..<length (procs a)]"

definition a_arrive :: "aspec \<Rightarrow> aspec" where
  "a_arrive a =
     a\<lparr>procs := map (\<lambda>q. if arr_A q = clock a then q\<lparr>condition := 1\<rparr> else q) (procs a),
       ready := ready a @ arriving a,
       arrived := arrived a + of_nat (length (arriving a))\<rparr>"

definition remaining :: "aspec \<Rightarrow> nat \<Rightarrow> u32" where
  "remaining a i = total_C (procs a ! i) - CPUTime (procs a ! i)"

definition pick :: "u8 \<Rightarrow> aspec \<Rightarrow> nat" where
  \<comment> \<open>the head of the queue, or for shortest job first the first process of least remaining time\<close>
  "pick alg a =
     (if alg = 3
      then hd (filter (\<lambda>i. \<forall>j \<in> set (ready a). remaining a i \<le> remaining a j) (ready a))
      else hd (ready a))"

definition start_burst :: "u8 \<Rightarrow> u32 \<Rightarrow> process \<Rightarrow> process" where
  "start_burst alg x q = (let q = q\<lparr>CPUBurst := x, condition := 2, operating := True\<rparr> in
     if alg = 1 then q\<lparr>quantum := 2\<rparr> else q)"

definition a_dispatch :: "u8 \<Rightarrow> aspec \<Rightarrow> fault + aspec" where
  "a_dispatch alg a =
     (if running a \<noteq> None \<or> ready a = [] then Inr a
      else let j = pick alg a in
        bindE (read_number 20 (numbers a)) (\<lambda>(x, rest).
        bindE (new_burst x (burst_B (procs a ! j)) (procs a ! j)) (\<lambda>b.
        Inr ((upd_proc j (start_burst alg b) a)
              \<lparr>ready := remove1 j (ready a), numbers := rest, running := Some j\<rparr>))))"

definition tick_process :: "u8 \<Rightarrow> process \<Rightarrow> process" where
  "tick_process alg q =
     (if condition q = 3 then q\<lparr>Btime := Btime q + 1, BurstTime := BurstTime q - 1\<rparr>
      else if condition q = 2 then q\<lparr>CPUTime := CPUTime q + 1, CPUBurst := CPUBurst q - 1,
             quantum := (if alg = 1 then quantum q - 1 else quantum q)\<rparr>
      else if condition q = 1 then q\<lparr>currentWaitingTime := currentWaitingTime q + 1\<rparr>
      else q)"

definition a_tick :: "u8 \<Rightarrow> aspec \<Rightarrow> aspec" where
  "a_tick alg a = a\<lparr>procs := map (tick_process alg) (procs a),
     io_cycles := (if blocked a = [] then io_cycles a else io_cycles a + 1),
     clock := clock a + 1\<rparr>"

definition a_cycle :: "u8 \<Rightarrow> aspec \<Rightarrow> fault + aspec" where
  "a_cycle alg a =
     (let a = a_unblock (a_forward alg a);
          a = (if arrived a = of_nat (length (procs a)) then a else a_arrive a) in
      bindE (a_dispatch alg a) (\<lambda>a. Inr (a_tick alg a)))"

section \<open>The relation to the program's state\<close>

definition refines :: "sched \<Rightarrow> aspec \<Rightarrow> bool" where
  "refines s a \<longleftrightarrow>
     procs a = map erase (Prime s) \<and> ready_rep s (ready a) \<and> block_rep s (blocked a) \<and>
     running a = selection s \<and> clock a = present s \<and> arrived a = totalPrime s \<and>
     io_cycles a = totalTimeNumber s \<and> numbers a = randomFile s \<and>
     length (Prime s) = unat (countPrime s) \<and> length (terminateAlg s) = length (Prime s) \<and>
     unat (completion s) = length (finished a) \<and>
     map (map_option erase) (take (length (finished a)) (terminateAlg s)) = map Some (finished a)"

section \<open>Invariants\<close>

text \<open>Every process is in exactly the place that its \<open>condition\<close> names.\<close>

definition placed :: "aspec \<Rightarrow> nat \<Rightarrow> bool" where
  "placed a i \<longleftrightarrow> (let c = condition (procs a ! i) in
     (c = 1 \<longleftrightarrow> i \<in> set (ready a)) \<and> (c = 3 \<longleftrightarrow> i \<in> set (blocked a)) \<and>
     (c = 2 \<longleftrightarrow> running a = Some i) \<and> c \<in> {0, 1, 2, 3, 4})"

definition structured :: "aspec \<Rightarrow> bool" where
  "structured a \<longleftrightarrow> length (procs a) < 2 ^ 32 \<and>
     (\<forall>i < length (procs a). processID (procs a ! i) = of_nat i \<and> placed a i) \<and>
     distinct (ready a) \<and> distinct (blocked a) \<and>
     set (ready a) \<union> set (blocked a) \<union> set_option (running a) \<subseteq> {..<length (procs a)} \<and>
     length (finished a) = length (filter (\<lambda>q. condition q = 4) (procs a))"

text \<open>
  The processor time used and the burst in progress never exceed the total that the
  process asked for; a process is finished exactly when it has had all of it.
  \<open>pre\<close> is true between dispatching and the timers: then the running process still has
  some of its burst left.
\<close>

definition budget :: "bool \<Rightarrow> process \<Rightarrow> bool" where
  "budget pre q \<longleftrightarrow> total_C q \<noteq> 0 \<and>
     (condition q \<in> {0, 1, 3} \<longrightarrow> unat (CPUTime q) < unat (total_C q)) \<and>
     (condition q = 2 \<longrightarrow> unat (CPUTime q) + unat (CPUBurst q) \<le> unat (total_C q) \<and>
        (pre \<longrightarrow> CPUBurst q \<noteq> 0)) \<and>
     (condition q = 4 \<longrightarrow> CPUTime q = total_C q)"

text \<open>
  Every cycle since its arrival is charged to a process exactly once, as processor time,
  blocked time or waiting time.
\<close>

definition accounted :: "u32 \<Rightarrow> process \<Rightarrow> bool" where
  "accounted now q \<longleftrightarrow>
     (condition q = 0 \<longrightarrow> CPUTime q + Btime q + currentWaitingTime q = 0) \<and>
     (condition q \<in> {1, 2, 3} \<longrightarrow> CPUTime q + Btime q + currentWaitingTime q = now - arr_A q) \<and>
     (condition q = 4 \<longrightarrow>
        CPUTime q + Btime q + currentWaitingTime q = finishingTime q - arr_A q)"

definition arrival_ok :: "bool \<Rightarrow> aspec \<Rightarrow> bool" where
  "arrival_ok pre a \<longleftrightarrow>
     arrived a = of_nat (length (filter (\<lambda>q. condition q \<noteq> 0) (procs a))) \<and>
     ((\<forall>q \<in> set (procs a). condition q \<noteq> 0) \<or>
      (\<forall>q \<in> set (procs a). condition q = 0 \<longleftrightarrow>
         (if pre then clock a < arr_A q else clock a \<le> arr_A q)))"

definition spec_inv :: "aspec \<Rightarrow> bool" where
  "spec_inv a \<longleftrightarrow> structured a \<and> (\<forall>q \<in> set (procs a). budget False q) \<and>
     (\<forall>q \<in> set (procs a). accounted (clock a) q) \<and> arrival_ok False a"

end
