(* ===== verification/Sched_Inv.thy ===== *)
theory Sched_Inv
  imports Sched_Spec
begin

text \<open>
  The invariants of the abstract scheduler of lab3/scheduler.c are kept by every phase of
  a cycle. \<open>mid_inv pre\<close> is what holds inside a cycle; \<open>pre\<close> says whether the
  arrivals of the cycle have been taken in.
\<close>

definition mid_inv :: "bool \<Rightarrow> aspec \<Rightarrow> bool" where
  "mid_inv pre a \<longleftrightarrow> structured a \<and> (\<forall>q \<in> set (procs a). budget True q) \<and>
     (\<forall>q \<in> set (procs a). accounted (clock a) q) \<and> arrival_ok pre a"

lemma structuredD:
  assumes "structured a"
  shows "length (procs a) < 2 ^ 32"
    and "i \<in> set (ready a) \<Longrightarrow> i < length (procs a)"
    and "i \<in> set (blocked a) \<Longrightarrow> i < length (procs a)"
    and "running a = Some i \<Longrightarrow> i < length (procs a)"
    and "i < length (procs a) \<Longrightarrow> processID (procs a ! i) = of_nat i"
    and "i < length (procs a) \<Longrightarrow> condition (procs a ! i) = 1 \<longleftrightarrow> i \<in> set (ready a)"
    and "i < length (procs a) \<Longrightarrow> condition (procs a ! i) = 3 \<longleftrightarrow> i \<in> set (blocked a)"
    and "i < length (procs a) \<Longrightarrow> condition (procs a ! i) = 2 \<longleftrightarrow> running a = Some i"
    and "i < length (procs a) \<Longrightarrow> condition (procs a ! i) \<in> {0, 1, 2, 3, 4}"
    and "distinct (ready a)" and "distinct (blocked a)"
    and "length (finished a) = length (filter (\<lambda>q. condition q = 4) (procs a))"
  using assms by (auto simp: structured_def placed_def Let_def)

text \<open>One process changes place.\<close>

lemma structured_move:
  assumes st: "structured a" and j: "j < length (procs a)"
    and P: "procs b = (procs a)[j := q]" and id: "processID q = of_nat j"
    and others: "\<And>i. i \<noteq> j \<Longrightarrow> i \<in> set (ready b) \<longleftrightarrow> i \<in> set (ready a)"
      "\<And>i. i \<noteq> j \<Longrightarrow> i \<in> set (blocked b) \<longleftrightarrow> i \<in> set (blocked a)"
      "\<And>i. i \<noteq> j \<Longrightarrow> running b = Some i \<longleftrightarrow> running a = Some i"
    and me: "condition q = 1 \<longleftrightarrow> j \<in> set (ready b)" "condition q = 3 \<longleftrightarrow> j \<in> set (blocked b)"
      "condition q = 2 \<longleftrightarrow> running b = Some j" "condition q \<in> {0, 1, 2, 3, 4}"
    and d: "distinct (ready b)" "distinct (blocked b)"
    and old: "condition (procs a ! j) \<noteq> 4"
    and fin: "length (finished b) = length (finished a) + (if condition q = 4 then 1 else 0)"
  shows "structured b"
proof -
  note D = structuredD [OF st]
  have "placed b i" if "i < length (procs a)" for i
    using that others [of i] me D(6-9) [of i] j P
    by (cases "i = j") (simp_all add: placed_def Let_def)
  moreover have "processID (procs b ! i) = of_nat i" if "i < length (procs a)" for i
    using that D(5) [of i] id j P by (cases "i = j") simp_all
  moreover have "x < length (procs a)" if "x \<in> set (ready b) \<union> set (blocked b) \<union> set_option (running b)" for x
  proof (cases "x = j")
    case False
    with that others [of x] have "x \<in> set (ready a) \<or> x \<in> set (blocked a) \<or> running a = Some x" by auto
    then show ?thesis using D(2-4) by blast
  qed (simp add: j)
  moreover have "length (finished b) = length (filter (\<lambda>q. condition q = 4) (procs b))"
    using length_filter_update [OF j, of "\<lambda>q. condition q = 4" q] old fin D(12) P by simp
  ultimately show ?thesis using D(1) d P by (auto simp: structured_def)
qed

lemma arrival_move:
  assumes "arrival_ok pre a" and "j < length (procs a)" and "procs b = (procs a)[j := q]"
    and "condition (procs a ! j) \<noteq> 0" and "condition q \<noteq> 0" and "arr_A q = arr_A (procs a ! j)"
    and "clock b = clock a" and "arrived b = arrived a"
  shows "arrival_ok pre b"
proof -
  let ?P = "\<lambda>q. condition q = 0 \<longleftrightarrow> (if pre then clock a < arr_A q else clock a \<le> arr_A q)"
  have "length (filter (\<lambda>q. condition q \<noteq> 0) (procs b)) = length (filter (\<lambda>q. condition q \<noteq> 0) (procs a))"
    using length_filter_update [OF assms(2), of "\<lambda>q. condition q \<noteq> 0" q] assms by simp
  moreover have "(\<forall>q \<in> set (procs b). condition q \<noteq> 0) \<or> (\<forall>q \<in> set (procs b). ?P q)"
  proof (cases "\<forall>q \<in> set (procs a). condition q \<noteq> 0")
    case True
    then show ?thesis using assms(3,5) all_set_update [of "procs a" "\<lambda>q. condition q \<noteq> 0"] by simp
  next
    case False
    then have all: "\<forall>q \<in> set (procs a). ?P q" using assms(1) unfolding arrival_ok_def by blast
    then have "?P (procs a ! j)" using assms(2) nth_mem by blast
    then have "?P q" using assms(4,5,6) by (cases pre) simp_all
    with all show ?thesis using assms(3) all_set_update [of "procs a" ?P] by simp
  qed
  ultimately show ?thesis using assms(1,7,8) by (cases pre) (simp_all add: arrival_ok_def)
qed

section \<open>The running process\<close>

lemma settle_sel [simp]:
  "condition (settle q) = condition q" "processID (settle q) = processID q"
  "arr_A (settle q) = arr_A q" "total_C (settle q) = total_C q" "CPUTime (settle q) = CPUTime q"
  "Btime (settle q) = Btime q" "currentWaitingTime (settle q) = currentWaitingTime q"
  "CPUBurst (settle q) = CPUBurst q" "quantum (settle q) = quantum q"
  by (simp_all add: settle_def)

text \<open>The four outcomes for a running process, as one step from the state before.\<close>

lemma a_forward_running:
  assumes "running a = Some j" and "j < length (procs a)"
  shows "a_forward alg a = (let q = settle (procs a ! j) in
     if total_C (procs a ! j) = CPUTime (procs a ! j)
     then a\<lparr>procs := (procs a)[j := q\<lparr>condition := 4, finishingTime := clock a\<rparr>],
            finished := finished a @ [q\<lparr>condition := 4, finishingTime := clock a\<rparr>], running := None\<rparr>
     else if CPUBurst (procs a ! j) = 0
     then a\<lparr>procs := (procs a)[j := q\<lparr>condition := 3\<rparr>], blocked := blocked a @ [j], running := None\<rparr>
     else if alg = 1 \<and> sint (quantum (procs a ! j)) \<le> 0
     then a\<lparr>procs := (procs a)[j := q\<lparr>condition := 1\<rparr>], ready := ready a @ [j], running := None\<rparr>
     else a\<lparr>procs := (procs a)[j := q\<lparr>condition := 2\<rparr>]\<rparr>)"
  using assms by (simp add: a_forward_def upd_proc_def Let_def)

lemma a_forward_cases:
  assumes "running a = Some j" and "j < length (procs a)"
  obtains
    (finish) q where "q = (settle (procs a ! j))\<lparr>condition := 4, finishingTime := clock a\<rparr>"
      "total_C (procs a ! j) = CPUTime (procs a ! j)"
      "a_forward alg a = a\<lparr>procs := (procs a)[j := q], finished := finished a @ [q], running := None\<rparr>"
  | (block) q where "q = (settle (procs a ! j))\<lparr>condition := 3\<rparr>"
      "total_C (procs a ! j) \<noteq> CPUTime (procs a ! j)" "CPUBurst (procs a ! j) = 0"
      "a_forward alg a = a\<lparr>procs := (procs a)[j := q], blocked := blocked a @ [j], running := None\<rparr>"
  | (requeue) q where "q = (settle (procs a ! j))\<lparr>condition := 1\<rparr>"
      "total_C (procs a ! j) \<noteq> CPUTime (procs a ! j)" "CPUBurst (procs a ! j) \<noteq> 0"
      "alg = 1" "sint (quantum (procs a ! j)) \<le> 0"
      "a_forward alg a = a\<lparr>procs := (procs a)[j := q], ready := ready a @ [j], running := None\<rparr>"
  | (continue) q where "q = (settle (procs a ! j))\<lparr>condition := 2\<rparr>"
      "total_C (procs a ! j) \<noteq> CPUTime (procs a ! j)" "CPUBurst (procs a ! j) \<noteq> 0"
      "a_forward alg a = a\<lparr>procs := (procs a)[j := q]\<rparr>"
  using a_forward_running [OF assms, of alg] that by (auto simp: Let_def split: if_splits)

lemma a_forward_mid:
  assumes inv: "spec_inv a"
  shows "mid_inv False (a_forward alg a)"
proof (cases "running a")
  case None
  have "budget True q" if "q \<in> set (procs a)" for q
  proof -
    obtain i where i: "i < length (procs a)" "q = procs a ! i" using \<open>q \<in> set (procs a)\<close>
      by (auto simp: in_set_conv_nth)
    then have "condition q \<noteq> 2" using structuredD(8) [of a i] inv None by (simp add: spec_inv_def)
    then show ?thesis using inv that by (auto simp: spec_inv_def budget_def)
  qed
  with inv None show ?thesis by (simp add: a_forward_def spec_inv_def mid_inv_def)
next
  case (Some j)
  have st: "structured a" and ar: "arrival_ok False a" using inv by (simp_all add: spec_inv_def)
  note D = structuredD [OF st]
  have j: "j < length (procs a)" using D(4) Some .
  let ?p = "procs a ! j"
  have c2: "condition ?p = 2" using D(8) [OF j] Some by simp
  have old: "condition ?p \<noteq> 4" using c2 by simp
  have nj: "j \<notin> set (ready a)" "j \<notin> set (blocked a)" using D(6,7) [OF j] c2 by simp_all
  have b: "budget False ?p" and ac: "accounted (clock a) ?p" using inv j by (auto simp: spec_inv_def)
  have less: "unat (CPUTime ?p) < unat (total_C ?p)" if "total_C ?p \<noteq> CPUTime ?p"
  proof -
    have "unat (CPUTime ?p) \<le> unat (total_C ?p)" using b c2 by (simp add: budget_def)
    moreover have "unat (CPUTime ?p) \<noteq> unat (total_C ?p)" using that by (metis unsigned_word_eqI)
    ultimately show ?thesis by simp
  qed
  have others: "budget True q \<and> accounted (clock a) q" if "i < length (procs a)" "i \<noteq> j" "q = procs a ! i" for i q
  proof -
    have "condition q \<noteq> 2" using D(8) [OF that(1)] Some that by simp
    then show ?thesis using inv that by (auto simp: spec_inv_def budget_def)
  qed
  have upd: "\<forall>x \<in> set ((procs a)[j := q]). budget True x \<and> accounted (clock a) x"
    if "budget True q" "accounted (clock a) q" for q
    using others that j by (fastforce simp: in_set_conv_nth nth_list_update)
  have step: "mid_inv False (a_forward alg a)"
    if "procs (a_forward alg a) = (procs a)[j := q]" "structured (a_forward alg a)"
      "budget True q" "accounted (clock a) q" "condition q \<noteq> 0" "arr_A q = arr_A ?p"
      "clock (a_forward alg a) = clock a" "arrived (a_forward alg a) = arrived a" for q
    using that upd [OF that(3,4)] arrival_move [OF ar j that(1) _ that(5,6,7,8)] c2
    by (simp add: mid_inv_def)
  show ?thesis
    using Some j
  proof (cases rule: a_forward_cases [where alg = alg])
    case (finish q)
    have "structured (a_forward alg a)"
      by (rule structured_move [OF st j, where q = q]) (use finish nj D(5) [OF j] D(10,11) Some j old in auto)
    then show ?thesis using finish b c2 ac
      by (intro step [of q]) (auto simp: budget_def accounted_def)
  next
    case (block q)
    have "structured (a_forward alg a)"
      by (rule structured_move [OF st j, where q = q]) (use block nj D(5) [OF j] D(10,11) Some j old in auto)
    then show ?thesis using block b c2 ac less
      by (intro step [of q]) (auto simp: budget_def accounted_def)
  next
    case (requeue q)
    have "structured (a_forward alg a)"
      by (rule structured_move [OF st j, where q = q]) (use requeue nj D(5) [OF j] D(10,11) Some j old in auto)
    then show ?thesis using requeue b c2 ac less
      by (intro step [of q]) (auto simp: budget_def accounted_def)
  next
    case (continue q)
    have "structured (a_forward alg a)"
      by (rule structured_move [OF st j, where q = q]) (use continue nj D(5) [OF j] D(10,11) Some j old in auto)
    then show ?thesis using continue b c2 ac
      by (intro step [of q]) (auto simp: budget_def accounted_def)
  qed
qed

section \<open>Blocked processes and arrivals\<close>

lemma mid_move_to_ready:
  assumes inv: "mid_inv pre a" and j: "j < length (procs a)" and c: "condition (procs a ! j) = 3"
    and b: "b = (upd_proc j (condition_update (\<lambda>_. 1)) a)
      \<lparr>blocked := remove1 j (blocked a), ready := ready a @ [j]\<rparr>"
  shows "mid_inv pre b"
proof -
  have st: "structured a" and ar: "arrival_ok pre a" using inv by (simp_all add: mid_inv_def)
  note D = structuredD [OF st]
  let ?q = "(procs a ! j)\<lparr>condition := 1\<rparr>"
  have nj: "j \<notin> set (ready a)" "j \<in> set (blocked a)" "running a \<noteq> Some j"
    using D(6,7,8) [OF j] c by auto
  have P: "procs b = (procs a)[j := ?q]" by (simp add: b upd_proc_def)
  have "structured b"
    by (rule structured_move [OF st j P]) (use nj D(5) [OF j] D(10,11) c in \<open>auto simp: b upd_proc_def\<close>)
  moreover have "budget True ?q" "accounted (clock a) ?q"
    using inv j c nth_mem [OF j] by (auto simp: mid_inv_def budget_def accounted_def)
  then have "\<forall>q \<in> set (procs b). budget True q" "\<forall>q \<in> set (procs b). accounted (clock a) q"
    using inv all_set_update [of "procs a" "budget True"] all_set_update [of "procs a" "accounted (clock a)"]
    by (simp_all add: mid_inv_def P)
  moreover have "arrival_ok pre b"
    by (rule arrival_move [OF ar j P]) (simp_all add: c b upd_proc_def)
  ultimately show ?thesis by (simp add: mid_inv_def b upd_proc_def)
qed

lemma a_unblock_mid:
  assumes "mid_inv pre a"
  shows "mid_inv pre (a_unblock a)"
proof (cases "List.find (expired a) (blocked a)")
  case None
  with assms show ?thesis by (simp add: a_unblock_def)
next
  case (Some j)
  then have "j \<in> set (blocked a)" by (auto simp: find_Some_iff)
  moreover have st: "structured a" using assms by (simp add: mid_inv_def)
  ultimately have j: "j < length (procs a)" "condition (procs a ! j) = 3"
    using structuredD(3,7) [OF st] by auto
  show ?thesis
    by (rule mid_move_to_ready [OF assms j]) (simp add: a_unblock_def Some)
qed

lemma arriving_unstarted:
  assumes "arrival_ok False a" and "arrived a \<noteq> of_nat (length (procs a))" and "q \<in> set (procs a)"
  shows "condition q = 0 \<longleftrightarrow> clock a \<le> arr_A q"
proof -
  have "\<not> (\<forall>q \<in> set (procs a). condition q \<noteq> 0)"
  proof
    assume "\<forall>q \<in> set (procs a). condition q \<noteq> 0"
    then have "filter (\<lambda>q. condition q \<noteq> 0) (procs a) = procs a" by simp
    with assms(1,2) show False by (simp add: arrival_ok_def)
  qed
  with assms(1,3) show ?thesis by (auto simp: arrival_ok_def)
qed

lemma arriving_count:
  "\<forall>q \<in> set xs. arr_A q = t \<longrightarrow> condition q = 0 \<Longrightarrow>
   length (filter (\<lambda>q. condition q \<noteq> 0) (map (\<lambda>q. if arr_A q = t then q\<lparr>condition := 1\<rparr> else q) xs)) =
   length (filter (\<lambda>q. condition q \<noteq> 0) xs) + length (filter (\<lambda>q. arr_A q = t) xs)"
  by (induction xs) auto

lemma arriving_finished:
  "\<forall>q \<in> set xs. arr_A q = t \<longrightarrow> condition q = 0 \<Longrightarrow>
   length (filter (\<lambda>q. condition q = 4) (map (\<lambda>q. if arr_A q = t then q\<lparr>condition := 1\<rparr> else q) xs)) =
   length (filter (\<lambda>q. condition q = 4) xs)"
  by (induction xs) auto

lemma a_arrive_mid:
  assumes inv: "mid_inv False a" and not_all: "arrived a \<noteq> of_nat (length (procs a))"
  shows "mid_inv True (a_arrive a)"
proof -
  let ?g = "\<lambda>q. if arr_A q = clock a then q\<lparr>condition := 1\<rparr> else q"
  have st: "structured a" and ar: "arrival_ok False a" using inv by (simp_all add: mid_inv_def)
  note D = structuredD [OF st]
  have u: "condition q = 0 \<longleftrightarrow> clock a \<le> arr_A q" if "q \<in> set (procs a)" for q
    using arriving_unstarted [OF ar not_all that] .
  then have z: "\<forall>q \<in> set (procs a). arr_A q = clock a \<longrightarrow> condition q = 0" by simp
  have new: "i \<in> set (arriving a) \<longleftrightarrow> i < length (procs a) \<and> arr_A (procs a ! i) = clock a" for i
    by (auto simp: arriving_def)
  have fresh: "i \<notin> set (ready a) \<and> i \<notin> set (blocked a) \<and> running a \<noteq> Some i" if "i \<in> set (arriving a)" for i
    using that z D(6,7,8) [of i] nth_mem [of i "procs a"] by (auto simp: new)
  have pl: "placed (a_arrive a) i" if i: "i < length (procs a)" for i
    using D(6-9) [OF i] fresh [of i] i by (auto simp: placed_def a_arrive_def Let_def new)
  have "distinct (arriving a)" by (simp add: arriving_def)
  then have "structured (a_arrive a)"
    using st pl fresh D(5) arriving_finished [OF z]
    by (auto simp: structured_def a_arrive_def new)
  moreover have "\<forall>q \<in> set (procs (a_arrive a)). budget True q"
    using inv z by (auto simp: a_arrive_def mid_inv_def budget_def)
  moreover have "\<forall>q \<in> set (procs (a_arrive a)). accounted (clock a) q"
    using inv z by (auto simp: a_arrive_def mid_inv_def accounted_def)
  moreover have "arrival_ok True (a_arrive a)"
  proof -
    have "length (arriving a) = length (filter (\<lambda>q. arr_A q = clock a) (procs a))"
      unfolding arriving_def by (rule length_filter_nth)
    then have "arrived (a_arrive a) =
        of_nat (length (filter (\<lambda>q. condition q \<noteq> 0) (procs (a_arrive a))))"
      using ar arriving_count [OF z] by (simp add: arrival_ok_def a_arrive_def)
    moreover have "\<forall>q \<in> set (procs (a_arrive a)). condition q = 0 \<longleftrightarrow> clock a < arr_A q"
      using u by (auto simp: a_arrive_def)
    ultimately show ?thesis by (simp add: arrival_ok_def a_arrive_def)
  qed
  ultimately show ?thesis by (simp add: mid_inv_def a_arrive_def)
qed

lemma all_arrived_mid:
  assumes inv: "mid_inv False a" and all: "arrived a = of_nat (length (procs a))"
  shows "mid_inv True a"
proof -
  let ?n = "length (filter (\<lambda>q. condition q \<noteq> 0) (procs a))"
  have "length (procs a) < 2 ^ 32" using inv by (simp add: mid_inv_def structured_def)
  moreover have "(of_nat ?n :: u32) = of_nat (length (procs a))"
    using inv all by (simp add: mid_inv_def arrival_ok_def)
  moreover have "?n \<le> length (procs a)" by (rule length_filter_le)
  ultimately have "?n = length (procs a)"
    using of_nat_u32_inject [of ?n "length (procs a)"] by simp
  then have "condition q \<noteq> 0" if "q \<in> set (procs a)" for q
    using that length_filter_less [of q "procs a" "\<lambda>q. condition q \<noteq> 0"] by auto
  with inv show ?thesis by (simp add: mid_inv_def arrival_ok_def)
qed

section \<open>Dispatching\<close>

text \<open>A burst is at least one cycle, at most the process's bound, and at most what is left.\<close>

lemma new_burst_bounds:
  assumes nb: "new_burst x B q = Inr b" and less: "unat (CPUTime q) < unat (total_C q)"
  shows "b \<noteq> 0" and "unat b \<le> unat B" and "unat (CPUTime q) + unat b \<le> unat (total_C q)"
proof -
  let ?r = "total_C q - CPUTime q" and ?y = "1 + x mod B"
  have B: "B \<noteq> 0" and b: "b = (if ?y > ?r then ?r else ?y)"
    using nb by (auto simp: new_burst_def Let_def split: if_splits)
  have r: "unat ?r = unat (total_C q) - unat (CPUTime q)"
    using less by (intro unat_sub) (simp add: word_le_nat_alt)
  have "unat (x mod B) < unat B"
    using B by (simp add: unat_mod word_eq_0_unat)
  then have y: "unat ?y = unat (x mod B) + 1"
    using unat_u32_bound [of B] by (subst add.commute, subst unat_Suc_u32) simp_all
  have "unat b = min (unat ?r) (unat ?y)"
    using b by (simp add: word_less_nat_alt min_def)
  then show "b \<noteq> 0" "unat b \<le> unat B" "unat (CPUTime q) + unat b \<le> unat (total_C q)"
    using r y less \<open>unat (x mod B) < unat B\<close> by (auto simp: word_eq_0_unat)
qed

lemma minimal_nonempty:
  assumes "xs \<noteq> []"
  shows "filter (\<lambda>i. \<forall>j \<in> set xs. f i \<le> (f j :: 'b::linorder)) xs \<noteq> []"
proof -
  have "Min (f ` set xs) \<in> f ` set xs" using assms by simp
  then obtain m where m: "m \<in> set xs" "f m = Min (f ` set xs)" by auto
  then have "\<forall>j \<in> set xs. f m \<le> f j" by simp
  with m(1) show ?thesis by (auto simp: filter_empty_conv)
qed

lemma pick_in: "ready a \<noteq> [] \<Longrightarrow> pick alg a \<in> set (ready a)"
  using hd_in_set [OF minimal_nonempty [of "ready a" "remaining a"]]
  by (auto simp: pick_def)

lemma start_burst_sel [simp]:
  "condition (start_burst alg x q) = 2" "processID (start_burst alg x q) = processID q"
  "arr_A (start_burst alg x q) = arr_A q" "total_C (start_burst alg x q) = total_C q"
  "CPUTime (start_burst alg x q) = CPUTime q" "Btime (start_burst alg x q) = Btime q"
  "currentWaitingTime (start_burst alg x q) = currentWaitingTime q"
  "CPUBurst (start_burst alg x q) = x" "operating (start_burst alg x q)"
  "mult_M (start_burst alg x q) = mult_M q"
  by (simp_all add: start_burst_def Let_def)

lemma a_dispatch_Inr:
  assumes d: "a_dispatch alg a = Inr b"
  obtains (idle) "b = a" "running a \<noteq> None \<or> ready a = []"
    | (go) x rest q where "running a = None" "ready a \<noteq> []"
        "read_number 20 (numbers a) = Inr (x, rest)"
        "new_burst x (burst_B (procs a ! pick alg a)) (procs a ! pick alg a) = Inr q"
        "b = (upd_proc (pick alg a) (start_burst alg q) a)
               \<lparr>ready := remove1 (pick alg a) (ready a), numbers := rest, running := Some (pick alg a)\<rparr>"
proof (cases "running a \<noteq> None \<or> ready a = []")
  case True
  then have "b = a" using d by (simp add: a_dispatch_def)
  with True idle show thesis by blast
next
  case False
  then obtain z where z: "read_number 20 (numbers a) = Inr z"
    using d by (auto simp: a_dispatch_def Let_def bindE_eq_Inr_iff)
  obtain x rest where xr: "z = (x, rest)" by (cases z)
  from False z xr d obtain q where
    "new_burst x (burst_B (procs a ! pick alg a)) (procs a ! pick alg a) = Inr q"
    "b = (upd_proc (pick alg a) (start_burst alg q) a)
           \<lparr>ready := remove1 (pick alg a) (ready a), numbers := rest, running := Some (pick alg a)\<rparr>"
    by (auto simp: a_dispatch_def Let_def bindE_eq_Inr_iff)
  with False z xr go show thesis by blast
qed

lemma a_dispatch_mid:
  assumes inv: "mid_inv True a" and d: "a_dispatch alg a = Inr b"
  shows "mid_inv True b"
  using d
proof (cases rule: a_dispatch_Inr)
  case idle
  with inv show ?thesis by simp
next
  case (go x rest q)
  let ?j = "pick alg a"
  let ?q = "start_burst alg q (procs a ! ?j)"
  have st: "structured a" and ar: "arrival_ok True a" using inv by (simp_all add: mid_inv_def)
  note D = structuredD [OF st]
  have jr: "?j \<in> set (ready a)" using go by (simp add: pick_in)
  then have j: "?j < length (procs a)" by (rule D(2))
  have c: "condition (procs a ! ?j) = 1" using D(6) [OF j] jr by simp
  have nb: "?j \<notin> set (blocked a)" using D(7) [OF j] c by simp
  have P: "procs b = (procs a)[?j := ?q]" using go by (simp add: upd_proc_def)
  have others: "budget True p" "accounted (clock a) p" if "p \<in> set (procs a)" for p
    using inv that by (simp_all add: mid_inv_def)
  have less: "unat (CPUTime (procs a ! ?j)) < unat (total_C (procs a ! ?j))"
    using others(1) [OF nth_mem [OF j]] c by (simp add: budget_def)
  have "structured b"
    by (rule structured_move [OF st j P])
       (use go nb D(5) [OF j] D(10,11) c jr in \<open>auto simp: upd_proc_def\<close>)
  moreover have "budget True ?q" "accounted (clock a) ?q"
    using others [OF nth_mem [OF j]] c new_burst_bounds [OF go(4) less]
    by (auto simp: budget_def accounted_def)
  then have "\<forall>q \<in> set (procs b). budget True q" "\<forall>q \<in> set (procs b). accounted (clock a) q"
    using others all_set_update [of "procs a" "budget True"] all_set_update [of "procs a" "accounted (clock a)"]
    by (simp_all add: P)
  moreover have "arrival_ok True b"
    by (rule arrival_move [OF ar j P]) (simp_all add: c go upd_proc_def)
  ultimately show ?thesis using go by (simp add: mid_inv_def upd_proc_def)
qed

section \<open>The timers\<close>

lemma tick_process_sel [simp]:
  "condition (tick_process alg q) = condition q" "processID (tick_process alg q) = processID q"
  "arr_A (tick_process alg q) = arr_A q" "total_C (tick_process alg q) = total_C q"
  "finishingTime (tick_process alg q) = finishingTime q"
  by (simp_all add: tick_process_def)

lemma tick_budget:
  assumes "budget True q"
  shows "budget False (tick_process alg q)"
proof (cases "condition q = 2")
  case True
  then have "unat (CPUTime q) + unat (CPUBurst q) \<le> unat (total_C q)" "CPUBurst q \<noteq> 0"
    using assms by (simp_all add: budget_def)
  moreover from this have "unat (CPUBurst q - 1) = unat (CPUBurst q) - 1" "0 < unat (CPUBurst q)"
    by (simp_all add: unat_minus_one word_eq_0_unat)
  moreover have "unat (CPUTime q + 1) = unat (CPUTime q) + 1"
    using calculation unat_u32_bound [of "total_C q"] by (intro unat_Suc_u32) simp
  ultimately show ?thesis using assms True by (simp add: budget_def tick_process_def)
next
  case False
  with assms show ?thesis by (auto simp: budget_def tick_process_def)
qed

lemma tick_accounted:
  assumes "accounted t q"
  shows "accounted (t + 1) (tick_process alg q)"
proof -
  have shift: "c + 1 + b + w = (c + b + w) + 1" "c + (b + 1) + w = (c + b + w) + 1"
    "c + b + (w + 1) = (c + b + w) + 1" "t + 1 - d = (t - d) + 1" for b c d w :: u32
    by simp_all
  show ?thesis using assms by (auto simp: accounted_def tick_process_def shift)
qed

lemma tick_arrival:
  assumes ar: "arrival_ok True a" and len: "length (procs a) < 2 ^ 32"
  shows "arrival_ok False (a_tick alg a)"
proof -
  have "length (filter (\<lambda>q. condition q \<noteq> 0) (map (tick_process alg) (procs a))) =
      length (filter (\<lambda>q. condition q \<noteq> 0) (procs a))"
    by (simp add: filter_map comp_def)
  moreover have "(\<forall>q \<in> set (procs a). condition q \<noteq> 0) \<or>
      (\<forall>q \<in> set (procs a). condition q = 0 \<longleftrightarrow> clock a + 1 \<le> arr_A q)"
  proof (cases "\<forall>q \<in> set (procs a). condition q \<noteq> 0")
    case False
    then have c: "\<forall>q \<in> set (procs a). condition q = 0 \<longleftrightarrow> clock a < arr_A q"
      using ar unfolding arrival_ok_def by auto
    from False obtain q where "q \<in> set (procs a)" "condition q = 0" by blast
    with c have "clock a < arr_A q" by blast
    then have "clock a < r \<longleftrightarrow> clock a + 1 \<le> r" for r by (rule u32_less_Suc_le)
    with c show ?thesis by simp
  qed simp
  ultimately show ?thesis using ar by (simp add: arrival_ok_def a_tick_def)
qed

lemma a_tick_inv:
  assumes inv: "mid_inv True a"
  shows "spec_inv (a_tick alg a)"
proof -
  have st: "structured a" using inv by (simp add: mid_inv_def)
  have "structured (a_tick alg a)"
    using st unfolding structured_def placed_def Let_def
    by (simp add: a_tick_def filter_map comp_def) auto
  moreover have "\<forall>q \<in> set (procs (a_tick alg a)). budget False q"
    using inv by (auto simp: a_tick_def mid_inv_def tick_budget)
  moreover have "\<forall>q \<in> set (procs (a_tick alg a)). accounted (clock (a_tick alg a)) q"
    using inv by (auto simp: a_tick_def mid_inv_def tick_accounted)
  moreover have "arrival_ok False (a_tick alg a)"
    using inv tick_arrival structuredD(1) [OF st] by (simp add: mid_inv_def)
  ultimately show ?thesis by (simp add: spec_inv_def)
qed

section \<open>The cycle\<close>

definition a_admit :: "aspec \<Rightarrow> aspec" where
  "a_admit a = (if arrived a = of_nat (length (procs a)) then a else a_arrive a)"

lemma a_cycle_eq:
  "a_cycle alg a = bindE (a_dispatch alg (a_admit (a_unblock (a_forward alg a)))) (\<lambda>a. Inr (a_tick alg a))"
  by (simp add: a_cycle_def a_admit_def Let_def)

lemma a_admit_mid: "mid_inv False a \<Longrightarrow> mid_inv True (a_admit a)"
  by (simp add: a_admit_def a_arrive_mid all_arrived_mid)

lemma before_dispatch_mid: "spec_inv a \<Longrightarrow> mid_inv True (a_admit (a_unblock (a_forward alg a)))"
  by (intro a_admit_mid a_unblock_mid a_forward_mid)

theorem a_cycle_inv: "spec_inv a \<Longrightarrow> a_cycle alg a = Inr b \<Longrightarrow> spec_inv b"
  by (auto simp: a_cycle_eq bindE_eq_Inr_iff
      intro: a_tick_inv a_dispatch_mid [OF before_dispatch_mid])

end
