(* ===== verification/Sched_Refine.thy ===== *)
theory Sched_Refine
  imports Sched_Inv
begin

text \<open>
  lab3/scheduler.c implements the abstract scheduler: each phase of a cycle, run on
  pointers and link fields, ends without a fault in a state that represents the result of
  the phase's abstract counterpart. The lemmas up to the section on dispatching hold for
  every discipline.
\<close>

section \<open>Steps on a represented state\<close>

lemma refines_length: "refines s a \<Longrightarrow> length (procs a) = length (Prime s)"
  by (simp add: refines_def)

lemma refines_nth: "refines s a \<Longrightarrow> i < length (Prime s) \<Longrightarrow> procs a ! i = erase (Prime s ! i)"
  by (simp add: refines_def)

lemma refines_store:
  assumes "refines s a" and "j < length (Prime s)" and "erase (f (Prime s ! j)) = g (erase (Prime s ! j))"
    and "freshPrime (f (Prime s ! j)) = freshPrime (Prime s ! j)"
    and "pushBlock (f (Prime s ! j)) = pushBlock (Prime s ! j)"
  shows "store (Some j) f s = Inr (s\<lparr>Prime := (Prime s)[j := f (Prime s ! j)]\<rparr>) \<and>
         refines (s\<lparr>Prime := (Prime s)[j := f (Prime s ! j)]\<rparr>) (upd_proc j g a)"
  using assms
  by (simp add: refines_def upd_proc_def ready_rep_def block_rep_def map_update map_update_nth)

lemma Qsetup_refines:
  assumes r: "refines s a" and c: "c < length (Prime s)" "c \<notin> set (ready a)"
    and len: "length (Prime s) < 2 ^ 32"
  shows "\<exists>t. Qsetup (Some c) s = Inr t \<and> refines t (a\<lparr>ready := ready a @ [c]\<rparr>)"
proof -
  from r have "ready_rep s (ready a)" by (simp add: refines_def)
  from Qsetup_ready [OF this c len] obtain P f where
    q: "Qsetup (Some c) s = Inr (s\<lparr>Prime := P, Afront := f, Aback := Some c, placement := placement s + 1\<rparr>)"
    and P: "only_fresh (Prime s) P"
    and l: "lrep (map freshPrime P) f (Some c) (placement s + 1) (ready a @ [c])" by blast
  have "length P = length (Prime s)" using P by (rule only_fresh_length)
  with r P l have "refines (s\<lparr>Prime := P, Afront := f, Aback := Some c, placement := placement s + 1\<rparr>)
      (a\<lparr>ready := ready a @ [c]\<rparr>)"
    by (simp add: refines_def only_fresh_def ready_rep_def block_rep_def)
  with q show ?thesis by blast
qed

lemma dsetup_refines:
  assumes r: "refines s a" and x: "ready a = x # xs"
  shows "\<exists>t. dsetup s = Inr (Some x, t) \<and> refines t (a\<lparr>ready := xs\<rparr>)"
proof -
  from r x have "ready_rep s (x # xs)" by (simp add: refines_def)
  from dsetup_ready [OF this] obtain P f b where
    q: "dsetup s = Inr (Some x, s\<lparr>Prime := P, Afront := f, Aback := b, placement := placement s - 1\<rparr>)"
    and P: "only_fresh (Prime s) P"
    and l: "lrep (map freshPrime P) f b (placement s - 1) xs" by blast
  have "length P = length (Prime s)" using P by (rule only_fresh_length)
  with r P l have "refines (s\<lparr>Prime := P, Afront := f, Aback := b, placement := placement s - 1\<rparr>)
      (a\<lparr>ready := xs\<rparr>)"
    by (simp add: refines_def only_fresh_def ready_rep_def block_rep_def)
  with q show ?thesis by blast
qed

lemma insertB_refines:
  assumes r: "refines s a" and c: "c < length (Prime s)" "c \<notin> set (blocked a)"
    and len: "length (Prime s) < 2 ^ 32"
  shows "\<exists>t. insertB (Some c) s = Inr t \<and> refines t (a\<lparr>blocked := blocked a @ [c]\<rparr>)"
proof -
  from r have "block_rep s (blocked a)" by (simp add: refines_def)
  from insertB_block [OF this c len] obtain P f where
    q: "insertB (Some c) s = Inr (s\<lparr>Prime := P, Blockfront := f, Blockback := Some c, BlockQ := BlockQ s + 1\<rparr>)"
    and P: "only_block (Prime s) P"
    and l: "lrep (map pushBlock P) f (Some c) (BlockQ s + 1) (blocked a @ [c])" by blast
  have "length P = length (Prime s)" using P by (rule only_block_length)
  with r P l have "refines (s\<lparr>Prime := P, Blockfront := f, Blockback := Some c, BlockQ := BlockQ s + 1\<rparr>)
      (a\<lparr>blocked := blocked a @ [c]\<rparr>)"
    by (simp add: refines_def only_block_def ready_rep_def block_rep_def)
  with q show ?thesis by blast
qed

lemma removeB_refines:
  assumes r: "refines s a" and x: "blocked a = x # xs"
  shows "\<exists>t. removeB s = Inr (Some x, t) \<and> refines t (a\<lparr>blocked := xs\<rparr>)"
proof -
  from r x have "block_rep s (x # xs)" by (simp add: refines_def)
  from removeB_block [OF this] obtain P f b where
    q: "removeB s = Inr (Some x, s\<lparr>Prime := P, Blockfront := f, Blockback := b, BlockQ := BlockQ s - 1\<rparr>)"
    and P: "only_block (Prime s) P"
    and l: "lrep (map pushBlock P) f b (BlockQ s - 1) xs" by blast
  have "length P = length (Prime s)" using P by (rule only_block_length)
  with r P l have "refines (s\<lparr>Prime := P, Blockfront := f, Blockback := b, BlockQ := BlockQ s - 1\<rparr>)
      (a\<lparr>blocked := xs\<rparr>)"
    by (simp add: refines_def only_block_def ready_rep_def block_rep_def)
  with q show ?thesis by blast
qed

lemma refines_emit [simp]: "refines (emit t s) a = refines s a"
  by (simp add: refines_def emit_def ready_rep_def block_rep_def)

lemma refines_selection: "refines s a \<Longrightarrow> refines (s\<lparr>selection := p\<rparr>) (a\<lparr>running := p\<rparr>)"
  by (simp add: refines_def ready_rep_def block_rep_def)

lemma refines_nameless [simp]: "refines (s\<lparr>namelessOp := p\<rparr>) a = refines s a"
  by (simp add: refines_def ready_rep_def block_rep_def)

lemma refines_firstPrime [simp]: "refines (s\<lparr>firstPrime := b\<rparr>) a = refines s a"
  by (simp add: refines_def ready_rep_def block_rep_def)

section \<open>The running process\<close>

lemma erase_updates:
  "erase (q\<lparr>condition := c\<rparr>) = (erase q)\<lparr>condition := c\<rparr>"
  "erase (q\<lparr>condition := c, finishingTime := t\<rparr>) = (erase q)\<lparr>condition := c, finishingTime := t\<rparr>"
  "erase (settle q) = settle (erase q)"
  by (simp_all add: erase_def settle_def)

lemma settle_links [simp]: "freshPrime (settle q) = freshPrime q" "pushBlock (settle q) = pushBlock q"
  by (simp_all add: settle_def)

lemma length_filter_less_nth:
  "i < length xs \<Longrightarrow> \<not> P (xs ! i) \<Longrightarrow> length (filter P xs) < length xs"
  by (metis length_filter_less nth_mem)

lemma proceedForward_refines:
  assumes r: "refines s a" and st: "structured a"
  shows "\<exists>t. proceedForward alg s = Inr t \<and> refines t (a_forward alg a)"
proof (cases "running a")
  case None
  with r show ?thesis by (simp add: proceedForward_def a_forward_def refines_def)
next
  case (Some j)
  note D = structuredD [OF st]
  have sel: "selection s = Some j" using r Some by (simp add: refines_def)
  have j: "j < length (Prime s)" using D(4) Some refines_length [OF r] by simp
  have len: "length (Prime s) < 2 ^ 32" using D(1) refines_length [OF r] by simp
  have nq: "j \<notin> set (ready a)" "j \<notin> set (blocked a)"
    using D(6,7,8) [of j] j Some refines_length [OF r] by auto
  define s1 where "s1 = s\<lparr>Prime := (Prime s)[j := settle (Prime s ! j)]\<rparr>"
  define a1 where "a1 = upd_proc j settle a"
  have r1: "refines s1 a1"
    using refines_store [OF r j, of settle settle] by (simp add: s1_def a1_def erase_updates)
  have s1: "selection s1 = Some j" "length (Prime s1) = length (Prime s)" "j < length (Prime s1)"
    using sel j by (simp_all add: s1_def)
  have a1: "ready a1 = ready a" "blocked a1 = blocked a" "finished a1 = finished a"
    by (simp_all add: a1_def upd_proc_def)
  have q: "procs a1 ! j = erase (Prime s1 ! j)" using refines_nth [OF r1] s1 by simp
  have step1: "proceedForward alg s =
      bindE (load (Some j) s1) (\<lambda>jb.
        if total_C jb = CPUTime jb then
          bindE (store (Some j) (\<lambda>q. q\<lparr>condition := 4, finishingTime := present s1\<rparr>) s1) (\<lambda>s.
          bindE (load (selection s) s) (\<lambda>jb.
          if unat (completion s) < length (terminateAlg s)
          then let s = s\<lparr>terminateAlg := (terminateAlg s)[unat (completion s) := Some jb],
                         completion := completion s + 1\<rparr>;
                   s = (if alg = 2 then s\<lparr>namelessOp := None\<rparr> else s)
               in Inr (s\<lparr>selection := None\<rparr>)
          else Inl OutOfBounds))
        else if CPUBurst jb \<le> 0 then
          bindE (store (Some j) (\<lambda>q. q\<lparr>condition := 3\<rparr>) s1) (\<lambda>s.
          bindE (insertB (selection s) s) (\<lambda>s. Inr (s\<lparr>selection := None\<rparr>)))
        else if alg = 1 \<and> sint (quantum jb) \<le> 0 then
          bindE (store (Some j) (\<lambda>q. q\<lparr>condition := 1\<rparr>) s1) (\<lambda>s.
          bindE (Qsetup (selection s) s) (\<lambda>s. Inr (s\<lparr>selection := None\<rparr>)))
        else store (Some j) (\<lambda>q. q\<lparr>condition := 2\<rparr>) s1)"
  proof -
    have "(if operating (Prime s ! j)
           then store (selection s) (\<lambda>q. q\<lparr>operating := False, BurstTime := 1 + mult_M q * CPUBurst q\<rparr>) s
           else Inr s) = Inr s1"
      using sel j by (simp add: s1_def settle_def)
    with sel j s1 show ?thesis by (simp add: proceedForward_def)
  qed
  show ?thesis
  proof (cases "total_C (Prime s1 ! j) = CPUTime (Prime s1 ! j)")
    case True
    let ?f = "\<lambda>q. q\<lparr>condition := 4, finishingTime := present s1\<rparr>"
    define s2 where "s2 = s1\<lparr>Prime := (Prime s1)[j := ?f (Prime s1 ! j)]\<rparr>"
    define a2 where "a2 = upd_proc j ?f a1"
    have st2: "store (Some j) ?f s1 = Inr s2" and r2: "refines s2 a2"
      using refines_store [OF r1 s1(3), of ?f ?f] by (simp_all add: s2_def a2_def erase_updates)
    have "length (finished a) < length (procs a)"
      using D(12) D(8) [of j] Some j refines_length [OF r]
        length_filter_less_nth [of j "procs a" "\<lambda>q. condition q = 4"] by simp
    then have fin: "length (finished a2) < length (terminateAlg s2)"
      "unat (completion s2) = length (finished a2)" "length (terminateAlg s2) < 2 ^ 32"
      using r2 refines_length [OF r] len
      by (simp_all add: refines_def a2_def upd_proc_def a1 s2_def s1_def)
    let ?s3 = "s2\<lparr>terminateAlg := (terminateAlg s2)[unat (completion s2) := Some (Prime s2 ! j)],
                  completion := completion s2 + 1\<rparr>"
    have pj: "j < length (Prime s2)" "procs a2 ! j = erase (Prime s2 ! j)"
      using s1 refines_nth [OF r2] by (simp_all add: s2_def)
    have r3: "refines ?s3 (a2\<lparr>finished := finished a2 @ [procs a2 ! j]\<rparr>)"
      using r2 fin pj
      by (simp add: refines_def ready_rep_def block_rep_def unat_Suc_u32 take_Suc_conv_app_nth)
    have "proceedForward alg s =
        Inr ((if alg = 2 then ?s3\<lparr>namelessOp := None\<rparr> else ?s3)\<lparr>selection := None\<rparr>)"
      using step1 s1 True st2 fin pj sel by (simp add: s2_def)
    moreover have "a_forward alg a =
        a2\<lparr>finished := finished a2 @ [procs a2 ! j], running := None\<rparr>"
      using True q Some r1
      by (simp add: a_forward_def a1_def [symmetric] a2_def refines_def Let_def)
    moreover have "refines ((if alg = 2 then ?s3\<lparr>namelessOp := None\<rparr> else ?s3)\<lparr>selection := None\<rparr>)
        (a2\<lparr>finished := finished a2 @ [procs a2 ! j], running := None\<rparr>)"
      using refines_selection [OF r3, of None] r3
      by (simp add: refines_def ready_rep_def block_rep_def)
    ultimately show ?thesis by auto
  next
    case False
    note C = False
    have fwd: "a_forward alg a =
       (if CPUBurst (procs a1 ! j) = 0 then
          (upd_proc j (condition_update (\<lambda>_. 3)) a1)\<lparr>blocked := blocked a1 @ [j], running := None\<rparr>
        else if alg = 1 \<and> sint (quantum (procs a1 ! j)) \<le> 0 then
          (upd_proc j (condition_update (\<lambda>_. 1)) a1)\<lparr>ready := ready a1 @ [j], running := None\<rparr>
        else upd_proc j (condition_update (\<lambda>_. 2)) a1)"
      using Some C q by (simp add: a_forward_def a1_def [symmetric])
    have cs: "\<exists>t. store (Some j) (condition_update (\<lambda>_. c)) s1 = Inr t \<and>
        refines t (upd_proc j (condition_update (\<lambda>_. c)) a1) \<and> selection t = Some j \<and>
        length (Prime t) = length (Prime s)" for c
      using refines_store [OF r1 s1(3), of "condition_update (\<lambda>_. c)" "condition_update (\<lambda>_. c)"] s1
      by (simp add: erase_updates)
    have up: "ready (upd_proc j g a1) = ready a" "blocked (upd_proc j g a1) = blocked a" for g
      by (simp_all add: upd_proc_def a1)
    consider (b) "CPUBurst (Prime s1 ! j) = 0"
      | (q) "CPUBurst (Prime s1 ! j) \<noteq> 0" "alg = 1 \<and> sint (quantum (Prime s1 ! j)) \<le> 0"
      | (r) "CPUBurst (Prime s1 ! j) \<noteq> 0" "\<not> (alg = 1 \<and> sint (quantum (Prime s1 ! j)) \<le> 0)"
      by blast
    then show ?thesis
    proof cases
      case b
      obtain t where t: "store (Some j) (condition_update (\<lambda>_. 3)) s1 = Inr t"
        "refines t (upd_proc j (condition_update (\<lambda>_. 3)) a1)" "selection t = Some j"
        "length (Prime t) = length (Prime s)" using cs [of 3] by blast
      obtain u where u: "insertB (Some j) t = Inr u"
        "refines u ((upd_proc j (condition_update (\<lambda>_. 3)) a1)\<lparr>blocked := blocked a1 @ [j]\<rparr>)"
        using insertB_refines [OF t(2), of j] t(4) j nq len up a1 by auto
      show ?thesis
        using step1 s1 C b t u fwd q refines_selection [OF u(2), of None] by simp
    next
      case q
      obtain t where t: "store (Some j) (condition_update (\<lambda>_. 1)) s1 = Inr t"
        "refines t (upd_proc j (condition_update (\<lambda>_. 1)) a1)" "selection t = Some j"
        "length (Prime t) = length (Prime s)" using cs [of 1] by blast
      obtain u where u: "Qsetup (Some j) t = Inr u"
        "refines u ((upd_proc j (condition_update (\<lambda>_. 1)) a1)\<lparr>ready := ready a1 @ [j]\<rparr>)"
        using Qsetup_refines [OF t(2), of j] t(4) j nq len up a1 by auto
      show ?thesis
        using step1 s1 C q t u fwd \<open>procs a1 ! j = erase (Prime s1 ! j)\<close>
          refines_selection [OF u(2), of None] by simp
    next
      case r
      then show ?thesis using step1 s1 C fwd \<open>procs a1 ! j = erase (Prime s1 ! j)\<close> cs [of 2] by auto
    qed
  qed
qed

section \<open>Unlinking a cell inside a list\<close>

lemma lrep_chain: "lrep (map nx P) hp tp n xs \<Longrightarrow> chain (\<lambda>i. nx (P ! i)) hp xs"
proof -
  assume l: "lrep (map nx P) hp tp n xs"
  then have "chain (\<lambda>i. map nx P ! i) hp xs" "\<forall>i \<in> set xs. i < length P" by (auto simp: lrep_def)
  then show ?thesis using chain_cong [of xs "\<lambda>i. nx (P ! i)" "\<lambda>i. map nx P ! i" hp] by simp
qed

lemma before_last_chain:
  assumes "chain (\<lambda>i. nx (Prime s ! i)) hp (xs @ [p, c])"
    and "\<forall>i \<in> set (xs @ [p, c]). i < length (Prime s)" and "length xs < k"
  shows "before_last nx k hp s = Inr (Some p)"
  using assms
proof (induction xs arbitrary: hp k)
  case Nil
  then show ?case by (cases k) auto
next
  case (Cons x xs)
  then obtain k' where k: "k = Suc k'" by (cases k) auto
  obtain y ys where y: "xs @ [p, c] = y # ys" "ys \<noteq> []" by (cases xs) auto
  with Cons.prems have h: "hp = Some x" "x < length (Prime s)" "nx (Prime s ! x) = Some y"
    "y < length (Prime s)" "nx (Prime s ! y) \<noteq> None" by (auto simp: neq_Nil_conv)
  have "before_last nx k' (nx (Prime s ! x)) s = Inr (Some p)"
    using Cons.prems k by (intro Cons.IH) auto
  with h k show ?case by auto
qed

lemma before_id_chain:
  assumes "chain (\<lambda>i. nx (Prime s ! i)) hp (xs @ [p, c] @ ys)"
    and "\<forall>i \<in> set (xs @ [p, c] @ ys). i < length (Prime s)"
    and "\<forall>i \<in> set (xs @ [p]). processID (Prime s ! i) \<noteq> idn"
    and "processID (Prime s ! c) = idn" and "length xs < k"
  shows "before_id nx k idn hp s = Inr (Some p)"
  using assms
proof (induction xs arbitrary: hp k)
  case Nil
  then show ?case by (cases k) auto
next
  case (Cons x xs)
  then obtain k' where k: "k = Suc k'" by (cases k) auto
  obtain y zs where y: "xs @ [p, c] @ ys = y # zs" "y \<in> set (xs @ [p])" by (cases xs) auto
  with Cons.prems have h: "hp = Some x" "x < length (Prime s)" "nx (Prime s ! x) = Some y"
    "y < length (Prime s)" "processID (Prime s ! y) \<noteq> idn" by auto
  have "before_id nx k' idn (nx (Prime s ! x)) s = Inr (Some p)"
    using Cons.prems k by (intro Cons.IH) auto
  with h k show ?case by auto
qed

lemma unlink_block_refines:
  assumes r: "refines s a" and b: "blocked a = xs @ [p, c] @ ys"
  defines "P \<equiv> (Prime s)[p := (Prime s ! p)\<lparr>pushBlock := pushBlock (Prime s ! c)\<rparr>]"
  shows "refines (s\<lparr>Prime := P[c := (P ! c)\<lparr>pushBlock := None\<rparr>],
                   Blockback := if ys = [] then Some p else Blockback s, BlockQ := BlockQ s - 1\<rparr>)
           (a\<lparr>blocked := xs @ [p] @ ys\<rparr>)"
proof -
  let ?Q = "P[c := (P ! c)\<lparr>pushBlock := None\<rparr>]"
  have l: "lrep (map pushBlock (Prime s)) (Blockfront s) (Blockback s) (BlockQ s) (xs @ [p, c] @ ys)"
    using r b by (simp add: refines_def block_rep_def)
  have pc: "p < length (Prime s)" "c < length (Prime s)" using l by (auto simp: lrep_def)
  have "map pushBlock ?Q = (map pushBlock (Prime s))[p := map pushBlock (Prime s) ! c, c := None]"
    using pc by (simp add: P_def map_update)
  moreover have "only_block (Prime s) ?Q"
    using pc unfolding P_def by (intro only_block_update) simp_all
  ultimately show ?thesis using r lrep_remove [OF l]
    by (simp add: refines_def ready_rep_def block_rep_def only_block_def P_def)
qed

lemma unlink_ready_refines:
  assumes r: "refines s a" and b: "ready a = xs @ [p, c] @ ys"
  defines "P \<equiv> (Prime s)[p := (Prime s ! p)\<lparr>freshPrime := freshPrime (Prime s ! c)\<rparr>]"
  shows "refines (s\<lparr>Prime := P[c := (P ! c)\<lparr>freshPrime := None\<rparr>],
                   Aback := if ys = [] then Some p else Aback s, placement := placement s - 1\<rparr>)
           (a\<lparr>ready := xs @ [p] @ ys\<rparr>)"
proof -
  let ?Q = "P[c := (P ! c)\<lparr>freshPrime := None\<rparr>]"
  have l: "lrep (map freshPrime (Prime s)) (Afront s) (Aback s) (placement s) (xs @ [p, c] @ ys)"
    using r b by (simp add: refines_def ready_rep_def)
  have pc: "p < length (Prime s)" "c < length (Prime s)" using l by (auto simp: lrep_def)
  have "map freshPrime ?Q = (map freshPrime (Prime s))[p := map freshPrime (Prime s) ! c, c := None]"
    using pc by (simp add: P_def map_update)
  moreover have "only_fresh (Prime s) ?Q"
    using pc unfolding P_def by (intro only_fresh_update) simp_all
  ultimately show ?thesis using r lrep_remove [OF l]
    by (simp add: refines_def ready_rep_def block_rep_def only_fresh_def P_def)
qed

section \<open>Blocked processes\<close>

definition a_wake :: "nat \<Rightarrow> aspec \<Rightarrow> aspec" where
  "a_wake i a = (upd_proc i (condition_update (\<lambda>_. 1)) a)
     \<lparr>blocked := remove1 i (blocked a), ready := ready a @ [i]\<rparr>"

text \<open>The position of a cell in a list: in front, at the end, or inside.\<close>

lemma position_cases [consumes 2, case_names first final inner]:
  assumes "i \<in> set xs" and "distinct xs"
  obtains ys where "xs = i # ys"
    | ys p where "xs = ys @ [p, i]"
    | ys p z zs where "xs = ys @ [p, i] @ z # zs"
proof -
  from assms(1) obtain us vs where "xs = us @ i # vs" by (auto simp: in_set_conv_decomp)
  with that show thesis
    by (cases us rule: rev_cases; cases vs) auto
qed

text \<open>The walks of the code find the cell in front of the one to unlink.\<close>

definition ids_ok :: "sched \<Rightarrow> bool" where
  "ids_ok s \<longleftrightarrow> length (Prime s) < 2 ^ 32 \<and>
     (\<forall>i < length (Prime s). processID (Prime s ! i) = of_nat i)"

lemma ids_ok_refines: "refines s a \<Longrightarrow> structured a \<Longrightarrow> ids_ok s"
  by (auto simp: ids_ok_def refines_def structured_def)

lemma ids_ok_eq:
  "ids_ok s \<Longrightarrow> x < length (Prime s) \<Longrightarrow> y < length (Prime s) \<Longrightarrow>
     processID (Prime s ! x) = processID (Prime s ! y) \<longleftrightarrow> x = y"
  by (simp add: ids_ok_def of_nat_u32_inject)

lemma ids_ok_store:
  "ids_ok s \<Longrightarrow> (\<And>q. processID (f q) = processID q) \<Longrightarrow> store p f s = Inr t \<Longrightarrow> ids_ok t"
  by (auto simp: ids_ok_def store_eq_Inr_iff nth_list_update)

lemma walk_last:
  assumes "lrep (map nx (Prime s)) hp tp n (ys @ [p, i])"
  shows "before_last nx (Suc (length (Prime s))) hp s = Inr (Some p)"
  using lrep_chain [OF assms] lrep_length [OF assms] assms
  by (intro before_last_chain [where c = i]) (auto simp: lrep_def)

lemma walk_id:
  assumes l: "lrep (map nx (Prime s)) hp tp n (ys @ [p, i] @ zs)" and "ids_ok s"
  shows "before_id nx (Suc (length (Prime s))) (processID (Prime s ! i)) hp s = Inr (Some p)"
proof -
  have m: "\<forall>x \<in> set (ys @ [p, i] @ zs). x < length (Prime s)" using l by (auto simp: lrep_def)
  have "\<forall>x \<in> set (ys @ [p]). processID (Prime s ! x) \<noteq> processID (Prime s ! i)"
    using m lrep_distinct [OF l] by (auto simp: ids_ok_eq [OF assms(2)])
  then show ?thesis
    using lrep_chain [OF l] lrep_length [OF l] m
    by (intro before_id_chain [where c = i and ys = zs]) auto
qed

lemma lrep_hd_in: "lrep nx hp tp n (ys @ p # zs) \<Longrightarrow> \<exists>h. hp = Some h \<and> h \<in> set (ys @ [p])"
  by (cases ys) (auto dest!: lrep_head)

lemma lrep_last_in: "lrep nx hp tp n (ys @ z # zs) \<Longrightarrow> \<exists>w. tp = Some w \<and> w \<in> set (z # zs)"
  by (auto simp: lrep_def lastp_def)

lemma take_blocked_refines:
  assumes r: "refines s a" and ids: "ids_ok s" and i: "i \<in> set (blocked a)"
  shows "\<exists>t. take_blocked (Some i) s = Inr (Some i, t) \<and>
             refines t (a\<lparr>blocked := remove1 i (blocked a)\<rparr>)"
proof -
  have l: "lrep (map pushBlock (Prime s)) (Blockfront s) (Blockback s) (BlockQ s) (blocked a)"
    using r by (simp add: refines_def block_rep_def)
  have m: "x < length (Prime s)" if "x \<in> set (blocked a)" for x using l that by (auto simp: lrep_def)
  have d: "distinct (blocked a)" using l by (rule lrep_distinct)
  note idc = ids_ok_eq [OF ids]
  show ?thesis
    using i d
  proof (cases rule: position_cases)
    case (first ys)
    then have "Blockfront s = Some i" using l by (auto dest: lrep_head)
    then show ?thesis using removeB_refines [OF r first] m [OF i] first
      by (auto simp: take_blocked_def)
  next
    case (final ys p)
    obtain h where h: "Blockfront s = Some h" "h \<in> set (ys @ [p])"
      using lrep_hd_in [OF l [unfolded final]] by auto
    have b: "Blockback s = Some i" using l final by (simp add: lrep_def lastp_def)
    have hh: "h < length (Prime s)" "h \<noteq> i" "p < length (Prime s)" "p \<noteq> i" "i < length (Prime s)"
      using h m d final by auto
    have "pushBlock (Prime s ! i) = None" "pushBlock (Prime s ! p) = Some i"
      using lrep_last_next [of "map pushBlock (Prime s)" _ _ _ "ys @ [p]" i]
        lrep_next [of "map pushBlock (Prime s)" _ _ _ ys p i "[]"] l final hh by auto
    then show ?thesis
      using unlink_block_refines [OF r, of ys p i "[]"] walk_last [OF l [unfolded final]] final d
        h b hh idc [of i h]
      by (simp add: take_blocked_def remove1_append refines_def ready_rep_def block_rep_def)
  next
    case (inner ys p z zs)
    obtain h where h: "Blockfront s = Some h" "h \<in> set (ys @ [p])"
      using lrep_hd_in [OF l [unfolded inner append.simps]] by auto
    obtain w where w: "Blockback s = Some w" "w \<in> set (z # zs)"
      using lrep_last_in [OF l [unfolded inner append_assoc [symmetric]]] by auto
    have hh: "h < length (Prime s)" "h \<noteq> i" "w < length (Prime s)" "w \<noteq> i"
      "p < length (Prime s)" "p \<noteq> i" "i < length (Prime s)"
      using h w m d inner by auto
    have "pushBlock (Prime s ! p) = Some i"
      using lrep_next [of "map pushBlock (Prime s)" _ _ _ ys p i "z # zs"] l inner hh by auto
    then show ?thesis
      using unlink_block_refines [OF r, of ys p i "z # zs"] walk_id [OF l [unfolded inner] ids]
        inner d h w hh idc [of i h] idc [of i w]
      by (simp add: take_blocked_def remove1_append refines_def ready_rep_def block_rep_def)
  qed
qed

lemma unlink_ready_cell_refines:
  assumes r: "refines s a" and ids: "ids_ok s" and i: "i \<in> set (ready a)"
  shows "\<exists>t. unlink_ready (Some i) s = Inr (Some i, t) \<and>
             refines t (a\<lparr>ready := remove1 i (ready a)\<rparr>)"
proof -
  have l: "lrep (map freshPrime (Prime s)) (Afront s) (Aback s) (placement s) (ready a)"
    using r by (simp add: refines_def ready_rep_def)
  have m: "x < length (Prime s)" if "x \<in> set (ready a)" for x using l that by (auto simp: lrep_def)
  have d: "distinct (ready a)" using l by (rule lrep_distinct)
  note idc = ids_ok_eq [OF ids]
  show ?thesis
    using i d
  proof (cases rule: position_cases)
    case (first ys)
    then have "Afront s = Some i" using l by (auto dest: lrep_head)
    then show ?thesis using dsetup_refines [OF r first] m [OF i] first
      by (auto simp: unlink_ready_def)
  next
    case (final ys p)
    obtain h where h: "Afront s = Some h" "h \<in> set (ys @ [p])"
      using lrep_hd_in [OF l [unfolded final]] by auto
    have b: "Aback s = Some i" using l final by (simp add: lrep_def lastp_def)
    have hh: "h < length (Prime s)" "h \<noteq> i" "p < length (Prime s)" "p \<noteq> i" "i < length (Prime s)"
      using h m d final by auto
    have "freshPrime (Prime s ! i) = None" "freshPrime (Prime s ! p) = Some i"
      using lrep_last_next [of "map freshPrime (Prime s)" _ _ _ "ys @ [p]" i]
        lrep_next [of "map freshPrime (Prime s)" _ _ _ ys p i "[]"] l final hh by auto
    then show ?thesis
      using unlink_ready_refines [OF r, of ys p i "[]"] walk_last [OF l [unfolded final]] final d
        h b hh idc [of h i]
      by (simp add: unlink_ready_def remove1_append refines_def ready_rep_def block_rep_def)
  next
    case (inner ys p z zs)
    obtain h where h: "Afront s = Some h" "h \<in> set (ys @ [p])"
      using lrep_hd_in [OF l [unfolded inner append.simps]] by auto
    obtain w where w: "Aback s = Some w" "w \<in> set (z # zs)"
      using lrep_last_in [OF l [unfolded inner append_assoc [symmetric]]] by auto
    have hh: "h < length (Prime s)" "h \<noteq> i" "w < length (Prime s)" "w \<noteq> i"
      "p < length (Prime s)" "p \<noteq> i" "i < length (Prime s)"
      using h w m d inner by auto
    have "freshPrime (Prime s ! p) = Some i"
      using lrep_next [of "map freshPrime (Prime s)" _ _ _ ys p i "z # zs"] l inner hh by auto
    then show ?thesis
      using unlink_ready_refines [OF r, of ys p i "z # zs"] walk_id [OF l [unfolded inner] ids]
        inner d h w hh idc [of h i] idc [of w i]
      by (simp add: unlink_ready_def remove1_append refines_def ready_rep_def block_rep_def)
  qed
qed

lemma unblock_refines:
  assumes r: "refines s a" and st: "structured a" and i: "i \<in> set (blocked a)"
  shows "\<exists>t. unblock (Some i) s = Inr t \<and> refines t (a_wake i a)"
proof -
  note D = structuredD [OF st]
  let ?f = "condition_update (\<lambda>_. 1) :: process \<Rightarrow> process"
  have il: "i < length (Prime s)" using D(3) [OF i] refines_length [OF r] by simp
  have nr: "i \<notin> set (ready a)" using D(6,7) [of i] i D(3) by auto
  obtain s1 where s1: "store (Some i) ?f s = Inr s1" "refines s1 (upd_proc i ?f a)"
    using refines_store [OF r il, of ?f ?f] by (auto simp: erase_updates)
  have "ids_ok s1" using ids_ok_store [OF ids_ok_refines [OF r st] _ s1(1)] by simp
  moreover have "i \<in> set (blocked (upd_proc i ?f a))" using i by (simp add: upd_proc_def)
  ultimately obtain t where t: "take_blocked (Some i) s1 = Inr (Some i, t)"
    "refines t ((upd_proc i ?f a)\<lparr>blocked := remove1 i (blocked a)\<rparr>)"
    using take_blocked_refines [OF s1(2)] by (auto simp: upd_proc_def)
  have lt: "length (Prime t) = length (Prime s)"
    using refines_length [OF t(2)] refines_length [OF r] by (simp add: upd_proc_def)
  have "\<exists>u. Qsetup (Some i) t = Inr u \<and> refines u (a_wake i a)"
    using Qsetup_refines [OF t(2), of i] nr il lt D(1) refines_length [OF r]
    by (simp add: a_wake_def upd_proc_def)
  then show ?thesis using s1 t by (simp add: unblock_def)
qed

lemma blocked_link_None:
  "refines s a \<Longrightarrow> i < length (Prime s) \<Longrightarrow> i \<notin> set (blocked a) \<Longrightarrow> pushBlock (Prime s ! i) = None"
  by (simp add: refines_def block_rep_def lrep_def)

lemma execxuteB_loop_refines:
  assumes r: "refines s a" and st: "structured a" and b: "blocked a = xs @ ys"
    and xs: "\<forall>x \<in> set xs. \<not> expired a x" and k: "length ys < k"
  shows "\<exists>t. execxuteB_loop k (case ys of [] \<Rightarrow> None | y # _ \<Rightarrow> Some y) s = Inr t \<and>
             refines t (a_unblock a)"
  using b xs k
proof (induction ys arbitrary: xs k)
  case Nil
  then have "List.find (expired a) (blocked a) = None" by (simp add: find_None_iff)
  with Nil r show ?case by (cases k) (simp_all add: a_unblock_def)
next
  case (Cons y ys)
  then obtain k' where k: "k = Suc k'" "length ys < k'" by (cases k) auto
  have y: "y < length (Prime s)" "y \<in> set (blocked a)"
    using structuredD(3) [OF st] Cons.prems refines_length [OF r] by auto
  have ex: "expired a y = (sint (BurstTime (Prime s ! y)) \<le> 0)"
    using refines_nth [OF r y(1)] by (simp add: expired_def)
  show ?case
  proof (cases "expired a y")
    case True
    then have "List.find (expired a) (blocked a) = Some y"
      using Cons.prems by (simp add: find_skip)
    then have w: "a_unblock a = a_wake y a" by (simp add: a_unblock_def a_wake_def)
    obtain t where t: "unblock (Some y) s = Inr t" "refines t (a_wake y a)"
      using unblock_refines [OF r st y(2)] by blast
    have yt: "y < length (Prime t)"
      using y refines_length [OF r] refines_length [OF t(2)] by (simp add: a_wake_def upd_proc_def)
    then have "pushBlock (Prime t ! y) = None"
      using blocked_link_None [OF t(2)] structuredD(11) [OF st] by (simp add: a_wake_def upd_proc_def)
    then show ?thesis using True ex y yt t k w by (cases k') simp_all
  next
    case False
    have "lrep (map pushBlock (Prime s)) (Blockfront s) (Blockback s) (BlockQ s) (xs @ y # ys)"
      using r Cons.prems by (simp add: refines_def block_rep_def)
    then have "pushBlock (Prime s ! y) = (case ys of [] \<Rightarrow> None | z # _ \<Rightarrow> Some z)"
      using lrep_last_next [of "map pushBlock (Prime s)" _ _ _ xs y]
        lrep_next [of "map pushBlock (Prime s)" _ _ _ xs y] y
      by (cases ys) auto
    moreover have "\<exists>t. execxuteB_loop k' (case ys of [] \<Rightarrow> None | z # _ \<Rightarrow> Some z) s = Inr t \<and>
        refines t (a_unblock a)"
      using Cons.prems False k by (intro Cons.IH [of "xs @ [y]"]) auto
    ultimately show ?thesis using False ex y k by simp
  qed
qed

lemma execxuteB_refines:
  assumes r: "refines s a" and st: "structured a"
  shows "\<exists>t. execxuteB s = Inr t \<and> refines t (a_unblock a)"
proof -
  have l: "lrep (map pushBlock (Prime s)) (Blockfront s) (Blockback s) (BlockQ s) (blocked a)"
    using r by (simp add: refines_def block_rep_def)
  show ?thesis
  proof (cases "blocked a")
    case Nil
    then show ?thesis using lrep_0_iff [OF l] r by (simp add: execxuteB_def a_unblock_def)
  next
    case (Cons y ys)
    then show ?thesis
      using execxuteB_loop_refines [OF r st, of "[]" "blocked a" "Suc (length (Prime s))"]
        lrep_0_iff [OF l] lrep_head [OF l] lrep_length [OF l]
      by (simp add: execxuteB_def)
  qed
qed

end
