(* ===== verification/Sched_Alone.thy ===== *)
theory Sched_Alone
  imports Sched_Refine
begin

text \<open>
  lab3/scheduler.c under discipline 2 (uniprogrammed) with a single process. Nothing is ever paused
  then, so the two loops that move processes to the paused queue do nothing. \<open>alone\<close> is what has to be
  kept for this by every phase of a cycle: which phases leave \<open>PauseQ\<close> and \<open>namelessOp\<close> alone.
\<close>

definition alone :: "sched \<Rightarrow> bool" where
  "alone s \<longleftrightarrow> length (Prime s) = 1 \<and> PauseQ s = 0 \<and> namelessOp s \<in> {None, Some 0}"

definition fine :: "u8 \<Rightarrow> sched \<Rightarrow> bool" where
  \<comment> \<open>the states in which a cycle of the discipline is one of the abstract scheduler\<close>
  "fine alg s \<longleftrightarrow> (alg = 2 \<longrightarrow> alone s)"

lemma fine_other [simp]: "alg \<noteq> 2 \<Longrightarrow> fine alg s"
  by (simp add: fine_def)

section \<open>What the phases leave\<close>

definition kept :: "sched \<Rightarrow> sched \<Rightarrow> bool" where
  "kept s t \<longleftrightarrow> length (Prime t) = length (Prime s) \<and> PauseQ t = PauseQ s \<and>
     namelessOp t \<in> {namelessOp s, None} \<union> Some ` {..<length (Prime s)}"

lemma kept_refl [simp, intro]: "kept s s"
  by (simp add: kept_def)

lemma kept_alone: "kept s t \<Longrightarrow> alone s \<Longrightarrow> alone t"
  by (auto simp: kept_def alone_def)

lemma kept_update [simp]:
  "length ps = length (Prime t) \<Longrightarrow> kept s (t\<lparr>Prime := ps\<rparr>) = kept s t" "kept s (t\<lparr>Afront := p\<rparr>) = kept s t"
  "kept s (t\<lparr>Aback := p\<rparr>) = kept s t" "kept s (t\<lparr>placement := n\<rparr>) = kept s t"
  "kept s (t\<lparr>Blockfront := p\<rparr>) = kept s t" "kept s (t\<lparr>Blockback := p\<rparr>) = kept s t"
  "kept s (t\<lparr>BlockQ := n\<rparr>) = kept s t" "kept s (t\<lparr>selection := p\<rparr>) = kept s t"
  "kept s (t\<lparr>randomFile := f\<rparr>) = kept s t" "kept s (t\<lparr>totalTimeNumber := n\<rparr>) = kept s t"
  "kept s (t\<lparr>present := n\<rparr>) = kept s t" "kept s (t\<lparr>totalPrime := n\<rparr>) = kept s t" "kept s (emit x t) = kept s t"
  "kept s (t\<lparr>terminateAlg := c\<rparr>) = kept s t" "kept s (t\<lparr>completion := n\<rparr>) = kept s t"
  "kept s (t\<lparr>firstPrime := b\<rparr>) = kept s t"
  by (simp_all add: kept_def emit_def)

lemma kept_nameless [simp]:
  "kept s t \<Longrightarrow> kept s (t\<lparr>namelessOp := None\<rparr>)"
  "kept s t \<Longrightarrow> i < length (Prime t) \<Longrightarrow> kept s (t\<lparr>namelessOp := Some i\<rparr>)"
  by (auto simp: kept_def)

text \<open>\<open>keeps get s m\<close>: if \<open>m\<close> gives a result, the state in it is like \<open>s\<close>. One rule for each kind of step.\<close>

definition keeps :: "('a \<Rightarrow> sched) \<Rightarrow> sched \<Rightarrow> fault + 'a \<Rightarrow> bool" where
  "keeps get s m \<longleftrightarrow> (\<forall>x. m = Inr x \<longrightarrow> kept s (get x))"

named_theorems keeps_rule

lemma keeps_Inl [keeps_rule]: "keeps get s (Inl e)"
  by (simp add: keeps_def)

lemma keeps_Inr [keeps_rule]: "kept s (get x) \<Longrightarrow> keeps get s (Inr x)"
  by (simp add: keeps_def)

lemma keeps_if [keeps_rule]:
  "(b \<Longrightarrow> keeps get s m) \<Longrightarrow> (\<not> b \<Longrightarrow> keeps get s n) \<Longrightarrow> keeps get s (if b then m else n)"
  by simp

lemma keeps_state [keeps_rule]:
  "keeps id s m \<Longrightarrow> (\<And>t. kept s t \<Longrightarrow> keeps get s (f t)) \<Longrightarrow> keeps get s (bindE m f)"
  by (auto simp: keeps_def bindE_eq_Inr_iff)

lemma keeps_pair [keeps_rule]:
  "keeps snd s m \<Longrightarrow> (\<And>x t. kept s t \<Longrightarrow> keeps get s (f x t)) \<Longrightarrow> keeps get s (bindE m (\<lambda>(x, t). f x t))"
  by (auto simp: keeps_def bindE_eq_Inr_iff)

lemma keeps_value: "(\<And>x. keeps get s (f x)) \<Longrightarrow> keeps get s (bindE m f)"
  by (auto simp: keeps_def bindE_eq_Inr_iff)

lemmas keeps_values [keeps_rule] = keeps_value [where 'a = process] keeps_value [where 'a = ptr]
  keeps_value [where 'a = u32] keeps_value [where 'a = string] keeps_value [where 'a = bool]

lemma keeps_store [keeps_rule]: "kept s u \<Longrightarrow> keeps id s (store p f u)"
  by (auto simp: keeps_def store_eq_Inr_iff)

lemma keeps_Qsetup [keeps_rule]: "kept s u \<Longrightarrow> keeps id s (Qsetup p u)"
  unfolding Qsetup_def by (auto intro!: keeps_rule)

lemma kept_if [simp]: "kept s (if b then t else u) = (if b then kept s t else kept s u)"
  by simp

lemma keeps_dsetup [keeps_rule]: "kept s u \<Longrightarrow> keeps snd s (dsetup u)"
  unfolding dsetup_def Let_def by (auto intro!: keeps_rule)

lemma keeps_insertB [keeps_rule]: "kept s u \<Longrightarrow> keeps id s (insertB p u)"
  unfolding insertB_def by (auto intro!: keeps_rule)

lemma keeps_removeB [keeps_rule]: "kept s u \<Longrightarrow> keeps snd s (removeB u)"
  unfolding removeB_def Let_def by (auto intro!: keeps_rule)

lemma keeps_take_blocked [keeps_rule]: "kept s u \<Longrightarrow> keeps snd s (take_blocked p u)"
  unfolding take_blocked_def Let_def by (auto intro!: keeps_rule)

lemma keeps_unblock [keeps_rule]: "kept s u \<Longrightarrow> keeps id s (unblock p u)"
  unfolding unblock_def by (auto intro!: keeps_rule)

lemma keeps_execxuteB_loop [keeps_rule]: "kept s u \<Longrightarrow> keeps id s (execxuteB_loop k p u)"
  by (induction k arbitrary: p u) (auto intro!: keeps_rule)

lemma keeps_execxuteB [keeps_rule]: "kept s u \<Longrightarrow> keeps id s (execxuteB u)"
  unfolding execxuteB_def by (auto intro!: keeps_rule simp del: execxuteB_loop.simps)

lemma keeps_draw [keeps_rule]: "kept s u \<Longrightarrow> keeps snd s (draw p u)"
  unfolding draw_def Let_def by (auto intro!: keeps_rule keeps_value)

lemma keeps_dispatch_head [keeps_rule]: "kept s u \<Longrightarrow> keeps id s (dispatch_head alg p u)"
  unfolding dispatch_head_def by (auto intro!: keeps_rule)

lemma keeps_foldE [keeps_rule]:
  "kept s u \<Longrightarrow> (\<And>i t. kept s t \<Longrightarrow> keeps id s (f i t)) \<Longrightarrow> keeps id s (foldE f is u)"
  by (induction "is" arbitrary: u) (auto intro!: keeps_rule)

lemma keeps_countdown [keeps_rule]: "kept s u \<Longrightarrow> keeps id s (countdown alg u)"
  unfolding countdown_def tick_def by (auto intro!: keeps_rule)

lemma keeps_print_cycle [keeps_rule]: "kept s u \<Longrightarrow> keeps id s (print_cycle p u)"
  unfolding print_cycle_def by (auto intro!: keeps_rule)

lemma keeps_proceedForward [keeps_rule]: "kept s u \<Longrightarrow> keeps id s (proceedForward alg u)"
  unfolding proceedForward_def Let_def by (auto intro!: keeps_rule)

lemma keeps_create_one [keeps_rule]: "kept s u \<Longrightarrow> keeps id s (create_one i u)"
  by (cases "i < length (Prime u)")
    (auto simp: create_one_def Let_def keeps_Inl load_def store_def intro!: keeps_rule)

lemma keeps_creation [keeps_rule]: "kept s u \<Longrightarrow> keeps id s (creation u)"
  unfolding creation_def by (auto intro!: keeps_rule)

section \<open>A process that is alone\<close>

lemma keeps_alone: "keeps id s m \<Longrightarrow> alone s \<Longrightarrow> m = Inr t \<Longrightarrow> alone t"
  by (auto simp: keeps_def intro: kept_alone)

lemmas alone_phases =
  keeps_alone [OF keeps_print_cycle [OF kept_refl]] keeps_alone [OF keeps_proceedForward [OF kept_refl]]
  keeps_alone [OF keeps_execxuteB [OF kept_refl]] keeps_alone [OF keeps_creation [OF kept_refl]]
  keeps_alone [OF keeps_dispatch_head [OF kept_refl]] keeps_alone [OF keeps_countdown [OF kept_refl]]

lemma structured_alone:
  assumes "structured a" and "length (procs a) = 1"
  shows "ready a = [] \<or> ready a = [0] \<and> running a = None"
proof -
  have "set (ready a) \<subseteq> {0}" "distinct (ready a)" using assms by (auto simp: structured_def)
  then have r: "ready a = [] \<or> ready a = [0]"
    by (cases "ready a") (auto simp: subset_singleton_iff)
  moreover have "running a \<noteq> Some i" if "ready a = [0]" for i
    using structuredD(4,6,8) [OF assms(1)] that assms(2) by fastforce
  ultimately show ?thesis by (cases "running a") auto
qed

text \<open>None of the tests for discipline 2 succeeds, before or after the dispatch.\<close>

lemma executeR_alone:
  assumes r: "refines s a" and st: "structured a" and al: "alone s"
  shows "executeR 2 p s = bindE (if ready a \<noteq> [] \<and> running a = None then dispatch_head 2 p s else Inr s)
    (\<lambda>s. if placement s \<noteq> 0 then pause_loop (\<lambda>s. selection s \<noteq> None) 0 s else Inr s)"
proof -
  have l: "lrep (map freshPrime (Prime s)) (Afront s) (Aback s) (placement s) (ready a)"
    using r by (simp add: refines_def ready_rep_def)
  then have e: "placement s = 0 \<longleftrightarrow> ready a = []" by (rule lrep_0_iff)
  have "length (procs a) = 1" using al refines_length [OF r] by (simp add: alone_def)
  then have "ready a = [] \<or> ready a = [0]" using structured_alone [OF st] by blast
  moreover have "Afront s = Some 0" if "ready a = [0]" using l that by (simp add: lrep_def)
  ultimately have "namelessOp s = None \<or> placement s = 0 \<or> Afront s = namelessOp s"
    using al e by (auto simp: alone_def)
  moreover have "PauseQ s = 0" "selection s = running a" using al r by (simp_all add: alone_def refines_def)
  ultimately show ?thesis using e by (auto simp: executeR_def)
qed

end
