(* ===== verification/Sched_Cycle.thy ===== *)
theory Sched_Cycle
  imports Sched_Alone Sched_Inv
begin

text \<open>
  lab3/scheduler.c implements the abstract scheduler, continued: arrivals, dispatching,
  the timers, and the whole cycle \<open>datapoint\<close> for the disciplines 0, 1 and 3, and for 2 with one process.
\<close>

section \<open>Arrivals\<close>

definition arrive_upto :: "nat \<Rightarrow> aspec \<Rightarrow> aspec" where
  \<comment> \<open>the state after the first \<open>k\<close> rounds of the loop of \<open>creation\<close>\<close>
  "arrive_upto k a =
     (let new = filter (\<lambda>i. arr_A (procs a ! i) = clock a) [0..<k] in
      a\<lparr>procs := map (\<lambda>i. if i \<in> set new then (procs a ! i)\<lparr>condition := 1\<rparr> else procs a ! i)
                   [0..<length (procs a)],
        ready := ready a @ new, arrived := arrived a + of_nat (length new)\<rparr>)"

lemma arrive_upto_0: "arrive_upto 0 a = a"
  by (simp add: arrive_upto_def Let_def map_nth)

lemma arrive_upto_Suc:
  assumes "k < length (procs a)"
  shows "arrive_upto (Suc k) a =
    (if arr_A (procs a ! k) = clock a
     then let b = arrive_upto k a in
       (upd_proc k (condition_update (\<lambda>_. 1)) b)\<lparr>ready := ready b @ [k], arrived := arrived b + 1\<rparr>
     else arrive_upto k a)"
proof -
  let ?Q = "\<lambda>i. arr_A (procs a ! i) = clock a" and ?f = "\<lambda>i. (procs a ! i)\<lparr>condition := 1\<rparr>"
  have "map (\<lambda>i. if i < k \<and> ?Q i \<or> i = k then ?f i else procs a ! i) [0..<length (procs a)] =
      (map (\<lambda>i. if i < k \<and> ?Q i then ?f i else procs a ! i) [0..<length (procs a)])[k := ?f k]"
    using assms by (intro nth_equalityI) (auto simp: nth_list_update)
  then show ?thesis
    using assms by (simp add: arrive_upto_def upd_proc_def Let_def)
qed

lemma arrive_upto_all: "arrive_upto (length (procs a)) a = a_arrive a"
proof -
  have "map (\<lambda>i. if i \<in> set (filter (\<lambda>i. arr_A (procs a ! i) = clock a) [0..<length (procs a)])
          then (procs a ! i)\<lparr>condition := 1\<rparr> else procs a ! i) [0..<length (procs a)] =
        map (\<lambda>q. if arr_A q = clock a then q\<lparr>condition := 1\<rparr> else q) (procs a)"
    by (intro nth_equalityI) auto
  then show ?thesis by (simp add: arrive_upto_def a_arrive_def arriving_def Let_def)
qed

lemma refines_totalPrime:
  "refines s a \<Longrightarrow> refines (s\<lparr>totalPrime := totalPrime s + 1\<rparr>) (a\<lparr>arrived := arrived a + 1\<rparr>)"
  by (simp add: refines_def ready_rep_def block_rep_def)

lemma create_one_refines:
  assumes r: "refines s (arrive_upto k a)" and k: "k < length (procs a)"
    and len: "length (procs a) < 2 ^ 32"
    and nr: "arr_A (procs a ! k) = clock a \<Longrightarrow> k \<notin> set (ready a)"
  shows "\<exists>t. create_one k s = Inr t \<and> refines t (arrive_upto (Suc k) a)"
proof -
  let ?b = "arrive_upto k a"
  let ?f = "condition_update (\<lambda>_. 1) :: process \<Rightarrow> process"
  have kl: "k < length (Prime s)" "length (Prime s) < 2 ^ 32"
    using refines_length [OF r] k len by (simp_all add: arrive_upto_def Let_def)
  have "arr_A (Prime s ! k) = arr_A (procs a ! k)" and clk: "present s = clock a"
    using refines_nth [OF r kl(1)] k r by (auto simp: arrive_upto_def Let_def refines_def)
  note A = this(1)
  show ?thesis
  proof (cases "arr_A (procs a ! k) = clock a")
    case False
    then show ?thesis using A clk kl r k by (simp add: create_one_def arrive_upto_Suc)
  next
    case True
    have r1: "refines (s\<lparr>totalPrime := totalPrime s + 1\<rparr>) (?b\<lparr>arrived := arrived ?b + 1\<rparr>)"
      using r by (rule refines_totalPrime)
    obtain t where t: "store (Some k) ?f (s\<lparr>totalPrime := totalPrime s + 1\<rparr>) = Inr t"
      "refines t (upd_proc k ?f (?b\<lparr>arrived := arrived ?b + 1\<rparr>))"
      using refines_store [OF r1, of k ?f ?f] kl by (auto simp: erase_updates)
    define u where "u = (if namelessOp t = None \<and> firstPrime t
      then t\<lparr>firstPrime := False, namelessOp := Some k\<rparr> else t)"
    have u: "refines u (upd_proc k ?f (?b\<lparr>arrived := arrived ?b + 1\<rparr>))"
      using t(2) by (simp add: u_def)
    have "k \<notin> set (ready ?b)" using nr True by (simp add: arrive_upto_def Let_def)
    then obtain v where v: "Qsetup (Some k) u = Inr v"
      "refines v ((upd_proc k ?f (?b\<lparr>arrived := arrived ?b + 1\<rparr>))\<lparr>ready := ready ?b @ [k]\<rparr>)"
      using Qsetup_refines [OF u, of k] refines_length [OF u] refines_length [OF r] kl
      by (auto simp: upd_proc_def)
    moreover have "create_one k s = Qsetup (Some k) u"
      using A clk True kl t(1) by (simp add: create_one_def u_def Let_def)
    moreover have "arrive_upto (Suc k) a =
        (upd_proc k ?f (?b\<lparr>arrived := arrived ?b + 1\<rparr>))\<lparr>ready := ready ?b @ [k]\<rparr>"
      using True k by (simp add: arrive_upto_Suc Let_def upd_proc_def)
    ultimately show ?thesis by auto
  qed
qed

lemma creation_refines:
  assumes r: "refines s a" and len: "length (procs a) < 2 ^ 32"
    and nr: "\<And>i. i < length (procs a) \<Longrightarrow> arr_A (procs a ! i) = clock a \<Longrightarrow> i \<notin> set (ready a)"
  shows "\<exists>t. creation s = Inr t \<and> refines t (a_arrive a)"
proof -
  have "k \<le> length (procs a) \<Longrightarrow>
      \<exists>t. foldE create_one [0..<k] s = Inr t \<and> refines t (arrive_upto k a)" for k
  proof (induction k)
    case 0
    then show ?case using r by (simp add: arrive_upto_0)
  next
    case (Suc k)
    then obtain t where t: "foldE create_one [0..<k] s = Inr t" "refines t (arrive_upto k a)" by auto
    obtain u where "create_one k t = Inr u" "refines u (arrive_upto (Suc k) a)"
      using create_one_refines [OF t(2) _ len] nr Suc.prems by auto
    with t show ?case by (simp add: foldE_append)
  qed
  from this [of "length (procs a)"] show ?thesis
    using r by (simp add: creation_def arrive_upto_all refines_def)
qed

section \<open>The shortest job\<close>

definition first_min :: "('a \<Rightarrow> 'b::linorder) \<Rightarrow> 'a list \<Rightarrow> 'a" where
  "first_min f xs = hd (filter (\<lambda>i. \<forall>j \<in> set xs. f i \<le> f j) xs)"

lemma first_min_in:
  assumes "xs \<noteq> []"
  shows "first_min f xs \<in> set xs" and "j \<in> set xs \<Longrightarrow> f (first_min f xs) \<le> f j"
  using hd_in_set [OF minimal_nonempty [OF assms, of f]] by (auto simp: first_min_def)

lemma first_min_snoc:
  assumes "xs \<noteq> []"
  shows "first_min f (xs @ [p]) = (if f p < f (first_min f xs) then p else first_min f xs)"
proof (cases "f p < f (first_min f xs)")
  case True
  then have "f p < f j" if "j \<in> set xs" for j
    using first_min_in(2) [OF assms that, where f = f] True by simp
  then have "filter (\<lambda>i. \<forall>j \<in> set (xs @ [p]). f i \<le> f j) (xs @ [p]) = [p]"
    by (auto simp: filter_empty_conv not_le less_imp_le)
  with True show ?thesis by (simp add: first_min_def)
next
  case False
  then have "\<forall>i \<in> set xs. (\<forall>j \<in> set (xs @ [p]). f i \<le> f j) = (\<forall>j \<in> set xs. f i \<le> f j)"
    using first_min_in(1) [OF assms, of f] first_min_in(2) [OF assms, where f = f] by fastforce
  then have "filter (\<lambda>i. \<forall>j \<in> set (xs @ [p]). f i \<le> f j) xs =
      filter (\<lambda>i. \<forall>j \<in> set xs. f i \<le> f j) xs"
    by (intro filter_cong) auto
  with minimal_nonempty [OF assms, of f] False show ?thesis by (simp add: first_min_def)
qed

lemma first_min_single [simp]: "first_min f [p] = p"
  by (simp add: first_min_def)

lemma shortest_fold:
  assumes "chain (\<lambda>i. freshPrime (Prime s ! i)) p zs" and "\<forall>i \<in> set zs. i < length (Prime s)"
    and "xs \<noteq> []" and "\<forall>i \<in> set xs. i < length (Prime s)"
    and "f = (\<lambda>i. total_C (Prime s ! i) - CPUTime (Prime s ! i))"
  shows "shortest (length zs) p (Some (first_min f xs)) s = Inr (Some (first_min f (xs @ zs)))"
  using assms(1-4)
proof (induction zs arbitrary: p xs)
  case Nil
  then show ?case by simp
next
  case (Cons z zs)
  have m: "first_min f xs < length (Prime s)" using first_min_in(1) Cons.prems by blast
  have "shortest (length zs) (freshPrime (Prime s ! z)) (Some (first_min f (xs @ [z]))) s =
      Inr (Some (first_min f ((xs @ [z]) @ zs)))"
    using Cons.prems by (intro Cons.IH) auto
  then show ?case
    using Cons.prems m by (auto simp: first_min_snoc assms(5))
qed

lemma first_min_again: "first_min f (x # x # xs) = first_min f (x # xs)"
  by (simp add: first_min_def)

lemma shortest_pick:
  assumes r: "refines s a" and ne: "ready a \<noteq> []"
  shows "shortest (unat (placement s)) (Afront s) (Afront s) s = Inr (Some (pick 3 a))"
proof -
  let ?f = "\<lambda>i. total_C (Prime s ! i) - CPUTime (Prime s ! i)"
  have l: "lrep (map freshPrime (Prime s)) (Afront s) (Aback s) (placement s) (ready a)"
    using r by (simp add: refines_def ready_rep_def)
  obtain x xs where x: "ready a = x # xs" using ne by (cases "ready a") auto
  have m: "\<forall>i \<in> set (ready a). i < length (Prime s)" using l by (auto simp: lrep_def)
  have "shortest (length (ready a)) (Afront s) (Some (first_min ?f [x])) s =
      Inr (Some (first_min ?f ([x] @ ready a)))"
    using lrep_chain [OF l] m x by (intro shortest_fold) auto
  moreover have "Afront s = Some x" "unat (placement s) = length (ready a)"
    using l x by (auto simp: lrep_def)
  moreover have "\<forall>i \<in> set (ready a). ?f i = remaining a i"
    using m refines_nth [OF r] by (simp add: remaining_def)
  then have "first_min ?f (ready a) = pick 3 a"
    unfolding first_min_def pick_def by (auto intro!: arg_cong [where f = hd] filter_cong)
  ultimately show ?thesis using x by (simp add: first_min_again)
qed

section \<open>Dispatching\<close>

text \<open>A computation of the program does what a computation of the specification says.\<close>

definition implements :: "fault + sched \<Rightarrow> fault + aspec \<Rightarrow> bool" where
  "implements c m \<longleftrightarrow> (case m of Inl e \<Rightarrow> c = Inl e | Inr b \<Rightarrow> \<exists>t. c = Inr t \<and> refines t b)"

lemma implements_simps [simp]:
  "implements c (Inl e) \<longleftrightarrow> c = Inl e"
  "implements c (Inr b) \<longleftrightarrow> (\<exists>t. c = Inr t \<and> refines t b)"
  by (simp_all add: implements_def)

lemma refines_numbers: "refines s a \<Longrightarrow> refines (s\<lparr>randomFile := r\<rparr>) (a\<lparr>numbers := r\<rparr>)"
  by (simp add: refines_def ready_rep_def block_rep_def)

lemma draw_refines:
  assumes "refines s a"
  shows "case read_number 20 (numbers a) of Inl e \<Rightarrow> draw p s = Inl e
         | Inr (x, rest) \<Rightarrow> \<exists>t. draw p s = Inr (x, t) \<and> refines t (a\<lparr>numbers := rest\<rparr>)"
  using assms refines_numbers [OF assms]
  by (auto simp: draw_def Let_def refines_def [of s a] split: sum.splits prod.splits)

lemma new_burst_erase [simp]: "new_burst x B (erase q) = new_burst x B q"
  by (simp add: new_burst_def Let_def)

lemma dispatch_sjf_refines:
  assumes r: "refines s a" and st: "structured a" and ne: "ready a \<noteq> []" "running a = None"
  shows "implements (dispatch_sjf p s) (a_dispatch 3 a)"
proof -
  let ?j = "pick 3 a"
  let ?f = "\<lambda>q. q\<lparr>condition := 2, operating := True\<rparr>"
  have jr: "?j \<in> set (ready a)" using ne by (simp add: pick_in)
  have j: "?j < length (procs a)" using structuredD(2) [OF st jr] .
  obtain t where t: "unlink_ready (Some ?j) s = Inr (Some ?j, t)"
    "refines t (a\<lparr>ready := remove1 ?j (ready a)\<rparr>)"
    using unlink_ready_cell_refines [OF r ids_ok_refines [OF r st] jr] by blast
  have jt: "?j < length (Prime t)" using refines_length [OF t(2)] j by simp
  obtain u where u: "store (Some ?j) ?f t = Inr u"
    "refines u (upd_proc ?j ?f (a\<lparr>ready := remove1 ?j (ready a)\<rparr>))"
    using refines_store [OF t(2) jt, of ?f ?f] by (auto simp: erase_def)
  let ?b = "upd_proc ?j ?f (a\<lparr>ready := remove1 ?j (ready a)\<rparr>)"
  have start: "dispatch_sjf p s = bindE (draw p u) (\<lambda>(x, s).
     bindE (load (Some ?j) s) (\<lambda>qp. bindE (load (Some ?j) s) (\<lambda>lp.
     bindE (new_burst x (burst_B qp) lp) (\<lambda>b.
     bindE (store (Some ?j) (\<lambda>q. q\<lparr>CPUBurst := b\<rparr>) s) (\<lambda>s. Inr (s\<lparr>selection := Some ?j\<rparr>))))))"
    using shortest_pick [OF r ne(1)] t u by (simp add: dispatch_sjf_def)
  have nums: "numbers ?b = numbers a" by (simp add: upd_proc_def)
  show ?thesis
  proof (cases "read_number 20 (numbers a)")
    case (Inl e)
    then show ?thesis using draw_refines [OF u(2), of p] start ne nums
      by (simp add: a_dispatch_def Let_def)
  next
    case (Inr z)
    obtain x rest where z: "z = (x, rest)" by (cases z)
    then obtain v where v: "draw p u = Inr (x, v)" "refines v (?b\<lparr>numbers := rest\<rparr>)"
      using draw_refines [OF u(2), of p] Inr nums by auto
    have jv: "?j < length (Prime v)" using refines_length [OF v(2)] j by (simp add: upd_proc_def)
    have pv: "erase (Prime v ! ?j) = ?f (procs a ! ?j)"
      using refines_nth [OF v(2) jv] j by (simp add: upd_proc_def)
    have B: "burst_B (Prime v ! ?j) = burst_B (procs a ! ?j)"
      using arg_cong [OF pv, of burst_B] by simp
    have nb: "new_burst x (burst_B (procs a ! ?j)) (Prime v ! ?j) =
        new_burst x (burst_B (procs a ! ?j)) (procs a ! ?j)"
      using arg_cong [OF pv, of total_C] arg_cong [OF pv, of CPUTime]
      by (simp add: new_burst_def Let_def)
    show ?thesis
    proof (cases "new_burst x (burst_B (procs a ! ?j)) (procs a ! ?j)")
      case (Inl e)
      then show ?thesis using start v jv B nb Inr z ne \<open>read_number 20 (numbers a) = Inr z\<close>
        by (simp add: a_dispatch_def Let_def)
    next
      case (Inr b)
      let ?g = "\<lambda>q. q\<lparr>CPUBurst := b\<rparr>"
      obtain w where w: "store (Some ?j) ?g v = Inr w" "refines w (upd_proc ?j ?g (?b\<lparr>numbers := rest\<rparr>))"
        using refines_store [OF v(2) jv, of ?g ?g] by (auto simp: erase_def)
      have "dispatch_sjf p s = Inr (w\<lparr>selection := Some ?j\<rparr>)"
        using start v jv B nb Inr w by simp
      moreover have "a_dispatch 3 a = Inr ((upd_proc ?j ?g (?b\<lparr>numbers := rest\<rparr>))\<lparr>running := Some ?j\<rparr>)"
        using Inr z ne \<open>read_number 20 (numbers a) = Inr z\<close> j
        by (auto simp: a_dispatch_def upd_proc_def start_burst_def Let_def intro!: aspec.equality process.equality
            arg_cong [where f = "list_update (procs a) (pick 3 a)"])
      ultimately show ?thesis using refines_selection [OF w(2)] by simp
    qed
  qed
qed

lemma dispatch_head_refines:
  assumes r: "refines s a" and st: "structured a" and ne: "ready a \<noteq> []" "running a = None"
    and bud: "\<forall>q \<in> set (procs a). budget True q" and alg: "alg \<noteq> 3"
  shows "implements (dispatch_head alg p s) (a_dispatch alg a)"
proof -
  let ?j = "pick alg a"
  obtain xs where xs: "ready a = ?j # xs" using ne alg by (cases "ready a") (auto simp: pick_def)
  have jr: "?j \<in> set (ready a)" using ne by (simp add: pick_in)
  have j: "?j < length (procs a)" using structuredD(2) [OF st jr] .
  have "condition (procs a ! ?j) = 1" using structuredD(6) [OF st j] jr by simp
  then have less: "unat (CPUTime (procs a ! ?j)) < unat (total_C (procs a ! ?j))"
    using bud nth_mem [OF j] by (auto simp: budget_def)
  obtain u where u: "dsetup s = Inr (Some ?j, u)" "refines u (a\<lparr>ready := remove1 ?j (ready a)\<rparr>)"
    using dsetup_refines [OF r xs] xs by (metis remove1.simps(2))
  let ?b = "a\<lparr>ready := remove1 ?j (ready a)\<rparr>"
  show ?thesis
  proof (cases "read_number 20 (numbers a)")
    case (Inl e)
    then show ?thesis using draw_refines [OF u(2), of p] u ne
      by (simp add: a_dispatch_def dispatch_head_def Let_def)
  next
    case (Inr z)
    note rn = Inr
    obtain x rest where z: "z = (x, rest)" by (cases z)
    then obtain v where v: "draw p u = Inr (x, v)" "refines v (?b\<lparr>numbers := rest\<rparr>)"
      using draw_refines [OF u(2), of p] rn by auto
    have jv: "?j < length (Prime v)" using refines_length [OF v(2)] j by simp
    have pv: "erase (Prime v ! ?j) = procs a ! ?j" using refines_nth [OF v(2) jv] by simp
    have nb: "new_burst x (burst_B (Prime v ! ?j)) (Prime v ! ?j) =
        new_burst x (burst_B (procs a ! ?j)) (procs a ! ?j)"
      using arg_cong [OF pv, of total_C] arg_cong [OF pv, of CPUTime] arg_cong [OF pv, of burst_B]
      by (simp add: new_burst_def Let_def)
    show ?thesis
    proof (cases "new_burst x (burst_B (procs a ! ?j)) (procs a ! ?j)")
      case (Inl e)
      then show ?thesis using v jv nb rn z ne u
        by (simp add: a_dispatch_def dispatch_head_def Let_def)
    next
      case (Inr b)
      let ?g = "\<lambda>q. q\<lparr>CPUBurst := b\<rparr>" and ?f = "\<lambda>q. q\<lparr>condition := 2, operating := True\<rparr>"
        and ?h = "\<lambda>q. if alg = 1 then q\<lparr>quantum := 2\<rparr> else q"
      have b0: "b \<noteq> 0" using new_burst_bounds(1) [OF Inr less] .
      obtain w where w: "store (Some ?j) ?g v = Inr w" "refines w (upd_proc ?j ?g (?b\<lparr>numbers := rest\<rparr>))"
        "CPUBurst (Prime w ! ?j) = b" "?j < length (Prime w)"
        using refines_store [OF v(2) jv, of ?g ?g] jv by (auto simp: erase_def)
      obtain y where y: "store (Some ?j) ?f w = Inr y"
        "refines y (upd_proc ?j ?f (upd_proc ?j ?g (?b\<lparr>numbers := rest\<rparr>)))" "?j < length (Prime y)"
        using refines_store [OF w(2,4), of ?f ?f] w(4) by (auto simp: erase_def)
      obtain o' where o': "(if alg = 1 then store (Some ?j) (\<lambda>q. q\<lparr>quantum := 2\<rparr>) y else Inr y) = Inr o'"
        "refines o' (upd_proc ?j ?h (upd_proc ?j ?f (upd_proc ?j ?g (?b\<lparr>numbers := rest\<rparr>))))"
        using refines_store [OF y(2,3), of "\<lambda>q. q\<lparr>quantum := 2\<rparr>" "\<lambda>q. q\<lparr>quantum := 2\<rparr>"] y(2)
        by (cases "alg = 1") (auto simp: erase_def upd_proc_def)
      have "dispatch_head alg p s = Inr (o'\<lparr>selection := Some ?j\<rparr>)"
        using u v jv nb Inr w y o' b0 by (simp add: dispatch_head_def word_neq_0_conv)
      moreover have "upd_proc ?j ?h (upd_proc ?j ?f (upd_proc ?j ?g (?b\<lparr>numbers := rest\<rparr>))) =
          (upd_proc ?j (start_burst alg b) a)\<lparr>ready := remove1 ?j (ready a), numbers := rest\<rparr>"
        using j by (auto simp: upd_proc_def start_burst_def Let_def intro!: aspec.equality process.equality
            arg_cong [where f = "list_update (procs a) ?j"])
      ultimately show ?thesis
        using refines_selection [OF o'(2), of "Some ?j"] Inr z ne rn
        by (simp add: a_dispatch_def Let_def)
    qed
  qed
qed

lemma bindE_Inr: "bindE m Inr = m"
  by (cases m) simp_all

lemma executeR_single:
  assumes r: "refines s a" and inv: "mid_inv True a" and al: "alone s"
  shows "executeR 2 p s = (if ready a \<noteq> [] \<and> running a = None then dispatch_head 2 p s else Inr s)"
    and "ready a \<noteq> [] \<and> running a = None \<Longrightarrow> implements (dispatch_head 2 p s) (a_dispatch 2 a)"
proof -
  have st: "structured a" and bud: "\<forall>q \<in> set (procs a). budget True q"
    using inv by (simp_all add: mid_inv_def)
  have len: "length (procs a) = 1" using al refines_length [OF r] by (simp add: alone_def)
  have empty: "placement t = 0" if "refines t b" "ready b = []" for t b
  proof -
    have "lrep (map freshPrime (Prime t)) (Afront t) (Aback t) (placement t) []"
      using that by (simp add: refines_def ready_rep_def)
    then show ?thesis by (simp add: lrep_0_iff)
  qed
  show d: "implements (dispatch_head 2 p s) (a_dispatch 2 a)" if "ready a \<noteq> [] \<and> running a = None"
    using dispatch_head_refines [OF r st _ _ bud, of 2] that by simp
  note e = executeR_alone [OF r st al, of p]
  show "executeR 2 p s = (if ready a \<noteq> [] \<and> running a = None then dispatch_head 2 p s else Inr s)"
  proof (cases "ready a \<noteq> [] \<and> running a = None")
    case True
    then have ready: "ready a = [0]" using structured_alone [OF st len] by blast
    show ?thesis
    proof (cases "a_dispatch 2 a")
      case (Inl x)
      then show ?thesis using d [OF True] e True by simp
    next
      case (Inr b)
      then obtain t where t: "dispatch_head 2 p s = Inr t" "refines t b" using d [OF True] by auto
      have "ready b = []"
        using Inr True ready by (auto simp: a_dispatch_def Let_def pick_def bindE_eq_Inr_iff)
      then show ?thesis using t e True empty by simp
    qed
  next
    case False
    then have "ready a = []" using structured_alone [OF st len] by auto
    then show ?thesis using e r empty [OF r] by simp
  qed
qed

lemma executeR_fine:
  assumes "refines s a" and "mid_inv True a" and "fine alg s" and "executeR alg p s = Inr t"
  shows "fine alg t"
  using assms executeR_single(1) [OF assms(1,2), of p] alone_phases(5)
  by (auto simp: fine_def split: if_splits)

lemma executeR_refines:
  assumes r: "refines s a" and inv: "mid_inv True a" and alg: "fine alg s"
  shows "implements (executeR alg p s) (a_dispatch alg a)"
proof (cases "alg = 2")
  case True
  then have "alone s" using alg by (simp add: fine_def)
  with True executeR_single [OF r inv this, of p] r show ?thesis by (auto simp: a_dispatch_def)
next
  case other: False
  have st: "structured a" and bud: "\<forall>q \<in> set (procs a). budget True q"
    using inv by (simp_all add: mid_inv_def)
  have "lrep (map freshPrime (Prime s)) (Afront s) (Aback s) (placement s) (ready a)"
    using r by (simp add: refines_def ready_rep_def)
  then have "placement s = 0 \<longleftrightarrow> ready a = []" by (rule lrep_0_iff)
  moreover have "selection s = running a" using r by (simp add: refines_def)
  ultimately have e: "executeR alg p s =
     (if ready a \<noteq> [] \<and> running a = None
      then (if alg = 3 then dispatch_sjf p s else dispatch_head alg p s) else Inr s)"
    using other by (simp add: executeR_def bindE_Inr)
  show ?thesis
  proof (cases "ready a \<noteq> [] \<and> running a = None")
    case True
    then show ?thesis
      using e dispatch_sjf_refines [OF r st] dispatch_head_refines [OF r st _ _ bud, of alg] by auto
  next
    case False
    then have "a_dispatch alg a = Inr a" by (auto simp: a_dispatch_def)
    with False e r show ?thesis by auto
  qed
qed

section \<open>The timers\<close>

lemma tick_eq:
  assumes "i < length (Prime s)" and "condition (Prime s ! i) \<in> {0, 1, 2, 3, 4}"
  shows "tick alg i s = Inr (s\<lparr>Prime := (Prime s)[i := tick_process alg (Prime s ! i)]\<rparr>)"
  using assms by (auto simp: tick_def tick_process_def)

lemma tick_links [simp]:
  "freshPrime (tick_process alg q) = freshPrime q" "pushBlock (tick_process alg q) = pushBlock q"
  "erase (tick_process alg q) = tick_process alg (erase q)"
  by (simp_all add: tick_process_def erase_def)

lemma tick_loop_refines:
  assumes r: "refines s a" and ok: "\<forall>q \<in> set (procs a). condition q \<in> {0, 1, 2, 3, 4}"
    and k: "k \<le> length (procs a)"
  shows "\<exists>t. foldE (tick alg) [0..<k] s = Inr t \<and>
    refines t (a\<lparr>procs := map (tick_process alg) (take k (procs a)) @ drop k (procs a)\<rparr>)"
  using k
proof (induction k)
  case 0
  then show ?case using r by simp
next
  case (Suc k)
  let ?b = "a\<lparr>procs := map (tick_process alg) (take k (procs a)) @ drop k (procs a)\<rparr>"
  from Suc obtain t where t: "foldE (tick alg) [0..<k] s = Inr t" "refines t ?b" by auto
  have kl: "k < length (Prime t)" using refines_length [OF t(2)] Suc.prems by simp
  have q: "procs a ! k = erase (Prime t ! k)"
    using refines_nth [OF t(2) kl] Suc.prems by (simp add: nth_append)
  then have c: "condition (Prime t ! k) \<in> {0, 1, 2, 3, 4}"
    using ok Suc.prems by (metis Suc_le_lessD erase_sel(6) nth_mem)
  have "procs (upd_proc k (tick_process alg) ?b) =
      map (tick_process alg) (take (Suc k) (procs a)) @ drop (Suc k) (procs a)"
    using Suc.prems
    by (simp add: upd_proc_def list_update_append nth_append take_Suc_conv_app_nth Cons_nth_drop_Suc [symmetric])
  then have e: "upd_proc k (tick_process alg) ?b =
      a\<lparr>procs := map (tick_process alg) (take (Suc k) (procs a)) @ drop (Suc k) (procs a)\<rparr>"
    by (simp add: upd_proc_def)
  show ?case
    using t(1) tick_eq [OF kl c, of alg]
      refines_store [OF t(2) kl, of "tick_process alg" "tick_process alg"] kl e
    by (simp add: foldE_append)
qed

lemma any_blocked_eq:
  "\<forall>i \<in> set is. i < length (Prime s) \<Longrightarrow>
   any_blocked is s = Inr (\<exists>i \<in> set is. condition (Prime s ! i) = 3)"
  by (induction "is") auto

lemma blocked_iff:
  "structured a \<Longrightarrow> blocked a \<noteq> [] \<longleftrightarrow> (\<exists>i < length (procs a). condition (procs a ! i) = 3)"
  using structuredD(3,7) [of a] by (metis list.set_sel(1) empty_iff empty_set)

lemma countdown_refines:
  assumes r: "refines s a" and st: "structured a"
  shows "\<exists>t. countdown alg s = Inr t \<and> refines (t\<lparr>present := present t + 1\<rparr>) (a_tick alg a)"
proof -
  have ok: "\<forall>q \<in> set (procs a). condition q \<in> {0, 1, 2, 3, 4}"
    using structuredD(9) [OF st] by (metis in_set_conv_nth)
  obtain t where t: "foldE (tick alg) [0..<length (procs a)] s = Inr t"
    "refines t (a\<lparr>procs := map (tick_process alg) (procs a)\<rparr>)"
    using tick_loop_refines [OF r ok, of "length (procs a)"] by auto
  have n: "unat (countPrime s) = length (procs a)" "length (Prime t) = length (procs a)"
    using r refines_length [OF t(2)] by (simp_all add: refines_def)
  moreover have "unat (countPrime t) = length (Prime t)" using t(2) by (simp add: refines_def)
  ultimately have nt: "unat (countPrime t) = length (procs a)" by simp
  have "condition (Prime t ! i) = condition (procs a ! i)" if "i < length (procs a)" for i
    using refines_nth [OF t(2), of i] n that by (metis aspec.select_convs(1) aspec.surjective
        aspec.update_convs(1) erase_sel(6) nth_map tick_process_sel(1))
  then have b: "any_blocked [0..<length (procs a)] t = Inr (blocked a \<noteq> [])"
    using any_blocked_eq [of "[0..<length (procs a)]" t] blocked_iff [OF st] n by auto
  show ?thesis
    using t n nt b by (auto simp: countdown_def a_tick_def refines_def ready_rep_def block_rep_def)
qed

section \<open>One cycle\<close>

lemma cond_text_ok: "condition q \<in> {0, 1, 2, 3, 4} \<Longrightarrow> \<exists>t. cond_text q = Inr t"
  by (auto simp: cond_text_def)

lemma print_cycle_refines:
  assumes r: "refines s a" and st: "structured a"
  shows "\<exists>t. print_cycle p s = Inr t \<and> refines t a"
proof -
  let ?body = "\<lambda>i s. bindE (load (Some i) s) (\<lambda>q. bindE (cond_text q) (\<lambda>t. Inr (emit t s)))"
  have "\<exists>t. foldE ?body is u = Inr t \<and> refines t a"
    if "refines u a" "\<forall>i \<in> set is. i < length (procs a)" for u "is"
    using that
  proof (induction "is" arbitrary: u)
    case Nil
    then show ?case by simp
  next
    case (Cons i "is")
    then have i: "i < length (Prime u)" "procs a ! i = erase (Prime u ! i)"
      using refines_length [OF Cons.prems(1)] refines_nth [OF Cons.prems(1)] by auto
    then have "condition (Prime u ! i) \<in> {0, 1, 2, 3, 4}"
      using structuredD(9) [OF st, of i] refines_length [OF Cons.prems(1)] by simp
    then obtain x where "cond_text (Prime u ! i) = Inr x" using cond_text_ok by blast
    then show ?case using Cons i by simp
  qed
  moreover have "unat (countPrime s) = length (procs a)" using r by (simp add: refines_def)
  ultimately obtain t where "foldE ?body [0..<unat (countPrime s)]
      (emit (''previous run'' @ [CHR 0x09] @ show_int (sint (present s)) @ '':'' @ [CHR 0x09]) s) = Inr t"
    "refines t a"
    using r by (metis (no_types, lifting) atLeastLessThan_upt atLeastLessThan_iff refines_emit)
  with r show ?thesis by (auto simp: print_cycle_def)
qed

lemma datapoint_phases:
  assumes r: "refines s a" and inv: "spec_inv a" and alg: "fine alg s"
  obtains t where "refines t (a_admit (a_unblock (a_forward alg a)))" "fine alg t"
    "mid_inv True (a_admit (a_unblock (a_forward alg a)))"
    "datapoint p alg s =
      bindE (executeR alg p t) (\<lambda>s. bindE (countdown alg s) (\<lambda>s. Inr (s\<lparr>present := present s + 1\<rparr>)))"
proof -
  let ?a1 = "a_forward alg a"
  let ?a2 = "a_unblock ?a1"
  let ?a3 = "a_admit ?a2"
  have m1: "mid_inv False ?a1" by (rule a_forward_mid [OF inv])
  have m2: "mid_inv False ?a2" by (rule a_unblock_mid [OF m1])
  have m3: "mid_inv True ?a3" by (rule a_admit_mid [OF m2])
  have st: "structured a" "structured ?a1" "structured ?a2"
    using inv m1 m2 by (simp_all add: spec_inv_def mid_inv_def)
  obtain s0 where s0: "print_cycle p s = Inr s0" "refines s0 a"
    using print_cycle_refines [OF r st(1)] by blast
  obtain s1 where s1: "proceedForward alg s0 = Inr s1" "refines s1 ?a1"
    using proceedForward_refines [OF s0(2) st(1)] by blast
  obtain s2 where s2: "execxuteB s1 = Inr s2" "refines s2 ?a2"
    using execxuteB_refines [OF s1(2) st(2)] by blast
  have guard: "totalPrime s2 \<noteq> countPrime s2 \<longleftrightarrow> arrived ?a2 \<noteq> of_nat (length (procs ?a2))"
  proof -
    have "length (procs ?a2) = unat (countPrime s2)" "arrived ?a2 = totalPrime s2"
      using s2(2) by (simp_all add: refines_def)
    then show ?thesis by simp
  qed
  have "\<exists>t. (if totalPrime s2 \<noteq> countPrime s2 then creation s2 else Inr s2) = Inr t \<and> refines t ?a3"
  proof (cases "totalPrime s2 = countPrime s2")
    case True
    then show ?thesis using s2 guard by (simp add: a_admit_def)
  next
    case False
    have "i \<notin> set (ready ?a2)" if "i < length (procs ?a2)" "arr_A (procs ?a2 ! i) = clock ?a2" for i
    proof -
      have "condition (procs ?a2 ! i) = 0"
        using that arriving_unstarted [of ?a2 "procs ?a2 ! i"] m2 False guard
        by (simp add: mid_inv_def)
      then have "condition (procs ?a2 ! i) \<noteq> 1" by simp
      then show ?thesis using structuredD(6) [OF st(3) that(1)] by blast
    qed
    then show ?thesis
      using creation_refines [OF s2(2)] structuredD(1) [OF st(3)] False guard
      by (simp add: a_admit_def)
  qed
  then obtain s3 where s3: "(if totalPrime s2 \<noteq> countPrime s2 then creation s2 else Inr s2) = Inr s3"
    "refines s3 ?a3" by blast
  have dp: "datapoint p alg s =
      bindE (executeR alg p s3) (\<lambda>s. bindE (countdown alg s) (\<lambda>s. Inr (s\<lparr>present := present s + 1\<rparr>)))"
    using s0 s1 s2 s3(1) by (simp add: datapoint_def)
  have "fine alg s3"
  proof (unfold fine_def, intro impI)
    assume "alg = 2"
    then have "alone s" using alg by (simp add: fine_def)
    then have "alone s2" using alone_phases(1-3) s0(1) s1(1) s2(1) by blast
    then show "alone s3" using alone_phases(4) [of s2] s3(1) by (auto split: if_splits)
  qed
  with s3(2) m3 dp show thesis using that by blast
qed

theorem datapoint_implements:
  assumes r: "refines s a" and inv: "spec_inv a" and alg: "fine alg s"
  shows "implements (datapoint p alg s) (a_cycle alg a)"
proof (rule datapoint_phases [OF assms, of p])
  let ?a = "a_admit (a_unblock (a_forward alg a))"
  fix t
  assume t: "refines t ?a" "fine alg t" "mid_inv True ?a" and dp: "datapoint p alg s =
      bindE (executeR alg p t) (\<lambda>s. bindE (countdown alg s) (\<lambda>s. Inr (s\<lparr>present := present s + 1\<rparr>)))"
  have ex: "implements (executeR alg p t) (a_dispatch alg ?a)" by (rule executeR_refines [OF t(1,3,2)])
  show ?thesis
  proof (cases "a_dispatch alg ?a")
    case (Inl e)
    with ex dp show ?thesis by (simp add: a_cycle_eq)
  next
    case (Inr b)
    then obtain s4 where s4: "executeR alg p t = Inr s4" "refines s4 b" using ex by auto
    have "structured b" using a_dispatch_mid [OF t(3) Inr] by (simp add: mid_inv_def)
    then obtain s5 where "countdown alg s4 = Inr s5" "refines (s5\<lparr>present := present s5 + 1\<rparr>) (a_tick alg b)"
      using countdown_refines [OF s4(2)] by blast
    then show ?thesis using dp s4 Inr by (simp add: a_cycle_eq)
  qed
qed

lemma datapoint_fine:
  assumes r: "refines s a" and inv: "spec_inv a" and alg: "fine alg s" and d: "datapoint p alg s = Inr t"
  shows "fine alg t"
proof (rule datapoint_phases [OF r inv alg, of p])
  let ?a = "a_admit (a_unblock (a_forward alg a))"
  fix u
  assume u: "refines u ?a" "fine alg u" "mid_inv True ?a" and dp: "datapoint p alg s =
      bindE (executeR alg p u) (\<lambda>s. bindE (countdown alg s) (\<lambda>s. Inr (s\<lparr>present := present s + 1\<rparr>)))"
  from d [unfolded dp] obtain v w where v: "executeR alg p u = Inr v" "countdown alg v = Inr w"
    "t = w\<lparr>present := present w + 1\<rparr>" by (auto simp: bindE_eq_Inr_iff)
  have "fine alg v" by (rule executeR_fine [OF u(1,3,2) v(1)])
  moreover have "alone v \<Longrightarrow> alone w" using alone_phases(6) v(2) by blast
  moreover have "alone t = alone w" by (simp add: v(3) alone_def)
  ultimately show ?thesis by (simp add: fine_def)
qed

end
