(* ===== verification/Sched_Live.thy ===== *)
theory Sched_Live
  imports Sched_Cycle
begin

text \<open>
  Every pass of lab3/scheduler.c ends, for the disciplines 0, 1 and 3: a cycle either
  gives some process processor time, or empties the processor, or lets all timers of the
  waiting processes run down. The three together decrease lexicographically. Each
  dispatch reads one line of the random-number file, so as many lines as there are cycles
  of processor time to give are enough.
\<close>

section \<open>What a cycle does not change\<close>

definition static :: "process \<Rightarrow> u32 \<times> u32 \<times> u32 \<times> u32 \<times> u32" where
  "static q = (arr_A q, burst_B q, total_C q, mult_M q, processID q)"

definition left_over :: "process \<Rightarrow> nat" where
  "left_over q = unat (total_C q) - unat (CPUTime q)"

definition work :: "aspec \<Rightarrow> nat" where
  "work a = sum_list (map left_over (procs a))"

lemma map_upd_proc:
  "g (f (procs a ! j)) = g (procs a ! j) \<Longrightarrow> map g (procs (upd_proc j f a)) = map g (procs a)"
  by (simp add: upd_proc_def map_update)

lemma static_sel [simp]:
  "static (q\<lparr>condition := c\<rparr>) = static q"
  "static (q\<lparr>condition := c, finishingTime := t\<rparr>) = static q"
  "static (settle q) = static q" "static (start_burst alg x q) = static q"
  "static (tick_process alg q) = static q"
  by (simp_all add: static_def settle_def start_burst_def tick_process_def Let_def)

lemma left_over_sel [simp]:
  "left_over (q\<lparr>condition := c\<rparr>) = left_over q"
  "left_over (q\<lparr>condition := c, finishingTime := t\<rparr>) = left_over q"
  "left_over (settle q) = left_over q" "left_over (start_burst alg x q) = left_over q"
  by (simp_all add: left_over_def settle_def start_burst_def Let_def)

lemma a_forward_map:
  assumes "\<And>q. g (settle q) = g q" and "\<And>q c. g (q\<lparr>condition := c\<rparr>) = g q"
    and "\<And>q c t. g (q\<lparr>condition := c, finishingTime := t\<rparr>) = g q"
  shows "map g (procs (a_forward alg a)) = map g (procs a)"
proof (cases "running a")
  case None
  then show ?thesis by (simp add: a_forward_def)
next
  case (Some j)
  show ?thesis
    using Some by (simp add: a_forward_def Let_def assms map_upd_proc)
qed

lemma a_unblock_map:
  "(\<And>q c. g (q\<lparr>condition := c\<rparr>) = g q) \<Longrightarrow> map g (procs (a_unblock a)) = map g (procs a)"
  by (simp add: a_unblock_def map_upd_proc split: option.splits)

lemma a_admit_map:
  "(\<And>q c. g (q\<lparr>condition := c\<rparr>) = g q) \<Longrightarrow> map g (procs (a_admit a)) = map g (procs a)"
  by (simp add: a_admit_def a_arrive_def comp_def)

lemma a_dispatch_map:
  "(\<And>q x. g (start_burst alg x q) = g q) \<Longrightarrow> a_dispatch alg a = Inr b \<Longrightarrow>
   map g (procs b) = map g (procs a)"
  by (elim a_dispatch_Inr) (simp_all add: map_upd_proc)

lemma a_cycle_static: "a_cycle alg a = Inr b \<Longrightarrow> map static (procs b) = map static (procs a)"
proof -
  assume "a_cycle alg a = Inr b"
  then obtain c where c: "a_dispatch alg (a_admit (a_unblock (a_forward alg a))) = Inr c" "b = a_tick alg c"
    by (auto simp: a_cycle_eq bindE_eq_Inr_iff)
  have "map static (procs b) = map static (procs c)" by (simp add: c a_tick_def comp_def)
  also have "\<dots> = map static (procs (a_admit (a_unblock (a_forward alg a))))"
    using c(1) by (rule a_dispatch_map [rotated]) simp
  also have "\<dots> = map static (procs a)" by (simp add: a_admit_map a_unblock_map a_forward_map)
  finally show ?thesis .
qed

section \<open>Lines of the random-number file\<close>

function lines_left :: "string \<Rightarrow> nat" where
  \<comment> \<open>how many times \<open>fgets (str, 20, f)\<close> succeeds\<close>
  "lines_left f = (if f = [] then 0 else Suc (lines_left (snd (fgets_chars 19 f))))"
  by pat_completeness auto
termination
  by (relation "measure length") (use fgets_chars_shrinks [of _ 18] in \<open>auto simp: numeral_eq_Suc\<close>)

declare lines_left.simps [simp del]

lemma read_number_lines:
  "lines_left f \<noteq> 0 \<Longrightarrow> \<exists>x r. read_number 20 f = Inr (x, r) \<and> Suc (lines_left r) = lines_left f"
  by (cases "f = []") (auto simp: read_number_def fgets_def lines_left.simps [of f] lines_left.simps [of "[]"] split: prod.splits)

section \<open>Progress\<close>

definition timer :: "u32 \<Rightarrow> process \<Rightarrow> nat" where
  \<comment> \<open>for how many cycles a process still waits for its device or for its arrival\<close>
  "timer now q = (if condition q = 3 then nat (sint (BurstTime q))
     else if condition q = 0 then Suc (unat (arr_A q) - unat now) else 0)"

definition timers :: "aspec \<Rightarrow> nat" where
  "timers a = sum_list (map (timer (clock a)) (procs a))"

definition progress :: "(aspec \<times> aspec) set" where
  "progress = measures [work, \<lambda>a. if running a = None then 0 else 1, timers]"

lemma sum_list_less:
  assumes "length xs = length ys" and "\<And>i. i < length xs \<Longrightarrow> xs ! i \<le> (ys ! i :: nat)"
    and "j < length xs" and "xs ! j < ys ! j"
  shows "sum_list xs < sum_list ys"
proof -
  have "sum_list xs = (\<Sum>i < length xs. xs ! i)" "sum_list ys = (\<Sum>i < length xs. ys ! i)"
    using assms(1) by (simp_all add: sum_list_sum_nth atLeast0LessThan)
  moreover have "(\<Sum>i < length xs. xs ! i) < (\<Sum>i < length xs. ys ! i)"
    by (rule sum_strict_mono_ex1) (use assms in auto)
  ultimately show ?thesis by simp
qed

lemma tick_left_over:
  assumes "budget True q"
  shows "left_over (tick_process alg q) = (if condition q = 2 then left_over q - 1 else left_over q)"
    and "condition q = 2 \<Longrightarrow> 0 < left_over q"
proof -
  have run: "unat (CPUTime q + 1) = unat (CPUTime q) + 1" "unat (CPUTime q) < unat (total_C q)"
    if "condition q = 2"
  proof -
    show "unat (CPUTime q) < unat (total_C q)"
      using assms that by (auto simp: budget_def word_eq_0_unat)
    then show "unat (CPUTime q + 1) = unat (CPUTime q) + 1"
      using unat_u32_bound [of "total_C q"] by (intro unat_Suc_u32) simp
  qed
  then show "left_over (tick_process alg q) = (if condition q = 2 then left_over q - 1 else left_over q)"
    by (simp add: left_over_def tick_process_def)
  show "condition q = 2 \<Longrightarrow> 0 < left_over q" using run by (simp add: left_over_def)
qed

lemma a_tick_work:
  assumes inv: "mid_inv True a"
  shows "work (a_tick alg a) = (if running a = None then work a else work a - 1)"
    and "running a \<noteq> None \<Longrightarrow> 0 < work a"
proof -
  have st: "structured a" and bud: "\<forall>q \<in> set (procs a). budget True q"
    using inv by (simp_all add: mid_inv_def)
  have eq: "map (left_over \<circ> tick_process alg) (procs a) =
      map (\<lambda>q. if condition q = 2 then left_over q - 1 else left_over q) (procs a)"
    using bud tick_left_over(1) by auto
  have "work (a_tick alg a) = (if running a = None then work a else work a - 1) \<and>
    (running a \<noteq> None \<longrightarrow> 0 < work a)"
  proof (cases "running a")
    case None
    then have "\<forall>q \<in> set (procs a). condition q \<noteq> 2"
      using structuredD(8) [OF st] by (auto simp: in_set_conv_nth)
    then show ?thesis using None eq by (simp add: work_def a_tick_def cong: map_cong)
  next
    case (Some j)
    then have j: "j < length (procs a)" "condition (procs a ! j) = 2"
      using structuredD(4,8) [OF st] by auto
    have pos: "0 < left_over (procs a ! j)" using tick_left_over(2) bud j by auto
    have "map (\<lambda>q. if condition q = 2 then left_over q - 1 else left_over q) (procs a) =
        (map left_over (procs a))[j := left_over (procs a ! j) - 1]"
      using j structuredD(8) [OF st] Some by (intro nth_equalityI) (auto simp: nth_list_update)
    then have "work (a_tick alg a) = sum_list ((map left_over (procs a))[j := left_over (procs a ! j) - 1])"
      using eq by (simp add: work_def a_tick_def)
    also have "\<dots> = sum_list (map left_over (procs a)) + (left_over (procs a ! j) - 1) - left_over (procs a ! j)"
      using j by (subst sum_list_update) simp_all
    finally show ?thesis using Some pos elem_le_sum_list [of j "map left_over (procs a)"] j
      by (simp add: work_def)
  qed
  then show "work (a_tick alg a) = (if running a = None then work a else work a - 1)"
    and "running a \<noteq> None \<Longrightarrow> 0 < work a" by simp_all
qed

lemma work_before_dispatch: "work (a_admit (a_unblock (a_forward alg a))) = work a"
  by (simp add: work_def a_admit_map a_unblock_map a_forward_map)

lemma work_dispatch: "a_dispatch alg a = Inr b \<Longrightarrow> work b = work a"
  unfolding work_def using a_dispatch_map [of left_over alg a b] by simp


section \<open>A cycle makes progress\<close>

lemma a_dispatch_running:
  "a_dispatch alg a = Inr b \<Longrightarrow> running b = None \<Longrightarrow> b = a \<and> ready a = []"
  by (erule a_dispatch_Inr) simp_all

lemma a_unblock_idle:
  "ready (a_unblock a) = [] \<Longrightarrow> a_unblock a = a \<and> (\<forall>i \<in> set (blocked a). \<not> expired a i)"
  using find_None_iff [of "expired a" "blocked a"]
  by (cases "List.find (expired a) (blocked a)") (simp_all add: a_unblock_def)

lemma a_admit_idle:
  assumes "ready (a_admit a) = []"
  shows "ready a = [] \<and> procs (a_admit a) = procs a"
proof (cases "arrived a = of_nat (length (procs a))")
  case True
  with assms show ?thesis by (simp add: a_admit_def)
next
  case False
  then have "ready a = []" "arriving a = []" using assms by (simp_all add: a_admit_def a_arrive_def)
  then have "\<forall>q \<in> set (procs a). arr_A q \<noteq> clock a"
    by (auto simp: arriving_def filter_empty_conv in_set_conv_nth)
  then have "map (\<lambda>q. if arr_A q = clock a then q\<lparr>condition := 1\<rparr> else q) (procs a) = procs a"
    by (intro map_idI) auto
  with \<open>ready a = []\<close> False show ?thesis by (simp add: a_admit_def a_arrive_def)
qed

lemma sint_pos_pred:
  fixes x :: u32
  assumes "0 < sint x"
  shows "nat (sint (x - 1)) < nat (sint x)"
proof -
  have "sint x < 2 ^ 31" using sint_lt [of x] by simp
  then have "sint (x - 1) = sint x - 1"
    using assms by (simp add: sint_word_ariths signed_take_bit_int_eq_self)
  with assms show ?thesis by simp
qed

lemma timer_tick:
  assumes "condition q = 3 \<Longrightarrow> 0 < sint (BurstTime q)" and "condition q = 0 \<Longrightarrow> now < arr_A q"
  shows "timer (now + 1) (tick_process alg q) \<le> timer now q"
    and "condition q = 0 \<or> condition q = 3 \<Longrightarrow> timer (now + 1) (tick_process alg q) < timer now q"
proof -
  have *: "timer (now + 1) (tick_process alg q) < timer now q" if "condition q = 0 \<or> condition q = 3"
  proof (cases "condition q = 3")
    case True
    then show ?thesis using sint_pos_pred assms(1) by (simp add: timer_def tick_process_def)
  next
    case False
    then have "now < arr_A q" using that assms(2) by simp
    then have "unat now < unat (arr_A q)" by (simp add: word_less_nat_alt)
    moreover from this have "unat (now + 1) = unat now + 1"
      using unat_u32_bound [of "arr_A q"] by (intro unat_Suc_u32) simp
    ultimately show ?thesis using False that by (simp add: timer_def tick_process_def)
  qed
  then show "condition q = 0 \<or> condition q = 3 \<Longrightarrow> timer (now + 1) (tick_process alg q) < timer now q" .
  show "timer (now + 1) (tick_process alg q) \<le> timer now q"
    using * by (cases "condition q = 0 \<or> condition q = 3") (auto simp: timer_def tick_process_def)
qed

lemma unfinished_process:
  assumes st: "structured a" and "ready a = []" "running a = None"
    and "length (finished a) \<noteq> length (procs a)"
  obtains i where "i < length (procs a)" "condition (procs a ! i) = 0 \<or> condition (procs a ! i) = 3"
proof -
  have "filter (\<lambda>q. condition q = 4) (procs a) \<noteq> procs a"
    using st assms(4) by (auto simp: structured_def)
  then obtain q where "q \<in> set (procs a)" "condition q \<noteq> 4" by (auto simp: filter_id_conv)
  then obtain i where i: "i < length (procs a)" "condition (procs a ! i) \<noteq> 4"
    by (auto simp: in_set_conv_nth)
  moreover have "condition (procs a ! i) \<noteq> 1" "condition (procs a ! i) \<noteq> 2"
    using structuredD(6,8) [OF st i(1)] assms(2,3) by auto
  ultimately show thesis using structuredD(9) [OF st i(1)] that by auto
qed

lemma timers_decrease:
  assumes mid: "mid_inv True m" and idle: "ready m = []" "running m = None"
    and exp: "\<forall>i \<in> set (blocked m). \<not> expired m i"
    and un: "length (finished m) \<noteq> length (procs m)"
  shows "timers (a_tick alg m) < timers m"
proof -
  have st: "structured m" and ar: "arrival_ok True m" using mid by (simp_all add: mid_inv_def)
  have wait: "condition (procs m ! i) = 3 \<Longrightarrow> 0 < sint (BurstTime (procs m ! i))"
    "condition (procs m ! i) = 0 \<Longrightarrow> clock m < arr_A (procs m ! i)" if "i < length (procs m)" for i
  proof -
    show "condition (procs m ! i) = 3 \<Longrightarrow> 0 < sint (BurstTime (procs m ! i))"
      using structuredD(7) [OF st that] exp by (auto simp: expired_def)
    show "condition (procs m ! i) = 0 \<Longrightarrow> clock m < arr_A (procs m ! i)"
      using ar that by (auto simp: arrival_ok_def)
  qed
  obtain j where j: "j < length (procs m)" "condition (procs m ! j) = 0 \<or> condition (procs m ! j) = 3"
    by (rule unfinished_process [OF st idle un])
  show ?thesis
    unfolding timers_def
    by (rule sum_list_less [where j = j])
       (use j wait in \<open>auto simp: a_tick_def intro!: timer_tick\<close>)
qed

lemma a_admit_sel [simp]:
  "running (a_admit a) = running a" "blocked (a_admit a) = blocked a" "clock (a_admit a) = clock a"
  "finished (a_admit a) = finished a" "numbers (a_admit a) = numbers a"
  by (simp_all add: a_admit_def a_arrive_def)

lemma a_unblock_sel [simp]:
  "running (a_unblock a) = running a" "clock (a_unblock a) = clock a"
  "finished (a_unblock a) = finished a" "numbers (a_unblock a) = numbers a"
  by (simp_all add: a_unblock_def upd_proc_def split: option.splits)

lemma a_tick_sel [simp]:
  "running (a_tick alg a) = running a" "clock (a_tick alg a) = clock a + 1"
  "finished (a_tick alg a) = finished a" "numbers (a_tick alg a) = numbers a"
  by (simp_all add: a_tick_def)

theorem a_cycle_progress:
  assumes inv: "spec_inv a" and un: "length (finished a) \<noteq> length (procs a)"
    and cyc: "a_cycle alg a = Inr b"
  shows "(b, a) \<in> progress"
proof -
  define m where "m = a_admit (a_unblock (a_forward alg a))"
  obtain d where d: "a_dispatch alg m = Inr d" "b = a_tick alg d"
    using cyc by (auto simp: a_cycle_eq bindE_eq_Inr_iff m_def)
  have mid: "mid_inv True m" unfolding m_def by (rule before_dispatch_mid [OF inv])
  have work: "work d = work a"
    using work_dispatch [OF d(1)] by (simp add: m_def work_before_dispatch)
  have tw: "work (a_tick alg d) = (if running d = None then work d else work d - 1)"
    "running d \<noteq> None \<Longrightarrow> 0 < work d"
    using a_tick_work [OF a_dispatch_mid [OF mid d(1)]] by blast+
  show ?thesis
  proof (cases "running d = None")
    case False
    then show ?thesis using tw work d(2) by (auto simp: progress_def)
  next
    case True
    then have dm: "d = m" "ready m = []" using a_dispatch_running [OF d(1)] by auto
    show ?thesis
    proof (cases "running a = None")
      case False
      then show ?thesis using True tw work d(2) by (auto simp: progress_def)
    next
      case idle: True
      then have f: "a_forward alg a = a" by (simp add: a_forward_def)
      then have "ready (a_unblock a) = []" "procs m = procs (a_unblock a)"
        using a_admit_idle [of "a_unblock a"] dm(2) by (simp_all add: m_def)
      then have u: "a_unblock a = a" "\<forall>i \<in> set (blocked a). \<not> expired a i" "procs m = procs a"
        using a_unblock_idle [of a] by auto
      then have "timers (a_tick alg m) < timers m"
        using mid dm True un f by (intro timers_decrease) (simp_all add: m_def expired_def)
      then show ?thesis
        using True tw work d(2) dm idle u f by (simp add: progress_def timers_def m_def)
    qed
  qed
qed

section \<open>When a cycle cannot fail\<close>

definition supplied :: "aspec \<Rightarrow> bool" where
  \<comment> \<open>enough random numbers are left, and no process divides by zero\<close>
  "supplied a \<longleftrightarrow> work a \<le> lines_left (numbers a) \<and> (\<forall>q \<in> set (procs a). burst_B q \<noteq> 0)"

lemma burst_ok_static:
  assumes "map static xs = map static ys"
  shows "(\<forall>q \<in> set xs. burst_B q \<noteq> 0) \<longleftrightarrow> (\<forall>q \<in> set ys. burst_B q \<noteq> 0)"
proof -
  have *: "map burst_B zs = map (fst \<circ> snd) (map static zs)" for zs by (simp add: static_def)
  have "map burst_B xs = map burst_B ys" unfolding * assms ..
  then have "burst_B ` set xs = burst_B ` set ys" by (metis list.set_map)
  moreover have "(\<forall>q \<in> A. burst_B q \<noteq> 0) \<longleftrightarrow> 0 \<notin> burst_B ` A" for A by auto
  ultimately show ?thesis by metis
qed

lemma a_forward_sel [simp]: "numbers (a_forward alg a) = numbers a"
  by (simp add: a_forward_def Let_def upd_proc_def split: option.splits)

lemma ready_work:
  assumes "mid_inv True m" and "ready m \<noteq> []"
  shows "0 < work m"
proof -
  have st: "structured m" using assms(1) by (simp add: mid_inv_def)
  have i: "hd (ready m) < length (procs m)" "condition (procs m ! hd (ready m)) = 1"
    using structuredD(2,6) [OF st, of "hd (ready m)"] assms(2) by auto
  then have "budget True (procs m ! hd (ready m))" using assms(1) by (simp add: mid_inv_def)
  with i have "0 < left_over (procs m ! hd (ready m))" by (simp add: budget_def left_over_def)
  also have "\<dots> \<le> work m"
    unfolding work_def using i by (intro member_le_sum_list) auto
  finally show ?thesis .
qed

theorem a_cycle_supplied:
  assumes inv: "spec_inv a" and sup: "supplied a"
  shows "\<exists>b. a_cycle alg a = Inr b \<and> supplied b"
proof -
  define m where "m = a_admit (a_unblock (a_forward alg a))"
  have mid: "mid_inv True m" unfolding m_def by (rule before_dispatch_mid [OF inv])
  have w: "work m = work a" "numbers m = numbers a" "map static (procs m) = map static (procs a)"
    by (simp_all add: m_def work_before_dispatch a_admit_map a_unblock_map a_forward_map)
  have B: "\<forall>q \<in> set (procs m). burst_B q \<noteq> 0"
    using sup burst_ok_static [OF w(3)] by (simp add: supplied_def)
  have "\<exists>d. a_dispatch alg m = Inr d \<and>
    (running d = None \<longrightarrow> numbers d = numbers a) \<and>
    (running d \<noteq> None \<longrightarrow> numbers d = numbers a \<or> lines_left (numbers a) = Suc (lines_left (numbers d)))"
  proof (cases "running m \<noteq> None \<or> ready m = []")
    case True
    then show ?thesis using w by (simp add: a_dispatch_def)
  next
    case False
    then have "lines_left (numbers m) \<noteq> 0"
      using ready_work [OF mid] sup w by (simp add: supplied_def)
    then obtain x r where x: "read_number 20 (numbers m) = Inr (x, r)"
      "Suc (lines_left r) = lines_left (numbers m)" using read_number_lines by blast
    have "pick alg m < length (procs m)"
      using pick_in [of m alg] structuredD(2) [of m] mid False by (auto simp: mid_inv_def)
    then have "burst_B (procs m ! pick alg m) \<noteq> 0" using B by simp
    then obtain y where y: "new_burst x (burst_B (procs m ! pick alg m)) (procs m ! pick alg m) = Inr y"
      by (simp add: new_burst_def Let_def)
    have "running m = None" "ready m \<noteq> []" using False by simp_all
    then have "a_dispatch alg m = Inr ((upd_proc (pick alg m) (start_burst alg y) m)
        \<lparr>ready := remove1 (pick alg m) (ready m), numbers := r, running := Some (pick alg m)\<rparr>)"
      using x(1) y by (simp add: a_dispatch_def Let_def)
    with x(2) w(2) show ?thesis by simp
  qed
  then obtain d where d: "a_dispatch alg m = Inr d"
    "running d = None \<longrightarrow> numbers d = numbers a"
    "running d \<noteq> None \<longrightarrow> numbers d = numbers a \<or> lines_left (numbers a) = Suc (lines_left (numbers d))"
    by (elim exE conjE) (rule that)
  then have cyc: "a_cycle alg a = Inr (a_tick alg d)" by (simp add: a_cycle_eq m_def)
  have tw: "work (a_tick alg d) = (if running d = None then work d else work d - 1)"
    "running d \<noteq> None \<Longrightarrow> 0 < work d"
    using a_tick_work [OF a_dispatch_mid [OF mid d(1)]] by blast+
  have "work d = work a" using work_dispatch [OF d(1)] w by simp
  moreover have "work a \<le> lines_left (numbers a)" using sup by (simp add: supplied_def)
  ultimately have "work (a_tick alg d) \<le> lines_left (numbers (a_tick alg d))"
    using tw d(2,3) by (cases "running d = None") auto
  moreover have "\<forall>q \<in> set (procs (a_tick alg d)). burst_B q \<noteq> 0"
    using burst_ok_static [OF a_cycle_static [OF cyc]] sup by (simp add: supplied_def)
  ultimately show ?thesis using cyc by (auto simp: supplied_def)
qed


section \<open>The pass ends\<close>

lemma refines_done:
  "refines s a \<Longrightarrow> completion s = countPrime s \<longleftrightarrow> length (finished a) = length (procs a)"
  by (auto simp: refines_def word_unat_eq_iff)

theorem datapoints_returns:
  assumes "refines s a" and "spec_inv a" and "supplied a" and "fine alg s"
  shows "\<exists>t b. datapoints p alg s = Some (Inr t) \<and> refines t b \<and> spec_inv b \<and>
    length (finished b) = length (procs b) \<and> map static (procs b) = map static (procs a)"
proof -
  have "wf progress" by (simp add: progress_def)
  then show ?thesis
    using assms
  proof (induction a arbitrary: s rule: wf_induct_rule)
    case (less a)
    show ?case
    proof (cases "completion s = countPrime s")
      case True
      then have "datapoints p alg s = Some (Inr s)" by (simp add: datapoints.simps)
      then show ?thesis using less.prems True refines_done [OF less.prems(1)] by blast
    next
      case False
      obtain b where b: "a_cycle alg a = Inr b" "supplied b"
        using a_cycle_supplied [OF less.prems(2,3)] by blast
      then obtain t where t: "datapoint p alg s = Inr t" "refines t b"
        using datapoint_implements [OF less.prems(1,2,4), of p] by auto
      have "(b, a) \<in> progress" "spec_inv b"
        using False refines_done [OF less.prems(1)] less.prems(2) b(1)
        by (auto intro: a_cycle_progress a_cycle_inv)
      moreover have "fine alg t" by (rule datapoint_fine [OF less.prems(1,2,4) t(1)])
      ultimately obtain u c where "datapoints p alg t = Some (Inr u)" "refines u c" "spec_inv c"
        "length (finished c) = length (procs c)" "map static (procs c) = map static (procs b)"
        using less.IH [OF _ t(2) _ b(2)] by blast
      moreover have "datapoints p alg s = datapoints p alg t"
        using False t(1) by (simp add: datapoints.simps [of p alg s])
      ultimately show ?thesis using a_cycle_static [OF b(1)] by metis
    qed
  qed
qed

end
