(* ===== verification/Sched_Props.thy ===== *)
theory Sched_Props
  imports Sched_Live
begin

text \<open>
  Properties of a whole pass of lab3/scheduler.c, stated on the program's own states: the
  states reachable from a freshly reset one by cycles of \<open>datapoint\<close>, the run of
  \<open>datapoints\<close>, and the reset \<open>Extra\<close>. The invariants come from the abstract scheduler
  by refinement, for the disciplines first come first served, round robin and shortest
  job first, and for the uniprogrammed discipline 2 with a single process (\<open>fine\<close>); with more processes that
  discipline loses some of them, and crashes.
\<close>

section \<open>The state at the start of a pass\<close>

definition fresh_process :: "nat \<Rightarrow> process \<Rightarrow> bool" where
  "fresh_process i q \<longleftrightarrow> processID q = of_nat i \<and> condition q = 0 \<and> CPUTime q = 0 \<and> Btime q = 0 \<and>
     currentWaitingTime q = 0 \<and> total_C q \<noteq> 0 \<and> freshPrime q = None \<and> pushBlock q = None"

definition fresh_pass :: "sched \<Rightarrow> bool" where
  "fresh_pass s \<longleftrightarrow> length (Prime s) = unat (countPrime s) \<and>
     length (terminateAlg s) = length (Prime s) \<and>
     list_all2 fresh_process [0..<length (Prime s)] (Prime s) \<and>
     selection s = None \<and> present s = 0 \<and> totalPrime s = 0 \<and> completion s = 0 \<and>
     totalTimeNumber s = 0 \<and> Afront s = None \<and> Aback s = None \<and> placement s = 0 \<and>
     Blockfront s = None \<and> Blockback s = None \<and> BlockQ s = 0"

definition start_of :: "sched \<Rightarrow> aspec" where
  "start_of s = \<lparr>procs = map erase (Prime s), ready = [], blocked = [], running = None, clock = 0,
     arrived = 0, io_cycles = 0, finished = [], numbers = randomFile s\<rparr>"

lemma fresh_passD:
  assumes "fresh_pass s" and "i < length (Prime s)"
  shows "fresh_process i (Prime s ! i)"
  using assms by (auto simp: fresh_pass_def list_all2_conv_all_nth)

lemma fresh_pass_set: "fresh_pass s \<Longrightarrow> q \<in> set (Prime s) \<Longrightarrow> \<exists>i. fresh_process i q"
  by (metis fresh_passD in_set_conv_nth)

lemma fresh_lrep: "(\<And>i. i < length nx \<Longrightarrow> nx ! i = None) \<Longrightarrow> lrep nx None None 0 []"
  by (simp add: lrep_def lastp_def)

lemma fresh_refines: "fresh_pass s \<Longrightarrow> refines s (start_of s)"
  using fresh_passD [of s]
  by (auto simp: refines_def start_of_def ready_rep_def block_rep_def fresh_pass_def fresh_process_def
      intro!: fresh_lrep)

lemma fresh_inv:
  assumes f: "fresh_pass s"
  shows "spec_inv (start_of s)"
proof -
  have q: "condition q = 0" "CPUTime q = 0" "Btime q = 0" "currentWaitingTime q = 0" "total_C q \<noteq> 0"
    if "q \<in> set (Prime s)" for q
    using fresh_pass_set [OF f that] by (auto simp: fresh_process_def)
  have "length (Prime s) < 2 ^ 32" using f unat_u32_bound [of "countPrime s"] by (simp add: fresh_pass_def)
  then have "structured (start_of s)"
    using fresh_passD [OF f] q
    by (auto simp: structured_def start_of_def placed_def fresh_process_def filter_empty_conv)
  moreover have "arrival_ok False (start_of s)"
    using q by (auto simp: arrival_ok_def start_of_def filter_empty_conv)
  moreover have "\<forall>q \<in> set (procs (start_of s)). budget False q \<and> accounted 0 q"
    using q by (auto simp: start_of_def budget_def accounted_def unat_gt_0)
  ultimately show ?thesis by (auto simp: spec_inv_def start_of_def)
qed

section \<open>Reachable states\<close>

inductive cycle :: "u8 \<Rightarrow> u8 \<Rightarrow> sched \<Rightarrow> sched \<Rightarrow> bool" for p d where
  "completion s \<noteq> countPrime s \<Longrightarrow> datapoint p d s = Inr t \<Longrightarrow> cycle p d s t"

inductive_simps cycle_iff: "cycle p d s t"

definition good_state :: "sched \<Rightarrow> bool" where
  "good_state s \<longleftrightarrow> (\<exists>a. refines s a \<and> spec_inv a)"

lemma cycle_good:
  assumes "good_state s" "fine d s" "cycle p d s t"
  shows "good_state t \<and> fine d t"
proof -
  obtain a where a: "refines s a" "spec_inv a" "datapoint p d s = Inr t"
    using assms(1,3) by (auto simp: good_state_def cycle_iff)
  with datapoint_implements [OF a(1,2) assms(2), of p] obtain b where "a_cycle d a = Inr b" "refines t b"
    by (cases "a_cycle d a") auto
  with a_cycle_inv [OF a(2)] datapoint_fine [OF a(1,2) assms(2) a(3)] show ?thesis
    by (auto simp: good_state_def)
qed

interpretation sim: step_system "\<lambda>s. fresh_pass s \<and> fine d s" "cycle p d" "\<lambda>s. good_state s \<and> fine d s" for p d
proof unfold_locales
  fix s
  assume "fresh_pass s \<and> fine d s"
  then show "good_state s \<and> fine d s" using fresh_refines fresh_inv good_state_def by blast
qed (use cycle_good in blast)

lemma cycles_good:
  assumes "fresh_pass s" and "fine d s" and "(cycle p d)\<^sup>*\<^sup>* s t"
  shows "good_state t" "fine d t"
  using sim.inv_reachable [OF _ assms(3)] assms(1,2) by blast+

definition run_ends :: "u8 \<Rightarrow> u8 \<Rightarrow> sched \<Rightarrow> fault + sched \<Rightarrow> bool" where
  \<comment> \<open>how a run from \<open>s\<close> that gives \<open>r\<close> got there\<close>
  "run_ends p d s r \<longleftrightarrow> (\<exists>u. (cycle p d)\<^sup>*\<^sup>* s u \<and>
     (case r of Inr t \<Rightarrow> u = t \<and> completion t = countPrime t | Inl e \<Rightarrow> datapoint p d u = Inl e))"

lemma run_ends_step: "cycle p d s t \<Longrightarrow> run_ends p d t r \<Longrightarrow> run_ends p d s r"
  unfolding run_ends_def by (meson converse_rtranclp_into_rtranclp)

lemma datapoints_run: "datapoints p d s = Some r \<Longrightarrow> run_ends p d s r"
proof (erule datapoints.raw_induct [where P = run_ends, rotated])
  fix run p d s r
  assume IH: "\<And>p d s r. run p d s = Some r \<Longrightarrow> run_ends p d s r"
    and run: "(if completion s = countPrime s then Some (Inr s)
      else case datapoint p d s of Inl e \<Rightarrow> Some (Inl e) | Inr s \<Rightarrow> run p d s) = Some r"
  show "run_ends p d s r"
  proof (cases "completion s = countPrime s")
    case True
    then show ?thesis using run by (auto simp: run_ends_def)
  next
    case False
    show ?thesis
    proof (cases "datapoint p d s")
      case (Inl e)
      then have "r = Inl e" using run False by simp
      then show ?thesis using Inl unfolding run_ends_def by (intro exI [of _ s]) simp
    next
      case (Inr t)
      then have "run p d t = Some r" "cycle p d s t" using run False by (auto simp: cycle_iff)
      then show ?thesis using IH run_ends_step by blast
    qed
  qed
qed

lemma datapoints_Inr:
  "datapoints p d s = Some (Inr t) \<Longrightarrow> (cycle p d)\<^sup>*\<^sup>* s t \<and> completion t = countPrime t"
  using datapoints_run by (fastforce simp: run_ends_def)

lemma good_process:
  assumes "refines t a" and "spec_inv a" and "q \<in> set (Prime t)"
  shows "budget False q" and "accounted (present t) q"
proof -
  have "erase q \<in> set (procs a)" "clock a = present t" using assms(1,3) by (auto simp: refines_def)
  then have "budget False (erase q)" "accounted (present t) (erase q)"
    using assms(2) by (auto simp: spec_inv_def)
  then show "budget False q" "accounted (present t) q" by (simp_all add: budget_def accounted_def)
qed

lemma good_finished:
  assumes "refines t a" and "spec_inv a" and "completion t = countPrime t" and "q \<in> set (Prime t)"
  shows "condition q = 4"
proof -
  have "length (filter (\<lambda>q. condition q = 4) (procs a)) = length (procs a)"
    using assms(1-3) refines_done [OF assms(1)] by (simp add: spec_inv_def structured_def)
  then have "filter (\<lambda>q. condition q = 4) (procs a) = procs a"
    by (metis length_filter_less nat_less_le filter_True)
  then have "\<forall>q \<in> set (procs a). condition q = 4" by (simp add: filter_id_conv)
  moreover have "erase q \<in> set (procs a)" using assms(1,4) by (auto simp: refines_def)
  ultimately show ?thesis by fastforce
qed

lemma a_cycle_faults:
  assumes inv: "spec_inv a" and "a_cycle alg a = Inl e"
  shows "e = NullDeref \<and> numbers a = [] \<or> e = DivByZero \<and> (\<exists>q \<in> set (procs a). burst_B q = 0)"
proof -
  define m where "m = a_admit (a_unblock (a_forward alg a))"
  have mid: "mid_inv True m" unfolding m_def by (rule before_dispatch_mid [OF inv])
  have w: "numbers m = numbers a" "map static (procs m) = map static (procs a)"
    by (simp_all add: m_def a_admit_map a_unblock_map a_forward_map)
  have d: "a_dispatch alg m = Inl e"
    using assms(2) by (simp add: a_cycle_eq m_def bindE_def split: sum.splits)
  then have r: "ready m \<noteq> []" by (auto simp: a_dispatch_def)
  then have "pick alg m < length (procs m)"
    using pick_in [of m alg] structuredD(2) [of m] mid by (auto simp: mid_inv_def)
  then have "burst_B (procs m ! pick alg m) = 0 \<Longrightarrow> \<exists>q \<in> set (procs a). burst_B q = 0"
    using burst_ok_static [OF w(2)] nth_mem by metis
  moreover have "e = NullDeref \<and> numbers m = [] \<or> e = DivByZero \<and> burst_B (procs m ! pick alg m) = 0"
    using d by (auto simp: a_dispatch_def Let_def read_number_def fgets_def new_burst_def
        split: if_splits prod.splits)
  ultimately show ?thesis using w(1) by auto
qed

section \<open>A run of one pass\<close>

definition one_job :: sched where
  \<comment> \<open>one process that arrives at once and needs two cycles, and three random numbers\<close>
  "one_job = (initial_sched [new_process 0 0 1 2 1 1])
     \<lparr>terminateAlg := [None], randomFile := ''1'' @ [newline] @ ''1'' @ [newline] @ ''1''\<rparr>"

lemma one_job_fresh: "fresh_pass one_job"
  by code_simp

lemma one_job_burst: "\<forall>q \<in> set (Prime one_job). burst_B q \<noteq> 0"
  by code_simp

lemma one_job_supply:
  "(\<Sum>q \<leftarrow> Prime one_job. unat (total_C q)) \<le> lines_left (randomFile one_job)"
  by code_simp

lemma fresh_supplied:
  assumes "fresh_pass s" and "\<forall>q \<in> set (Prime s). burst_B q \<noteq> 0"
    and "(\<Sum>q \<leftarrow> Prime s. unat (total_C q)) \<le> lines_left (randomFile s)"
  shows "supplied (start_of s)"
proof -
  have "map left_over (procs (start_of s)) = map (\<lambda>q. unat (total_C q)) (Prime s)"
    using fresh_pass_set [OF assms(1)]
    by (auto simp: start_of_def left_over_def fresh_process_def)
  then show ?thesis
    using assms(2,3) by (simp add: supplied_def work_def) (simp add: start_of_def)
qed

text \<open>
  C2: A pass of first come first served, round robin or shortest job first, or of the uniprogrammed
  discipline with a single process, always ends: from a
  freshly reset state in which no process has a zero burst bound, every process asks for some processor
  time (part of \<open>fresh_pass\<close>), and with at least as many
  random numbers in the file as the processes have cycles of work, \<open>datapoints\<close> returns
  without a fault, with every process terminated.
\<close>
theorem pass_returns:
  assumes "fresh_pass s" and "fine d s" and "\<forall>q \<in> set (Prime s). burst_B q \<noteq> 0"
    and "(\<Sum>q \<leftarrow> Prime s. unat (total_C q)) \<le> lines_left (randomFile s)"
  shows "\<exists>t. datapoints p d s = Some (Inr t) \<and> completion t = countPrime t \<and>
    (\<forall>q \<in> set (Prime t). condition q = 4)"
proof -
  have "supplied (start_of s)" by (rule fresh_supplied [OF assms(1,3,4)])
  then obtain t b where t: "datapoints p d s = Some (Inr t)" "refines t b" "spec_inv b"
    using datapoints_returns [OF fresh_refines fresh_inv] assms(1,2) by blast
  then show ?thesis using datapoints_Inr [OF t(1)] good_finished [OF t(2,3)] by blast
qed

lemma pass_returns_witness:
  "\<exists>t. datapoints 1 3 one_job = Some (Inr t) \<and> completion t = countPrime t \<and>
    (\<forall>q \<in> set (Prime t). condition q = 4)"
  by (rule pass_returns [OF one_job_fresh _ one_job_burst one_job_supply]) simp

text \<open>
  C3: What the reports print adds up: when a pass of first come first served, round robin or shortest job first, or of
  the uniprogrammed discipline with a single process, in which every process asks for some time, has ended, every process has had exactly the
  processor time it asked for, and its turnaround time is that time plus the cycles it was
  blocked plus the cycles it waited.
\<close>
theorem pass_accounts:
  assumes "fresh_pass s" and "fine d s" and "datapoints p d s = Some (Inr t)" and "q \<in> set (Prime t)"
  shows "condition q = 4 \<and> CPUTime q = total_C q \<and>
    finishingTime q - arr_A q = total_C q + Btime q + currentWaitingTime q"
proof -
  have "good_state t" using cycles_good(1) assms datapoints_Inr by blast
  then obtain a where a: "refines t a" "spec_inv a" by (auto simp: good_state_def)
  have c: "condition q = 4" using good_finished [OF a] assms datapoints_Inr by blast
  then show ?thesis using good_process [OF a assms(4)] by (auto simp: budget_def accounted_def)
qed

lemma pass_accounts_witness:
  "\<exists>t. datapoints 2 1 one_job = Some (Inr t) \<and> (\<forall>q \<in> set (Prime t).
     finishingTime q - arr_A q = total_C q + Btime q + currentWaitingTime q)"
proof -
  have "map left_over (procs (start_of one_job)) = [2]" "lines_left (numbers (start_of one_job)) = 3"
    "\<forall>q \<in> set (procs (start_of one_job)). burst_B q \<noteq> 0" by code_simp+
  then have "supplied (start_of one_job)" by (simp add: supplied_def work_def)
  then obtain t where "datapoints 2 1 one_job = Some (Inr t)"
    using datapoints_returns [OF fresh_refines [OF one_job_fresh] fresh_inv [OF one_job_fresh], of 1 2]
    by auto
  then show ?thesis using pass_accounts [OF one_job_fresh, of 1 2] by auto
qed

section \<open>Every reachable state\<close>

definition in_place :: "sched \<Rightarrow> nat list \<Rightarrow> nat list \<Rightarrow> nat \<Rightarrow> bool" where
  \<comment> \<open>process \<open>i\<close> is where its condition says, given the ready queue and the blocked list\<close>
  "in_place s rs bs i \<longleftrightarrow> (let c = condition (Prime s ! i) in
     (c = 1 \<longleftrightarrow> i \<in> set rs) \<and> (c = 3 \<longleftrightarrow> i \<in> set bs) \<and> (c = 2 \<longleftrightarrow> selection s = Some i) \<and>
     c \<in> {0, 1, 2, 3, 4})"

text \<open>
  C4: In every state that a pass of first come first served, round robin or shortest job first, or of the uniprogrammed
  discipline with a single process, in which every process asks for some time, reaches, the linked lists are sound and agree with the processes: the ready queue and the
  blocked list are acyclic chains whose tail pointers and counters are right, no process
  is in one twice, a process is on exactly the list that its \<open>condition\<close> names, the one
  process that is running is \<open>selection\<close>, and \<open>completion\<close> counts the terminated ones.
\<close>
theorem pass_structure:
  assumes "fresh_pass s" and "fine d s" and "(cycle p d)\<^sup>*\<^sup>* s t"
  shows "\<exists>rs bs. ready_rep t rs \<and> block_rep t bs \<and> distinct (rs @ bs) \<and>
    (\<forall>i < length (Prime t). in_place t rs bs i) \<and>
    unat (completion t) = length (filter (\<lambda>q. condition q = 4) (Prime t))"
proof -
  obtain a where r: "refines t a" and inv: "spec_inv a"
    using cycles_good(1) [OF assms] by (auto simp: good_state_def)
  have st: "structured a" using inv by (simp add: spec_inv_def)
  have "in_place t (ready a) (blocked a) i" if i: "i < length (Prime t)" for i
    using r st i by (auto simp: refines_def structured_def placed_def in_place_def Let_def)
  moreover have "set (ready a) \<inter> set (blocked a) = {}"
    using structuredD(2,6,7) [OF st] by fastforce
  moreover have "unat (completion t) = length (filter (\<lambda>q. condition q = 4) (Prime t))"
    using r st by (simp add: refines_def structured_def filter_map comp_def)
  ultimately show ?thesis using r st unfolding refines_def structured_def
    by (intro exI [of _ "ready a"] exI [of _ "blocked a"]) auto
qed

lemma pass_structure_witness:
  "\<exists>t rs bs. datapoint 1 0 one_job = Inr t \<and> ready_rep t rs \<and> block_rep t bs \<and> distinct (rs @ bs)"
proof -
  have "completion one_job \<noteq> countPrime one_job" by code_simp
  moreover obtain t where t: "datapoint 1 0 one_job = Inr t"
  proof -
    have "(case datapoint 1 0 one_job of Inl e \<Rightarrow> False | Inr t \<Rightarrow> True)" by code_simp
    then show thesis using that by (auto split: sum.splits)
  qed
  ultimately have "(cycle 1 0)\<^sup>*\<^sup>* one_job t" by (auto simp: cycle_iff)
  from pass_structure [OF one_job_fresh _ this] t show ?thesis by auto
qed

text \<open>
  C9: A cycle of a pass of first come first served, round robin or shortest job first, or of the uniprogrammed
  discipline with a single process, in which every process asks for some time, can fail in two ways only: by asking for a random number when the file
  has been read to its end (\<open>atoi\<close> of a null pointer), or by dividing by a burst bound that
  is zero. No queue operation ever follows a null or dangling pointer, and no walk along a
  list runs for ever.
\<close>
theorem pass_faults:
  assumes "fresh_pass s" and "fine d s" and "(cycle p d)\<^sup>*\<^sup>* s t" and "datapoint p d t = Inl e"
  shows "e = NullDeref \<and> randomFile t = [] \<or> e = DivByZero \<and> (\<exists>q \<in> set (Prime t). burst_B q = 0)"
proof -
  obtain a where r: "refines t a" and inv: "spec_inv a"
    using cycles_good(1) [OF assms(1-3)] by (auto simp: good_state_def)
  have "a_cycle d a = Inl e"
    using datapoint_implements [OF r inv cycles_good(2) [OF assms(1-3)], of p] assms(4) by (cases "a_cycle d a") auto
  then have "e = NullDeref \<and> numbers a = [] \<or> e = DivByZero \<and> (\<exists>q \<in> set (procs a). burst_B q = 0)"
    by (rule a_cycle_faults [OF inv])
  then show ?thesis using r by (auto simp: refines_def)
qed

lemma pass_faults_witness:
  "datapoint 1 0 (one_job\<lparr>randomFile := []\<rparr>) = Inl NullDeref \<and>
   (NullDeref = NullDeref \<and> randomFile (one_job\<lparr>randomFile := []\<rparr>) = [] \<or>
    NullDeref = DivByZero \<and> (\<exists>q \<in> set (Prime (one_job\<lparr>randomFile := []\<rparr>)). burst_B q = 0))"
proof
  have f: "fresh_pass (one_job\<lparr>randomFile := []\<rparr>)" by code_simp
  show d: "datapoint 1 0 (one_job\<lparr>randomFile := []\<rparr>) = Inl NullDeref" by code_simp
  show "NullDeref = NullDeref \<and> randomFile (one_job\<lparr>randomFile := []\<rparr>) = [] \<or>
    NullDeref = DivByZero \<and> (\<exists>q \<in> set (Prime (one_job\<lparr>randomFile := []\<rparr>)). burst_B q = 0)"
    by (rule pass_faults [OF f _ rtranclp.rtrancl_refl d]) simp
qed

section \<open>Shortest job first\<close>

lemma first_min_split:
  assumes "xs \<noteq> []"
  obtains us vs where "xs = us @ first_min f xs # vs" "\<forall>k \<in> set us. f (first_min f xs) < f k"
    "\<forall>k \<in> set vs. f (first_min f xs) \<le> (f k :: 'b::linorder)"
proof -
  let ?P = "\<lambda>i. \<forall>j \<in> set xs. f i \<le> f j"
  have "filter ?P xs \<noteq> []" by (rule minimal_nonempty [OF assms])
  then obtain m ms where "filter ?P xs = m # ms" by (cases "filter ?P xs") auto
  moreover from this obtain us vs where u: "xs = us @ m # vs" "\<forall>u \<in> set us. \<not> ?P u" "?P m"
    unfolding filter_eq_Cons_iff by auto
  ultimately have m: "first_min f xs = m" by (simp add: first_min_def)
  have "f m < f k" if "k \<in> set us" for k
    using u(2,3) that by (meson dual_order.trans not_le_imp_less)
  with u m show thesis by (intro that [of us vs]) auto
qed

definition cycles_left :: "sched \<Rightarrow> nat \<Rightarrow> u32" where
  "cycles_left s i = total_C (Prime s ! i) - CPUTime (Prime s ! i)"

text \<open>
  C10: Shortest job first dispatches the process of least remaining time that comes first in the
  ready queue: everything before it has strictly more time left, everything after it at least
  as much. It becomes \<open>selection\<close>, leaves the queue with the order of the others unchanged,
  wherever in the queue it was, and its burst is at least 1 and exceeds neither its bound
  nor its remaining time. Among processes with equally little time left it is thus the one that was queued first,
  not the one of earliest arrival, as lab3_documentation.pdf asks in section 3.2.
\<close>
theorem sjf_shortest:
  assumes r: "refines s a" and mid: "mid_inv True a" and ne: "ready a \<noteq> []" "running a = None"
    and d: "dispatch_sjf p s = Inr t"
  shows "\<exists>us j vs. ready a = us @ j # vs \<and> selection t = Some j \<and> ready_rep t (us @ vs) \<and>
    (\<forall>k \<in> set us. cycles_left s j < cycles_left s k) \<and> (\<forall>k \<in> set vs. cycles_left s j \<le> cycles_left s k) \<and>
    CPUBurst (Prime t ! j) \<noteq> 0 \<and> CPUBurst (Prime t ! j) \<le> burst_B (Prime s ! j) \<and>
    CPUBurst (Prime t ! j) \<le> cycles_left s j"
proof -
  have st: "structured a" using mid by (simp add: mid_inv_def)
  obtain b where b: "a_dispatch 3 a = Inr b" "refines t b"
    using dispatch_sjf_refines [OF r st ne, of p] d by (cases "a_dispatch 3 a") auto
  let ?j = "pick 3 a"
  have j: "?j \<in> set (ready a)" "?j < length (procs a)"
    using pick_in [OF ne(1)] structuredD(2) [OF st] by blast+
  have pa: "procs a ! i = erase (Prime s ! i)" if "i < length (procs a)" for i
    using refines_nth [OF r] refines_length [OF r] that by simp
  have left: "remaining a k = cycles_left s k" if "k \<in> set (ready a)" for k
    using pa structuredD(2) [OF st that] by (simp add: remaining_def cycles_left_def)
  obtain us vs where uv: "ready a = us @ ?j # vs" "\<forall>k \<in> set us. remaining a ?j < remaining a k"
    "\<forall>k \<in> set vs. remaining a ?j \<le> remaining a k"
    using first_min_split [OF ne(1), of "remaining a"] by (auto simp: pick_def first_min_def)
  from b(1) ne obtain x rest y where go:
    "new_burst x (burst_B (procs a ! ?j)) (procs a ! ?j) = Inr y"
    "b = (upd_proc ?j (start_burst 3 y) a)
      \<lparr>ready := remove1 ?j (ready a), numbers := rest, running := Some ?j\<rparr>"
    by (auto elim: a_dispatch_Inr)
  have "distinct (ready a)" using st by (simp add: structured_def)
  then have "remove1 ?j (ready a) = us @ vs" using uv(1) by (metis distinct_append distinct.simps(2)
        Un_iff disjoint_iff list.set_intros(1) remove1_append remove1.simps(2))
  then have t: "ready_rep t (us @ vs)" "selection t = Some ?j"
    using b(2) go(2) by (simp_all add: refines_def)
  have jt: "?j < length (Prime t)" using refines_length [OF b(2)] go(2) j by (simp add: upd_proc_def)
  have y: "CPUBurst (Prime t ! ?j) = y"
    using refines_nth [OF b(2) jt] go(2) j by (simp add: upd_proc_def) (metis erase_sel(12) start_burst_sel(8))
  have "budget True (procs a ! ?j)" "condition (procs a ! ?j) = 1"
    using mid j structuredD(6) [OF st j(2)] by (auto simp: mid_inv_def)
  then have less: "unat (CPUTime (procs a ! ?j)) < unat (total_C (procs a ! ?j))" by (simp add: budget_def)
  note nb = new_burst_bounds [OF go(1) less]
  have "y \<le> cycles_left s ?j"
    unfolding left [OF j(1), symmetric]
    using nb(3) less by (simp add: remaining_def word_le_nat_alt unat_sub word_less_nat_alt)
  moreover have "y \<le> burst_B (Prime s ! ?j)" using nb(2) pa [OF j(2)] by (simp add: word_le_nat_alt)
  ultimately show ?thesis using uv t y nb(1) left uv(1) by (intro exI [of _ us] exI [of _ ?j] exI [of _ vs]) auto
qed

lemma sjf_shortest_witness:
  "\<exists>s t j. creation one_job = Inr s \<and> dispatch_sjf 1 s = Inr t \<and> selection t = Some j \<and>
    CPUBurst (Prime t ! j) \<le> cycles_left s j"
proof -
  let ?a = "a_arrive (start_of one_job)"
  have mid: "mid_inv True ?a"
  proof (rule a_arrive_mid)
    show "mid_inv False (start_of one_job)"
      using a_forward_mid [OF fresh_inv [OF one_job_fresh], of 3]
      by (simp add: a_forward_def start_of_def)
    show "arrived (start_of one_job) \<noteq> of_nat (length (procs (start_of one_job)))" by code_simp
  qed
  obtain s where s: "creation one_job = Inr s" "refines s ?a"
    using creation_refines [OF fresh_refines [OF one_job_fresh]]
    by (auto simp: start_of_def one_job_def initial_sched_def)
  have ne: "ready ?a \<noteq> []" "running ?a = None" by code_simp+
  have "(case a_dispatch 3 ?a of Inl e \<Rightarrow> False | Inr t \<Rightarrow> True)" by code_simp
  then obtain b where "a_dispatch 3 ?a = Inr b" by (auto split: sum.splits)
  then obtain t where "dispatch_sjf 1 s = Inr t"
    using dispatch_sjf_refines [OF s(2) _ ne, of 1] mid by (auto simp: mid_inv_def)
  with sjf_shortest [OF s(2) mid ne this] s(1) show ?thesis by blast
qed

section \<open>Unblocking\<close>

text \<open>
  C25: \<open>execxuteB\<close> looks through the blocked list in order and moves the first process whose
  device is done to the back of the ready queue. It is the only one moved in this cycle even if
  others are done too, because moving it clears the link the loop follows next.
\<close>
theorem unblock_first_only:
  assumes r: "refines s a" and st: "structured a"
  shows "\<exists>t. execxuteB s = Inr t \<and> (case List.find (expired a) (blocked a) of
      None \<Rightarrow> ready_rep t (ready a) \<and> block_rep t (blocked a)
    | Some i \<Rightarrow> ready_rep t (ready a @ [i]) \<and> block_rep t (remove1 i (blocked a)) \<and>
        condition (Prime t ! i) = 1)"
proof -
  obtain t where t: "execxuteB s = Inr t" "refines t (a_unblock a)"
    using execxuteB_refines [OF r st] by blast
  show ?thesis
  proof (cases "List.find (expired a) (blocked a)")
    case None
    with t show ?thesis by (simp add: a_unblock_def refines_def)
  next
    case (Some i)
    then have "i \<in> set (blocked a)" by (auto simp: find_Some_iff)
    then have i: "i < length (procs a)" by (rule structuredD(3) [OF st])
    then have "i < length (Prime t)"
      using refines_length [OF t(2)] Some by (simp add: a_unblock_def upd_proc_def)
    from refines_nth [OF t(2) this] have "condition (Prime t ! i) = 1"
      using Some i by (simp add: a_unblock_def upd_proc_def) (metis erase_sel(6) process.select_convs(6)
          process.surjective process.update_convs(6))
    with t Some show ?thesis by (simp add: a_unblock_def refines_def upd_proc_def)
  qed
qed

definition two_done :: sched where
  \<comment> \<open>two blocked processes whose devices are done\<close>
  "two_done = (let q = (new_process 0 0 1 2 1 1)\<lparr>condition := 3, BurstTime := 0, Btime := 5\<rparr> in
     (initial_sched [q\<lparr>pushBlock := Some 1\<rparr>, q\<lparr>processID := 1\<rparr>])
       \<lparr>terminateAlg := [None, None], present := 5, totalPrime := 2,
         Blockfront := Some 0, Blockback := Some 1, BlockQ := 2\<rparr>)"

definition two_done_spec :: aspec where
  "two_done_spec = (start_of two_done)\<lparr>blocked := [0, 1], clock := 5, arrived := 2\<rparr>"

lemma unblock_first_only_witness:
  "\<exists>t. execxuteB two_done = Inr t \<and> ready_rep t [0] \<and> block_rep t [1] \<and>
    unat (BlockQ t) = 1"
proof -
  have r: "refines two_done two_done_spec"
    by (simp add: refines_def two_done_def two_done_spec_def start_of_def initial_sched_def
        new_process_def Let_def ready_rep_def block_rep_def lrep_def lastp_def less_2_cases_iff less_Suc_eq)
  have st: "structured two_done_spec"
    by (simp add: structured_def placed_def two_done_def two_done_spec_def start_of_def initial_sched_def
        new_process_def Let_def less_2_cases_iff less_Suc_eq)
  have "List.find (expired two_done_spec) (blocked two_done_spec) = Some 0" by code_simp
  then obtain t where t: "execxuteB two_done = Inr t" "ready_rep t [0]" "block_rep t [1]"
    using unblock_first_only [OF r st] by (auto simp: two_done_spec_def start_of_def)
  moreover from t(3) have "unat (BlockQ t) = 1" by (simp add: block_rep_def lrep_def)
  ultimately show ?thesis by blast
qed

section \<open>The queues are first in, first out\<close>

text \<open>
  The ready queue is a queue: processes put into an empty ready queue with \<open>Qsetup\<close> come out
  of as many calls of \<open>dsetup\<close> in the same order, and leave it empty, with its pointers and
  counter consistent.
\<close>
theorem ready_fifo:
  assumes "ready_rep s []" and "length (Prime s) < 2 ^ 32" and "distinct cs"
    and "\<forall>c \<in> set cs. c < length (Prime s)"
  shows "\<exists>t u. foldE (\<lambda>c. Qsetup (Some c)) cs s = Inr t \<and>
    rq.drain (length cs) t = Inr (cs, u) \<and> ready_rep u []"
  using rq.fifo_order [of s cs] assms by (auto simp: ready_queue_def)

lemma ready_fifo_witness:
  "\<exists>t u. foldE (\<lambda>c. Qsetup (Some c)) [1, 0] two_done = Inr t \<and>
    rq.drain (length [1 :: nat, 0]) t = Inr ([1, 0], u) \<and> ready_rep u []"
proof -
  have r: "ready_rep two_done []"
    by (simp add: two_done_def initial_sched_def new_process_def Let_def ready_rep_def lrep_def lastp_def
        less_2_cases_iff less_Suc_eq)
  have len: "length (Prime two_done) = 2" by code_simp
  show ?thesis by (rule ready_fifo [OF r]) (simp_all add: len)
qed

section \<open>The uniprogrammed discipline\<close>

text \<open>
  The first process that is put into the empty paused queue takes the ready queue with it:
  \<open>pauseQue\<close> then sets the head of the ready queue to its tail. Of a ready queue
  with \<open>n\<close> processes only the last can be reached from the head afterwards, although the counter still
  says \<open>n\<close>.
\<close>
theorem pause_drops_ready:
  assumes "ready_rep s (xs @ [y])" and "PauseQ s = 0"
  shows "\<exists>t. pauseQue (Some c) s = Inr t \<and> unat (placement t) = Suc (length xs) \<and>
    chain (\<lambda>i. freshPrime (Prime t ! i)) (Afront t) [y]"
proof -
  let ?t = "s\<lparr>Pausefront := Some c, Pauseback := Some c, Afront := Aback s, PauseQ := PauseQ s + 1\<rparr>"
  have l: "lrep (map freshPrime (Prime s)) (Afront s) (Aback s) (placement s) (xs @ [y])"
    using assms(1) by (simp add: ready_rep_def)
  then have y: "y < length (Prime s)" by (simp add: lrep_def)
  have "freshPrime (Prime s ! y) = None" using lrep_last_next [OF l] y by simp
  moreover have "Aback s = Some y" "unat (placement s) = Suc (length xs)"
    using l by (simp_all add: lrep_def)
  moreover have "pauseQue (Some c) s = Inr ?t" using assms(2) by (simp add: pauseQue_def)
  ultimately show ?thesis by (intro exI [of _ ?t]) simp
qed

lemma pause_drops_ready_witness:
  "\<exists>s t u. Qsetup (Some 1) (two_done\<lparr>Afront := Some 0, Aback := Some 0, placement := 1\<rparr>) = Inr s \<and>
    Afront s = Some 0 \<and> pauseQue (Some 0) s = Inr t \<and> unat (placement t) = 2 \<and> Afront t = Some 1"
proof -
  let ?s0 = "two_done\<lparr>Afront := Some 0, Aback := Some 0, placement := 1\<rparr>"
  have r0: "ready_rep ?s0 [0]"
    by (simp add: two_done_def initial_sched_def new_process_def Let_def ready_rep_def lrep_def lastp_def
        less_2_cases_iff less_Suc_eq)
  have len: "length (Prime ?s0) = 2" by code_simp
  obtain s where s: "Qsetup (Some 1) ?s0 = Inr s" "ready_rep s ([0] @ [1])"
    "(\<forall>d. (d < length (Prime s)) = (d < length (Prime ?s0)))"
    using rq.enq_rep [of ?s0 "[0]" 1] r0 len by (auto simp: ready_queue_def)
  have "(case Qsetup (Some 1) ?s0 of Inl e \<Rightarrow> False | Inr s \<Rightarrow> PauseQ s = 0 \<and> Afront s = Some 0)"
    by code_simp
  then have "PauseQ s = 0" "Afront s = Some 0" using s(1) by simp_all
  with pause_drops_ready [OF s(2), of 0] s(1) show ?thesis by auto
qed

section \<open>The reset between the passes\<close>

definition parameters :: "process \<Rightarrow> u32 \<times> u32 \<times> u32 \<times> u32" where
  "parameters q = (arr_A q, burst_B q, total_C q, mult_M q)"

lemma reset_one_eq:
  assumes "k < length (Prime s)" and "ranomize (burst_B (Prime s ! k)) f = Inr (x, f')"
    and "processID (Prime s ! k) = of_nat k"
  shows "\<exists>q. reset_one k (f, s) = Inr (f', s\<lparr>Prime := (Prime s)[k := q]\<rparr>) \<and>
    quantum_update (\<lambda>_. 2) q = new_process k (arr_A (Prime s ! k)) (burst_B (Prime s ! k))
      (total_C (Prime s ! k)) (mult_M (Prime s ! k)) x"
  using assms by (auto simp: reset_one_def new_process_def)

lemma reset_loop:
  assumes "\<forall>i < length (Prime s). processID (Prime s ! i) = of_nat i" and "k \<le> length (Prime s)"
    and "read_processes k (map parameters (drop k (Prime s))) f = Inr ps"
  shows "\<exists>f' qs. foldE reset_one [k..<length (Prime s)] (f, s) =
      Inr (f', s\<lparr>Prime := take k (Prime s) @ qs\<rparr>) \<and> map (quantum_update (\<lambda>_. 2)) qs = ps"
  using assms
proof (induction "length (Prime s) - k" arbitrary: k s f ps)
  case 0
  then show ?case by auto
next
  case (Suc n)
  then have k: "k < length (Prime s)" by simp
  let ?q = "Prime s ! k"
  have d: "drop k (Prime s) = ?q # drop (Suc k) (Prime s)" using k by (simp add: Cons_nth_drop_Suc)
  with Suc.prems(3) obtain x f1 rest where x: "ranomize (burst_B ?q) f = Inr (x, f1)"
    and rest: "read_processes (Suc k) (map parameters (drop (Suc k) (Prime s))) f1 = Inr rest"
    and ps: "ps = new_process k (arr_A ?q) (burst_B ?q) (total_C ?q) (mult_M ?q) x # rest"
    by (auto simp: parameters_def bindE_eq_Inr_iff)
  obtain q where q: "reset_one k (f, s) = Inr (f1, s\<lparr>Prime := (Prime s)[k := q]\<rparr>)"
    "quantum_update (\<lambda>_. 2) q = new_process k (arr_A ?q) (burst_B ?q) (total_C ?q) (mult_M ?q) x"
    using reset_one_eq [OF k x] Suc.prems(1) k by blast
  have "processID (quantum_update (\<lambda>_. 2) q) = of_nat k" unfolding q(2) by (simp add: new_process_def)
  then have "processID q = of_nat k" by simp
  then have ids: "\<forall>i < length (Prime s). processID ((Prime s)[k := q] ! i) = of_nat i"
    using Suc.prems(1) k by (auto simp: nth_list_update)
  let ?s1 = "s\<lparr>Prime := (Prime s)[k := q]\<rparr>"
  have "\<exists>f' qs. foldE reset_one [Suc k..<length (Prime ?s1)] (f1, ?s1) =
      Inr (f', ?s1\<lparr>Prime := take (Suc k) (Prime ?s1) @ qs\<rparr>) \<and> map (quantum_update (\<lambda>_. 2)) qs = rest"
    using Suc.hyps k ids rest by (intro Suc.hyps(1)) simp_all
  then obtain f' qs where "foldE reset_one [Suc k..<length (Prime s)] (f1, ?s1) =
      Inr (f', s\<lparr>Prime := take (Suc k) ((Prime s)[k := q]) @ qs\<rparr>)"
    "map (quantum_update (\<lambda>_. 2)) qs = rest" by auto
  moreover have "take (Suc k) ((Prime s)[k := q]) = take k (Prime s) @ [q]"
    using k by (simp add: take_Suc_conv_app_nth)
  ultimately show ?case
    using q k ps by (intro exI [of _ f'] exI [of _ "q # qs"]) (simp add: upt_conv_Cons)
qed

lemma reset_state:
  assumes "length (Prime s) = unat (countPrime s)"
    and "\<forall>i < length (Prime s). processID (Prime s ! i) = of_nat i"
    and "read_processes 0 (map parameters (Prime s)) random_numbers = Inr ps"
  shows "\<exists>t. Extra random_numbers s = Inr t \<and> map (quantum_update (\<lambda>_. 2)) (Prime t) = ps \<and>
    t = (reset_globals s)\<lparr>Prime := Prime t\<rparr>"
proof -
  let ?s = "reset_globals s"
  have P: "Prime ?s = Prime s" by (simp add: reset_globals_def)
  obtain f' qs where "foldE reset_one [0..<length (Prime ?s)] (random_numbers, ?s) =
      Inr (f', ?s\<lparr>Prime := take 0 (Prime ?s) @ qs\<rparr>)" "map (quantum_update (\<lambda>_. 2)) qs = ps"
    using reset_loop [of ?s 0 random_numbers ps] assms(2,3) P by auto
  then show ?thesis using assms(1) P by (auto simp: Extra_def)
qed

text \<open>
  \<open>Extra\<close> takes a pass back to its start: whatever state the processes are in, it gives them
  the values that \<open>main\<close> gave them when it read the input, drawn from the random-number file
  again, and resets every global of the simulation. Only the round robin quantum is left.
\<close>
theorem reset_restores:
  assumes "length (Prime s) = unat (countPrime s)"
    and "\<forall>i < length (Prime s). processID (Prime s ! i) = of_nat i"
    and "read_processes 0 (map parameters (Prime s)) random_numbers = Inr ps"
  shows "\<exists>t. Extra random_numbers s = Inr t \<and> map (quantum_update (\<lambda>_. 2)) (Prime t) = ps \<and>
    t = (reset_globals s)\<lparr>Prime := Prime t\<rparr>"
  by (rule reset_state [OF assms])

lemma reset_restores_witness:
  "\<exists>t. Extra (''7'' @ [newline]) two_done = Inl NullDeref \<and>
     Extra (''7'' @ [newline] @ ''8'') two_done = Inr t \<and>
     map condition (Prime t) = [0, 0] \<and> map Btime (Prime t) = [0, 0]"
proof -
  let ?f = "''7'' @ [newline] @ ''8''"
  have bad: "Extra (''7'' @ [newline]) two_done = Inl NullDeref" by code_simp
  have l: "length (Prime two_done) = unat (countPrime two_done)" by code_simp
  have i: "\<forall>i < length (Prime two_done). processID (Prime two_done ! i) = of_nat i"
    by (simp add: two_done_def initial_sched_def new_process_def Let_def less_2_cases_iff less_Suc_eq)
  have r: "read_processes 0 (map parameters (Prime two_done)) ?f =
      Inr [new_process 0 0 1 2 1 1, new_process 1 0 1 2 1 1]" by code_simp
  from reset_restores [OF l i r] obtain t where t: "Extra ?f two_done = Inr t"
    "map (quantum_update (\<lambda>_. 2)) (Prime t) = [new_process 0 0 1 2 1 1, new_process 1 0 1 2 1 1]"
    by (elim exE conjE) (rule that)
  have "map condition (Prime t) = map condition (map (quantum_update (\<lambda>_. 2)) (Prime t))"
    "map Btime (Prime t) = map Btime (map (quantum_update (\<lambda>_. 2)) (Prime t))" by (simp_all add: comp_def)
  with t bad show ?thesis by (simp add: new_process_def)
qed

section \<open>The abstract scheduler\<close>

text \<open>
  C1: One cycle of the program implements one cycle of the abstract scheduler, whose ready
  queue and blocked list are plain lists: from a state the two agree on, \<open>datapoint\<close> fails with
  the same fault or ends in a state they agree on again. For discipline 2 this needs that there is one
  process only.
\<close>
theorem cycle_refinement:
  assumes "refines s a" and "spec_inv a" and "fine d s"
  shows "case a_cycle d a of Inl e \<Rightarrow> datapoint p d s = Inl e
    | Inr b \<Rightarrow> \<exists>t. datapoint p d s = Inr t \<and> refines t b \<and> spec_inv b"
  using datapoint_implements [OF assms, of p] a_cycle_inv [OF assms(2)] by (auto split: sum.splits)

lemma cycle_refinement_witness:
  "\<exists>t b. a_cycle 0 (start_of one_job) = Inr b \<and> datapoint 1 0 one_job = Inr t \<and> refines t b \<and>
    running b = Some 0"
proof -
  have "(case a_cycle 0 (start_of one_job) of Inl e \<Rightarrow> False | Inr b \<Rightarrow> running b = Some 0)" by code_simp
  then obtain b where "a_cycle 0 (start_of one_job) = Inr b" "running b = Some 0"
    by (auto split: sum.splits)
  with cycle_refinement [OF fresh_refines [OF one_job_fresh] fresh_inv [OF one_job_fresh], of 0 1]
  show ?thesis by auto
qed

end
