(* ===== verification/Sched_Passes.thy ===== *)
theory Sched_Passes
  imports Sched_Props
begin

text \<open>
  lab3/scheduler.c runs every discipline twice and prints the first and the second pass together.
  Here: the second pass repeats the first, although \<open>Extra\<close> leaves the quantum as it is; and
  \<open>listoutputs\<close> as a whole returns, with the processes as they were read, so that the next
  discipline can start.
\<close>

section \<open>The quantum of a process that does not run\<close>

text \<open>
  The quantum matters only while a process runs under round robin. \<open>plain\<close> forgets it elsewhere.
\<close>

definition plain_process :: "u8 \<Rightarrow> process \<Rightarrow> process" where
  "plain_process alg q = (if alg = 1 \<and> condition q = 2 then q else q\<lparr>quantum := 0\<rparr>)"

definition plain :: "u8 \<Rightarrow> aspec \<Rightarrow> aspec" where
  "plain alg a = a\<lparr>procs := map (plain_process alg) (procs a), finished := map (plain_process alg) (finished a)\<rparr>"

lemma plain_process_sel [simp]:
  "condition (plain_process alg q) = condition q" "total_C (plain_process alg q) = total_C q"
  "CPUTime (plain_process alg q) = CPUTime q" "CPUBurst (plain_process alg q) = CPUBurst q"
  "BurstTime (plain_process alg q) = BurstTime q" "arr_A (plain_process alg q) = arr_A q"
  "burst_B (plain_process alg q) = burst_B q" "plain_process alg (plain_process alg q) = plain_process alg q"
  "alg = 1 \<Longrightarrow> condition q = 2 \<Longrightarrow> quantum (plain_process alg q) = quantum q"
  by (simp_all add: plain_process_def)

lemma plain_sel [simp]:
  "procs (plain alg a) = map (plain_process alg) (procs a)" "ready (plain alg a) = ready a"
  "blocked (plain alg a) = blocked a" "running (plain alg a) = running a" "clock (plain alg a) = clock a"
  "arrived (plain alg a) = arrived a" "io_cycles (plain alg a) = io_cycles a" "numbers (plain alg a) = numbers a"
  "finished (plain alg a) = map (plain_process alg) (finished a)"
  by (simp_all add: plain_def)

lemma plain_condition:
  "c \<noteq> 2 \<Longrightarrow> plain_process alg ((plain_process alg q)\<lparr>condition := c\<rparr>) = plain_process alg (q\<lparr>condition := c\<rparr>)"
  "c \<noteq> 2 \<Longrightarrow> plain_process alg ((plain_process alg q)\<lparr>condition := c, finishingTime := t\<rparr>) =
     plain_process alg (q\<lparr>condition := c, finishingTime := t\<rparr>)"
  by (simp_all add: plain_process_def)

lemma plain_settle: "plain_process alg (settle q) = settle (plain_process alg q)"
  by (simp add: plain_process_def settle_def)

lemma plain_start: "plain_process alg (start_burst alg x (plain_process alg q)) = plain_process alg (start_burst alg x q)"
  by (simp add: plain_process_def start_burst_def Let_def)

lemma plain_tick: "plain_process alg (tick_process alg (plain_process alg q)) = plain_process alg (tick_process alg q)"
  by (simp add: plain_process_def tick_process_def)

lemma plain_forward:
  assumes "structured a"
  shows "plain alg (a_forward alg (plain alg a)) = plain alg (a_forward alg a)"
proof (cases "running a")
  case None
  then show ?thesis by (simp add: a_forward_def plain_def comp_def)
next
  case (Some j)
  then have j: "j < length (procs a)" "condition (procs a ! j) = 2"
    using structuredD [OF assms] by auto
  have q: "settle (plain_process alg (procs a ! j)) = plain_process alg (settle (procs a ! j))"
    by (simp add: plain_settle)
  have P: "running (plain alg a) = Some j" "j < length (procs (plain alg a))" using Some j by simp_all
  show ?thesis
    unfolding a_forward_running [OF Some j(1)] a_forward_running [OF P] Let_def
    using j by (auto simp: q plain_condition plain_def map_update comp_def) (simp_all add: plain_process_def)
qed

lemma plain_eqI:
  "map (plain_process alg) (procs a) = map (plain_process alg) (procs b) \<Longrightarrow> ready a = ready b \<Longrightarrow>
   blocked a = blocked b \<Longrightarrow> running a = running b \<Longrightarrow> clock a = clock b \<Longrightarrow> arrived a = arrived b \<Longrightarrow>
   io_cycles a = io_cycles b \<Longrightarrow> numbers a = numbers b \<Longrightarrow>
   map (plain_process alg) (finished a) = map (plain_process alg) (finished b) \<Longrightarrow> plain alg a = plain alg b"
  by (simp add: plain_def)

lemma plain_unblock:
  assumes "structured a"
  shows "plain alg (a_unblock (plain alg a)) = plain alg (a_unblock a)"
proof -
  have e: "expired (plain alg a) i = expired a i" if "i \<in> set (blocked a)" for i
    using structuredD(3) [OF assms that] by (simp add: expired_def)
  then have f: "List.find (expired (plain alg a)) (blocked a) = List.find (expired a) (blocked a)"
    by (intro find_cong) simp_all
  show ?thesis
  proof (cases "List.find (expired a) (blocked a)")
    case None
    with f show ?thesis by (simp add: a_unblock_def)
  next
    case (Some i)
    then have "i \<in> set (blocked a)" by (auto simp: find_Some_iff)
    then have "i < length (procs a)" by (rule structuredD(3) [OF assms])
    with f Some show ?thesis
      by (auto simp: a_unblock_def upd_proc_def map_update plain_condition comp_def intro!: plain_eqI)
  qed
qed

lemma arriving_plain: "arriving (plain alg a) = arriving a"
  by (auto simp: arriving_def intro!: filter_cong)

lemma plain_admit: "plain alg (a_admit (plain alg a)) = plain alg (a_admit a)"
  by (auto simp: a_admit_def a_arrive_def arriving_plain plain_condition comp_def intro!: plain_eqI)

lemma plain_pick: "structured a \<Longrightarrow> pick alg (plain alg' a) = pick alg a"
  using structuredD(2) [of a] by (auto simp: pick_def remaining_def intro!: arg_cong [of _ _ hd] filter_cong)

lemma plain_dispatch:
  assumes "structured a"
  shows "map_sum id (plain alg) (a_dispatch alg (plain alg a)) = map_sum id (plain alg) (a_dispatch alg a)"
proof (cases "running a \<noteq> None \<or> ready a = []")
  case True
  then show ?thesis by (simp add: a_dispatch_def)
next
  case False
  let ?j = "pick alg a"
  have j: "?j < length (procs a)"
    using pick_in [of a alg] structuredD(2) [OF assms] False by auto
  have nb: "new_burst x B (plain_process alg q) = new_burst x B q" for x B q
    by (simp add: new_burst_def Let_def)
  show ?thesis
  proof (cases "read_number 20 (numbers a)")
    case (Inl e)
    with False show ?thesis by (simp add: a_dispatch_def)
  next
    case (Inr xr)
    obtain x rest where xr: "xr = (x, rest)" by (cases xr)
    show ?thesis
    proof (cases "new_burst x (burst_B (procs a ! ?j)) (procs a ! ?j)")
      case (Inl e)
      with False Inr xr j show ?thesis by (simp add: a_dispatch_def plain_pick [OF assms] nb Let_def)
    next
      case (Inr y)
      with False \<open>read_number 20 (numbers a) = Inr xr\<close> xr j show ?thesis
        by (auto simp: a_dispatch_def plain_pick [OF assms] nb Let_def upd_proc_def map_update plain_start
            comp_def intro!: plain_eqI)
    qed
  qed
qed

lemma plain_dispatch_cong:
  assumes "structured m" "structured n" "plain alg m = plain alg n"
  shows "map_sum id (plain alg) (a_dispatch alg m) = map_sum id (plain alg) (a_dispatch alg n)"
  using plain_dispatch [OF assms(1), of alg] plain_dispatch [OF assms(2), of alg] unfolding assms(3) by (rule trans [OF sym])

lemma plain_a_tick: "plain alg (a_tick alg (plain alg a)) = plain alg (a_tick alg a)"
  by (auto simp: a_tick_def plain_tick comp_def intro!: plain_eqI)

text \<open>Two states that differ in forgotten quanta only still do after a cycle, or both fail alike.\<close>

lemma map_sum_bind:
  assumes eq: "map_sum id p x = map_sum id p y" and f: "\<And>c d. p c = p d \<Longrightarrow> p (f c) = p (f d)"
  shows "map_sum id p (bindE x (\<lambda>a. Inr (f a))) = map_sum id p (bindE y (\<lambda>a. Inr (f a)))"
  using eq by (cases x; cases y) (auto intro: f)

lemma plain_cycle:
  assumes inv: "spec_inv a" "spec_inv b" and eq: "plain alg a = plain alg b"
  shows "map_sum id (plain alg) (a_cycle alg a) = map_sum id (plain alg) (a_cycle alg b)"
proof -
  have fwd: "structured a" "structured b" "structured (a_forward alg a)" "structured (a_forward alg b)"
    using inv a_forward_mid by (auto simp: spec_inv_def mid_inv_def)
  have "plain alg (a_forward alg a) = plain alg (a_forward alg b)"
    by (metis plain_forward fwd(1,2) eq)
  then have "plain alg (a_unblock (a_forward alg a)) = plain alg (a_unblock (a_forward alg b))"
    by (metis plain_unblock fwd(3,4))
  then have "plain alg (a_admit (a_unblock (a_forward alg a))) = plain alg (a_admit (a_unblock (a_forward alg b)))"
    (is "plain alg ?m = plain alg ?n") by (metis plain_admit)
  moreover have "structured ?m" "structured ?n" using inv before_dispatch_mid by (auto simp: mid_inv_def)
  ultimately have d: "map_sum id (plain alg) (a_dispatch alg ?m) = map_sum id (plain alg) (a_dispatch alg ?n)"
    by (intro plain_dispatch_cong)
  have t: "plain alg (a_tick alg c) = plain alg (a_tick alg d)" if "plain alg c = plain alg d" for c d
    using plain_a_tick [of alg c] plain_a_tick [of alg d] unfolding that by (rule trans [OF sym])
  show ?thesis unfolding a_cycle_eq by (rule map_sum_bind [OF d t])
qed

section \<open>A pass of the abstract scheduler\<close>

inductive a_pass :: "u8 \<Rightarrow> aspec \<Rightarrow> aspec \<Rightarrow> bool" for alg where
  ended: "length (finished a) = length (procs a) \<Longrightarrow> a_pass alg a a"
| cycle: "length (finished a) \<noteq> length (procs a) \<Longrightarrow> a_cycle alg a = Inr b \<Longrightarrow> a_pass alg b c \<Longrightarrow> a_pass alg a c"

inductive_cases a_passE: "a_pass alg a c"

lemma plain_lengths:
  "plain alg a = plain alg b \<Longrightarrow> length (finished a) = length (finished b) \<and> length (procs a) = length (procs b)"
  by (metis length_map plain_sel(1,9))

lemma plain_pass:
  "a_pass alg a c \<Longrightarrow> a_pass alg b d \<Longrightarrow> spec_inv a \<Longrightarrow> spec_inv b \<Longrightarrow> plain alg a = plain alg b \<Longrightarrow>
   plain alg c = plain alg d"
proof (induction arbitrary: b rule: a_pass.induct)
  case (ended a)
  from ended(2) show ?case
  proof (cases rule: a_pass.cases)
    case cycle
    then show ?thesis using ended plain_lengths [OF ended(5)] by simp
  qed (use ended in simp)
next
  case (cycle a a' c)
  from cycle.prems(1) show ?case
  proof (cases rule: a_pass.cases)
    case ended
    then show ?thesis using cycle plain_lengths [OF cycle.prems(4)] by simp
  next
    case (cycle b')
    note b' = this
    have "plain alg a' = plain alg b'"
      using plain_cycle [OF cycle.prems(2-4)] \<open>a_cycle alg a = Inr a'\<close> b'(2) by simp
    moreover have "spec_inv a'" "spec_inv b'" using a_cycle_inv cycle.prems(2,3) \<open>a_cycle alg a = Inr a'\<close> b'(2) by blast+
    ultimately show ?thesis using cycle.IH b'(3) by blast
  qed
qed

lemma datapoints_pass:
  assumes "datapoints p d s = Some (Inr t)" "refines s a" "spec_inv a" "fine d s"
  shows "\<exists>b. a_pass d a b \<and> refines t b \<and> spec_inv b"
proof -
  have "(cycle p d)\<^sup>*\<^sup>* s t" and t: "completion t = countPrime t"
    using datapoints_Inr [OF assms(1)] by blast+
  then show ?thesis using assms(2-4)
  proof (induction arbitrary: a rule: converse_rtranclp_induct)
    case base
    then show ?case using refines_done [of t a] t a_pass.ended by blast
  next
    case (step s s')
    from step.hyps(1) have c: "completion s \<noteq> countPrime s" "datapoint p d s = Inr s'"
      by (simp_all add: cycle_iff)
    from datapoint_implements [OF step.prems(2-4), of p] c(2) obtain b where
      b: "a_cycle d a = Inr b" "refines s' b" by (cases "a_cycle d a") auto
    have "spec_inv b" by (rule a_cycle_inv [OF step.prems(3) b(1)])
    from step.IH [OF t b(2) this datapoint_fine [OF step.prems(2-4) c(2)]] obtain e where "a_pass d b e" "refines t e" "spec_inv e" by blast
    moreover have "length (finished a) \<noteq> length (procs a)" using c(1) refines_done [OF step.prems(2)] by simp
    ultimately show ?case using a_pass.cycle [OF _ b(1)] by blast
  qed
qed

section \<open>The processes as they were read\<close>

definition as_read :: "string \<Rightarrow> sched \<Rightarrow> bool" where
  \<comment> \<open>the state at the start of \<open>listoutputs\<close>; only the quanta may be what an earlier discipline left\<close>
  "as_read random_numbers s \<longleftrightarrow> length (Prime s) = unat (countPrime s) \<and> reset_globals s = s \<and>
     read_processes 0 (map parameters (Prime s)) random_numbers = Inr (map (quantum_update (\<lambda>_. 2)) (Prime s))"

lemma read_processes_nth:
  "read_processes k quads f = Inr ps \<Longrightarrow> i < length ps \<Longrightarrow>
   \<exists>a b c m x. ps ! i = new_process (k + i) a b c m x \<and> b \<noteq> 0"
proof (induction k quads f arbitrary: ps i rule: read_processes.induct)
  case (1 k f)
  then show ?case by simp
next
  case (2 k a b c m rest f)
  then obtain x f' qs where r: "ranomize b f = Inr (x, f')" "read_processes (Suc k) rest f' = Inr qs"
    "ps = new_process k a b c m x # qs" by (auto simp: bindE_eq_Inr_iff)
  have b: "b \<noteq> 0" using r(1) by (auto simp: ranomize_def bindE_eq_Inr_iff)
  show ?case
  proof (cases i)
    case 0
    with r(3) b show ?thesis by simp blast
  next
    case (Suc j)
    then have j: "j < length qs" using 2(3) r(3) by simp
    from "2.IH" [OF r(1) _ r(2) j] r(3) Suc show ?thesis by auto
  qed
qed

lemma as_read_process:
  assumes "as_read rn s" "i < length (Prime s)"
  shows "\<exists>a b c m x. (Prime s ! i)\<lparr>quantum := 2\<rparr> = new_process i a b c m x \<and> b \<noteq> 0"
  using read_processes_nth [of 0 "map parameters (Prime s)" rn "map (quantum_update (\<lambda>_. 2)) (Prime s)" i] assms
  by (simp add: as_read_def)

lemma as_read_fields:
  assumes "as_read rn s" "i < length (Prime s)"
  shows "processID (Prime s ! i) = of_nat i" "condition (Prime s ! i) = 0" "CPUTime (Prime s ! i) = 0"
    "Btime (Prime s ! i) = 0" "currentWaitingTime (Prime s ! i) = 0" "freshPrime (Prime s ! i) = None"
    "pushBlock (Prime s ! i) = None" "burst_B (Prime s ! i) \<noteq> 0"
proof -
  obtain a b c m x where q: "(Prime s ! i)\<lparr>quantum := 2\<rparr> = new_process i a b c m x" "b \<noteq> 0"
    using as_read_process [OF assms] by blast
  have f: "f (Prime s ! i) = f (new_process i a b c m x)" if "\<And>q. f (q\<lparr>quantum := 2\<rparr>) = f q" for f
    using that [of "Prime s ! i"] q(1) by metis
  show "processID (Prime s ! i) = of_nat i" "condition (Prime s ! i) = 0" "CPUTime (Prime s ! i) = 0"
    "Btime (Prime s ! i) = 0" "currentWaitingTime (Prime s ! i) = 0" "freshPrime (Prime s ! i) = None"
    "pushBlock (Prime s ! i) = None" "burst_B (Prime s ! i) \<noteq> 0"
    using f [of processID] f [of condition] f [of CPUTime] f [of Btime] f [of currentWaitingTime]
      f [of freshPrime] f [of pushBlock] f [of burst_B] q(2) by (simp_all add: new_process_def)
qed

lemma reset_globals_fields:
  "reset_globals s = s \<Longrightarrow> selection s = None \<and> present s = 0 \<and> totalPrime s = 0 \<and> completion s = 0 \<and>
     totalTimeNumber s = 0 \<and> Afront s = None \<and> Aback s = None \<and> placement s = 0 \<and>
     Blockfront s = None \<and> Blockback s = None \<and> BlockQ s = 0"
proof -
  assume "reset_globals s = s"
  then have f: "f s = f (reset_globals s)" for f :: "sched \<Rightarrow> 'b" by simp
  show ?thesis
    using f [of selection] f [of present] f [of totalPrime] f [of completion] f [of totalTimeNumber] f [of Afront]
      f [of Aback] f [of placement] f [of Blockfront] f [of Blockback] f [of BlockQ]
    by (simp add: reset_globals_def)
qed

definition opened :: "string \<Rightarrow> process option list \<Rightarrow> sched \<Rightarrow> sched" where
  \<comment> \<open>the local array of \<open>listoutputs\<close> and the file of random numbers, at the start of a pass\<close>
  "opened random_numbers cells s = s\<lparr>terminateAlg := cells, randomFile := random_numbers\<rparr>"

lemma opened_sel [simp]:
  "Prime (opened rn cells s) = Prime s" "countPrime (opened rn cells s) = countPrime s"
  "randomFile (opened rn cells s) = rn" "terminateAlg (opened rn cells s) = cells"
  by (simp_all add: opened_def)

lemma as_read_fresh:
  assumes r: "as_read rn s" and c: "\<forall>q \<in> set (Prime s). total_C q \<noteq> 0" and l: "length cells = length (Prime s)"
  shows "fresh_pass (opened rn cells s)"
proof -
  have "reset_globals s = s" "length (Prime s) = unat (countPrime s)" using r by (simp_all add: as_read_def)
  with reset_globals_fields [of s] as_read_fields [OF r] c l show ?thesis
    by (auto simp: fresh_pass_def fresh_process_def list_all2_conv_all_nth opened_def)
qed

definition suits :: "u8 \<Rightarrow> sched \<Rightarrow> bool" where
  \<comment> \<open>the disciplines that work: all of them for one process, and all but the uniprogrammed one for more\<close>
  "suits d s \<longleftrightarrow> d \<in> {0, 1, 3} \<or> d = 2 \<and> length (Prime s) = 1"

lemma suits_emit [simp]: "suits d (emit t s) = suits d s"
  by (simp add: suits_def)

lemma suits_queued [simp]: "suits 0 s" "suits 1 s" "suits 3 s"
  by (simp_all add: suits_def)

lemma suits_known: "suits d s \<Longrightarrow> known_stream d = d"
  by (auto simp: suits_def known_stream_def)

lemma as_read_fine: "as_read rn s \<Longrightarrow> suits d s \<Longrightarrow> fine d (opened rn cells s)"
proof -
  assume r: "as_read rn s" and d: "suits d s"
  then have f: "f s = f (reset_globals s)" for f :: "sched \<Rightarrow> 'b" by (simp add: as_read_def)
  have "PauseQ s = 0" "namelessOp s = None" using f [of PauseQ] f [of namelessOp] by (simp_all add: reset_globals_def)
  with d show ?thesis by (auto simp: suits_def fine_def alone_def opened_def)
qed

section \<open>One pass and the reset after it\<close>

lemma parameters_static: "map static xs = map static ys \<Longrightarrow> map parameters xs = map parameters ys"
proof -
  assume e: "map static xs = map static ys"
  have *: "map parameters zs = map (\<lambda>(a, b, c, m, i). (a, b, c, m)) (map static zs)" for zs
    by (simp add: parameters_def static_def comp_def)
  show ?thesis unfolding * e ..
qed

lemma static_erase [simp]: "static (erase q) = static q"
  by (simp add: static_def)

text \<open>What is known at the end of a pass.\<close>

definition pass_end :: "u8 \<Rightarrow> sched \<Rightarrow> sched \<Rightarrow> aspec \<Rightarrow> bool" where
  "pass_end d s t b \<longleftrightarrow> refines t b \<and> spec_inv b \<and> a_pass d (start_of s) b \<and> completion t = countPrime t"

lemma a_pass_static: "a_pass d a b \<Longrightarrow> map static (procs b) = map static (procs a)"
  by (induction rule: a_pass.induct) (simp_all add: a_cycle_static)

lemma pass_end_facts:
  assumes "pass_end d s t b" and "length (Prime s) = unat (countPrime s)"
  shows "map static (Prime t) = map static (Prime s)" "countPrime t = countPrime s"
    "length (Prime t) = unat (countPrime t)" "length (terminateAlg t) = length (Prime t)"
    "unat (completion t) = length (Prime t)" "\<forall>i < length (Prime t). terminateAlg t ! i \<noteq> None"
proof -
  have r: "refines t b" and st: "map static (procs b) = map static (procs (start_of s))"
    using assms(1) a_pass_static by (auto simp: pass_end_def)
  then show m: "map static (Prime t) = map static (Prime s)"
    by (simp add: refines_def start_of_def comp_def)
  show l: "length (Prime t) = unat (countPrime t)" "length (terminateAlg t) = length (Prime t)"
    using r by (simp_all add: refines_def)
  have "length (Prime t) = length (Prime s)" using m by (metis length_map)
  with l assms(2) show "countPrime t = countPrime s" by (simp add: word_unat_eq_iff)
  show c: "unat (completion t) = length (Prime t)" using assms(1) l by (simp add: pass_end_def)
  then have "map (map_option erase) (terminateAlg t) = map Some (finished b)" using r l by (simp add: refines_def)
  then have "map_option erase (terminateAlg t ! i) \<noteq> None" if "i < length (Prime t)" for i
    using that l(2) by (metis length_map nth_map option.distinct(1))
  then show "\<forall>i < length (Prime t). terminateAlg t ! i \<noteq> None" by simp
qed

lemma pass_from_read:
  assumes r: "as_read rn s" and c: "\<forall>q \<in> set (Prime s). total_C q \<noteq> 0" and d: "suits d s"
    and l: "length cells = length (Prime s)"
  shows "datapoints p d (opened rn cells s) = Some (Inr t) \<Longrightarrow> \<exists>b. pass_end d (opened rn cells s) t b"
    and "(\<Sum>q \<leftarrow> Prime s. unat (total_C q)) \<le> lines_left rn \<Longrightarrow> \<exists>t. datapoints p d (opened rn cells s) = Some (Inr t)"
proof -
  have f: "fresh_pass (opened rn cells s)" by (rule as_read_fresh [OF r c l])
  show "\<exists>b. pass_end d (opened rn cells s) t b" if run: "datapoints p d (opened rn cells s) = Some (Inr t)"
    using datapoints_pass [OF run fresh_refines [OF f] fresh_inv [OF f] as_read_fine [OF r d]] datapoints_Inr [OF run]
    by (auto simp: pass_end_def)
  have "\<forall>q \<in> set (Prime s). burst_B q \<noteq> 0" using as_read_fields(8) [OF r] by (metis in_set_conv_nth)
  then show "\<exists>t. datapoints p d (opened rn cells s) = Some (Inr t)"
    if "(\<Sum>q \<leftarrow> Prime s. unat (total_C q)) \<le> lines_left rn"
    using datapoints_returns [OF fresh_refines [OF f] fresh_inv [OF f] fresh_supplied [OF f] as_read_fine [OF r d]] that by auto
qed

section \<open>What is printed does not disturb\<close>

lemma emit_emit [simp]: "emit u (emit t s) = emit (t @ u) s"
  by (simp add: emit_def)

lemma emit_Nil [simp]: "emit [] s = s"
  by (simp add: emit_def)

lemma emit_rest [simp]:
  "countPrime (emit t s) = countPrime s" "terminateAlg (emit t s) = terminateAlg s"
  "completion (emit t s) = completion s" "sumDat (emit t s) = sumDat s"
  "present (emit t s) = present s" "totalTimeNumber (emit t s) = totalTimeNumber s"
  "reset_globals (emit t s) = emit t (reset_globals s)"
  by (simp_all add: emit_def reset_globals_def)

lemma as_read_emit [simp]: "as_read rn s \<Longrightarrow> as_read rn (emit t s)"
  by (simp add: as_read_def)

lemma foldE_print:
  "\<forall>i \<in> set is. g i s = Inr (x i) \<Longrightarrow> (\<And>i t. g i (emit t s) = g i s) \<Longrightarrow>
   foldE (\<lambda>i s. bindE (g i s) (\<lambda>q. Inr (emit (f q) s))) is s = Inr (emit (concat (map (f \<circ> x) is)) s)"
proof -
  assume g: "\<forall>i \<in> set is. g i s = Inr (x i)" "\<And>i t. g i (emit t s) = g i s"
  have "foldE (\<lambda>i s. bindE (g i s) (\<lambda>q. Inr (emit (f q) s))) is (emit t s) =
      Inr (emit (t @ concat (map (f \<circ> x) is)) s)" for t
    using g(1) by (induction "is" arbitrary: t) (simp_all add: g(2))
  from this [of "[]"] show ?thesis by simp
qed

lemma load_emit: "load p (emit t s) = load p s"
  by (simp add: load_def split: option.split)

lemma print_each:
  assumes "length (Prime s) = unat (countPrime s)"
  shows "\<exists>x. foldE (\<lambda>i s. bindE (load (Some i) s) (\<lambda>q. Inr (emit (f q) s))) [0..<unat (countPrime s)] s = Inr (emit x s)"
  using foldE_print [of "[0..<unat (countPrime s)]" "\<lambda>i. load (Some i)" s "\<lambda>i. Prime s ! i" f] assms
  by (auto simp: load_emit)

lemma reports_print:
  assumes l: "length (Prime s) = unat (countPrime s)"
  shows "\<exists>x. printStart s = Inr (emit x s)" "\<exists>x. printProcessSpecifics s = Inr (emit x s)"
    "\<exists>x. printSummaryData fmt s = Inr (emit x s)"
proof -
  show "\<exists>x. printStart s = Inr (emit x s)"
    using print_each [of "emit (''insert '' @ show_u32 (countPrime s)) s" abcm_text] l
    by (auto simp: printStart_def)
  show "\<exists>x. printProcessSpecifics s = Inr (emit x s)"
    using print_each [of "emit [newline] s" specifics_text] l by (auto simp: printProcessSpecifics_def)
  have "\<exists>u. summary_totals is s t = Inr u" if "\<forall>i \<in> set is. i < length (Prime s)" for "is" t
    using that by (induction "is" arbitrary: t) auto
  from this [of "[0..<unat (countPrime s)]"] l
  obtain u where "summary_totals [0..<unat (countPrime s)] s
      \<lparr>cpu_total = 0, io_total = 0, wait_total = 0, turnaround_total = 0\<rparr> = Inr u" by auto
  then show "\<exists>x. printSummaryData fmt s = Inr (emit x s)" by (auto simp: printSummaryData_def Let_def)
qed

lemma final_prints:
  assumes "pass_end d s t b" and "length (Prime s) = unat (countPrime s)"
  shows "\<exists>x. printFinal t = Inr (emit x t)"
proof -
  note e = pass_end_facts [OF assms]
  let ?t = "emit (''The (sorted) input is: '' @ show_u32 (countPrime t)) t"
  have "finished_cell i ?t = Inr (the (terminateAlg t ! i))" if "i < unat (completion t)" for i
    using e(4-6) that by (auto simp: finished_cell_def split: option.split)
  then have "\<exists>x. foldE (\<lambda>i s. bindE (finished_cell i s) (\<lambda>q. Inr (emit (abcm_text q) s)))
      [0..<unat (completion t)] ?t = Inr (emit x ?t)"
    using foldE_print [of "[0..<unat (completion t)]" finished_cell ?t "\<lambda>i. the (terminateAlg t ! i)" abcm_text]
    by (auto simp: finished_cell_def)
  then show ?thesis by (auto simp: printFinal_def)
qed

section \<open>The reset after a pass\<close>

lemma parameters_quantum: "map parameters (map (quantum_update f) qs) = map parameters qs"
  by (simp add: parameters_def comp_def)

lemma reset_after_pass:
  assumes r: "as_read rn s" and e: "pass_end d (opened rn cells s) t b"
  shows "\<exists>v. Extra rn (emit x t) = Inr v \<and> as_read rn v \<and> terminateAlg v = terminateAlg t \<and>
    map (quantum_update (\<lambda>_. 2)) (Prime v) = map (quantum_update (\<lambda>_. 2)) (Prime s)"
proof -
  have l: "length (Prime s) = unat (countPrime s)"
    and rp: "read_processes 0 (map parameters (Prime s)) rn = Inr (map (quantum_update (\<lambda>_. 2)) (Prime s))"
    using r by (simp_all add: as_read_def)
  note f = pass_end_facts [OF e, simplified opened_sel, OF l]
  have p: "map parameters (Prime t) = map parameters (Prime s)" by (rule parameters_static [OF f(1)])
  have len: "length (Prime t) = length (Prime s)" using f(1) by (metis length_map)
  have "processID (Prime t ! i) = of_nat i" if "i < length (Prime t)" for i
  proof -
    have "static (Prime t ! i) = static (Prime s ! i)" using f(1) that len by (metis nth_map)
    then show ?thesis using as_read_fields(1) [OF r, of i] that len by (simp add: static_def)
  qed
  then have "\<forall>i < length (Prime (emit x t)). processID (Prime (emit x t) ! i) = of_nat i" by simp
  from reset_state [OF _ this, of rn "map (quantum_update (\<lambda>_. 2)) (Prime s)"] f(3) rp p obtain v where
    v: "Extra rn (emit x t) = Inr v" "map (quantum_update (\<lambda>_. 2)) (Prime v) = map (quantum_update (\<lambda>_. 2)) (Prime s)"
      "v = (reset_globals (emit x t))\<lparr>Prime := Prime v\<rparr>" by auto
  have "reset_globals v = v" by (subst (1 2) v(3)) (simp add: reset_globals_def emit_def)
  moreover have "countPrime v = countPrime t" "terminateAlg v = terminateAlg t"
    using arg_cong [OF v(3), of countPrime] arg_cong [OF v(3), of terminateAlg] by (simp_all add: reset_globals_def)
  moreover have "length (Prime v) = length (Prime s)" using v(2) by (metis length_map)
  moreover have "map parameters (Prime v) = map parameters (Prime s)"
    using v(2) by (metis parameters_quantum)
  ultimately show ?thesis using v(1,2) f(3) len rp by (simp add: as_read_def)
qed

section \<open>The two passes\<close>

lemma first_pass_eq:
  assumes "as_read rn s" and d: "known_stream d = d"
  shows "\<exists>x. first_pass rn d s = datapoints 1 d (opened rn (replicate (length (Prime s)) None) (emit x s))"
proof -
  have l: "length (Prime (emit (banner d) s)) = unat (countPrime (emit (banner d) s))"
    using assms(1) by (simp add: as_read_def)
  obtain x where "printStart (emit (banner d) s) = Inr (emit x (emit (banner d) s))"
    using reports_print(1) [OF l] by blast
  then show ?thesis using d l by (intro exI [of _ "banner d @ x"]) (auto simp: first_pass_def opened_def)
qed

lemma second_pass_eq:
  assumes "Extra rn s = Inr v"
  shows "\<exists>x. second_pass rn d s = datapoints 2 d (opened rn (terminateAlg v) (emit x v))"
proof -
  have "w\<lparr>randomFile := rn\<rparr> = opened rn (terminateAlg w) w" for w by (simp add: opened_def)
  then have "second_pass rn d s = datapoints 2 d (opened rn (terminateAlg v)
      (emit ([newline] @ (if sumDat v then ''burst for processes'' @ [newline] else [])) v))"
    using assms by (simp add: second_pass_def Let_def)
  then show ?thesis by blast
qed

lemma two_passes:
  assumes r: "as_read rn s" and c: "\<forall>q \<in> set (Prime s). total_C q \<noteq> 0" and d: "suits d s"
    and f: "first_pass rn d s = Some (Inr t)" "printFinal t = Inr t'"
  obtains x y z b v where "pass_end d (opened rn (replicate (length (Prime s)) None) (emit x s)) t b"
    "t' = emit y t" "as_read rn v" "length (terminateAlg v) = length (Prime v)"
    "map (quantum_update (\<lambda>_. 2)) (Prime v) = map (quantum_update (\<lambda>_. 2)) (Prime s)"
    "second_pass rn d t' = datapoints 2 d (opened rn (terminateAlg v) (emit z v))"
proof -
  have l: "length (Prime s) = unat (countPrime s)" using r by (simp add: as_read_def)
  obtain x where x: "first_pass rn d s = datapoints 1 d (opened rn (replicate (length (Prime s)) None) (emit x s))"
    using first_pass_eq [OF r suits_known [OF d]] by blast
  have r': "as_read rn (emit x s)" using r by simp
  from pass_from_read(1) [OF r' _ _ _ f(1) [unfolded x]] c d obtain b where
    b: "pass_end d (opened rn (replicate (length (Prime s)) None) (emit x s)) t b" by auto
  obtain y where y: "t' = emit y t" using final_prints [OF b] l f(2) by auto
  from reset_after_pass [OF r' b, of y] obtain v where
    v: "Extra rn (emit y t) = Inr v" "as_read rn v" "terminateAlg v = terminateAlg t"
      "map (quantum_update (\<lambda>_. 2)) (Prime v) = map (quantum_update (\<lambda>_. 2)) (Prime (emit x s))" by blast
  have v': "map (quantum_update (\<lambda>_. 2)) (Prime v) = map (quantum_update (\<lambda>_. 2)) (Prime s)" using v(4) by simp
  note e = pass_end_facts [OF b, simplified opened_sel emit_rest emit_sel, OF l]
  have lens: "length (Prime v) = length (Prime s)" "length (Prime t) = length (Prime s)"
    using v' e(1) by (metis length_map)+
  obtain z where "second_pass rn d t' = datapoints 2 d (opened rn (terminateAlg v) (emit z v))"
    using second_pass_eq [OF v(1)] y by blast
  with that [OF b y v(2) _ v'] v(3) e(4) lens show thesis by simp
qed

definition report :: "sched \<Rightarrow> string list \<times> u32 \<times> u32 \<times> u32 option list" where
  \<comment> \<open>what the reports at the end of a pass are made of: the text for each process, the number of
      cycles, those with a blocked process, and the order in which the processes ended\<close>
  "report t = (map specifics_text (Prime t), present t, totalTimeNumber t, map (map_option processID) (terminateAlg t))"

lemma report_plain:
  assumes "pass_end d s t b" "pass_end d s' t' b'" "length (Prime s) = unat (countPrime s)"
    "length (Prime s') = unat (countPrime s')" "plain d b = plain d b'"
  shows "report t = report t'"
proof -
  have same: "specifics_text (plain_process d (erase q)) = specifics_text q" for q
    by (simp add: specifics_text_def plain_process_def)
  have id: "processID (plain_process d (erase q)) = processID q" "processID (plain_process d q) = processID q"
    "processID (erase q) = processID q" for q
    by (simp_all add: plain_process_def)
  have ends: "map specifics_text (Prime t) = map specifics_text (procs (plain d b)) \<and> present t = clock (plain d b) \<and>
      totalTimeNumber t = io_cycles (plain d b) \<and>
      map (map_option processID) (terminateAlg t) = map (Some \<circ> processID) (finished (plain d b))"
    if e: "pass_end d s t b" "length (Prime s) = unat (countPrime s)" for s t b
  proof -
    have r: "refines t b" using e(1) by (simp add: pass_end_def)
    note f = pass_end_facts [OF e]
    have "length (finished b) = length (terminateAlg t)"
      and "map (map_option erase) (take (length (finished b)) (terminateAlg t)) = map Some (finished b)"
      using r f(4,5) unfolding refines_def by metis+
    then have "map (map_option erase) (terminateAlg t) = map Some (finished b)" by simp
    then have "map (map_option processID) (map (map_option erase) (terminateAlg t)) =
        map (map_option processID) (map Some (finished b))" by simp
    then have "map (map_option processID) (terminateAlg t) = map (Some \<circ> processID) (finished b)"
      by (simp add: option.map_comp comp_def id)
    then show ?thesis using r by (simp add: refines_def same id comp_def)
  qed
  show ?thesis using ends [OF assms(1,3)] ends [OF assms(2,4)] assms(5) by (simp add: report_def)
qed

lemma plain_start_of:
  assumes r: "as_read rn s" "as_read rn v"
    and q: "map (quantum_update (\<lambda>_. 2)) (Prime v) = map (quantum_update (\<lambda>_. 2)) (Prime s)"
  shows "plain d (start_of (opened rn cells (emit x s))) = plain d (start_of (opened rn cells' (emit z v)))"
proof -
  have p: "map (plain_process d \<circ> erase) (Prime w) = map (\<lambda>q. erase (q\<lparr>quantum := 0\<rparr>)) (map (quantum_update (\<lambda>_. 2)) (Prime w))"
    if "as_read rn w" for w
    using as_read_fields(2) [OF that] by (auto simp: in_set_conv_nth plain_process_def erase_def)
  have "map (plain_process d \<circ> erase) (Prime s) = map (plain_process d \<circ> erase) (Prime v)"
    unfolding p [OF r(1)] p [OF r(2)] q ..
  then show ?thesis by (simp add: plain_def start_of_def comp_def)
qed

text \<open>
  C5: The two passes that \<open>listoutputs\<close> makes agree, for first come first served, round robin and
  shortest job first, and for the uniprogrammed discipline if there is a single process (\<open>suits\<close>): if every process
  asks for some processor time and both passes end, then the second, which is the one
  the reports are printed from, gives every process the same figures, takes as many cycles, counts as many
  of them with a blocked process, and ends the processes in the same order, although
  \<open>Extra\<close> leaves the quantum of each process as the first pass ended with it.
\<close>
theorem passes_agree:
  assumes "as_read rn s" and "\<forall>q \<in> set (Prime s). total_C q \<noteq> 0" and "suits d s"
    and "first_pass rn d s = Some (Inr t)" and "printFinal t = Inr t'" and "second_pass rn d t' = Some (Inr u)"
  shows "report u = report t"
proof (rule two_passes [OF assms(1-5)])
  fix x y z b v
  assume b: "pass_end d (opened rn (replicate (length (Prime s)) None) (emit x s)) t b"
    and v: "as_read rn v" "length (terminateAlg v) = length (Prime v)"
      "map (quantum_update (\<lambda>_. 2)) (Prime v) = map (quantum_update (\<lambda>_. 2)) (Prime s)"
    and run: "second_pass rn d t' = datapoints 2 d (opened rn (terminateAlg v) (emit z v))"
  have l: "length (Prime s) = unat (countPrime s)" "length (Prime v) = unat (countPrime v)"
    using assms(1) v(1) by (simp_all add: as_read_def)
  have "total_C ` set (Prime w) = total_C ` set (map (quantum_update (\<lambda>_. 2)) (Prime w))" for w by (simp add: image_image)
  then have "total_C ` set (Prime v) = total_C ` set (Prime s)" by (metis v(3))
  then have c: "\<forall>q \<in> set (Prime v). total_C q \<noteq> 0" using assms(2) by (metis imageE imageI)
  have vz: "as_read rn (emit z v)" using v(1) by simp
  have "length (Prime v) = length (Prime s)" using v(3) by (metis length_map)
  with assms(3) have dv: "suits d v" by (simp add: suits_def)
  obtain b' where b': "pass_end d (opened rn (terminateAlg v) (emit z v)) u b'"
    using pass_from_read(1) [OF vz _ _ _ assms(6) [unfolded run]] c v(2) dv by auto
  have "fresh_pass (opened rn (replicate (length (Prime s)) None) (emit x s))"
    using as_read_fresh [of rn "emit x s"] assms(1,2) by simp
  moreover have "fresh_pass (opened rn (terminateAlg v) (emit z v))" using as_read_fresh [OF vz] c v(2) by simp
  ultimately have "plain d b = plain d b'"
    using plain_pass [of d _ b _ b'] b b' fresh_inv plain_start_of [OF assms(1) v(1,3)]
    unfolding pass_end_def by blast
  then show ?thesis using report_plain [OF b b'] l by simp
qed

definition single :: sched where
  "single = initial_sched [new_process 0 0 1 2 1 1]"

definition ones :: string where
  "ones = ''1'' @ [newline] @ ''1'' @ [newline] @ ''1''"

lemma single_read:
  "as_read ones single" "\<forall>q \<in> set (Prime single). total_C q \<noteq> 0"
  "(\<Sum>q \<leftarrow> Prime single. unat (total_C q)) \<le> lines_left ones"
proof -
  have "read_processes 0 (map parameters (Prime single)) ones =
      Inr (map (quantum_update (\<lambda>_. 2)) (Prime single))" by code_simp
  moreover have "reset_globals single = single" by (simp add: reset_globals_def single_def initial_sched_def)
  ultimately show "as_read ones single" by (simp add: as_read_def) (simp add: single_def initial_sched_def)
  show "\<forall>q \<in> set (Prime single). total_C q \<noteq> 0" by code_simp
  show "(\<Sum>q \<leftarrow> Prime single. unat (total_C q)) \<le> lines_left ones"
    by code_simp
qed

lemma suits_single: "suits 2 single"
  by (simp add: suits_def single_def initial_sched_def)

section \<open>The driver\<close>

lemma passes_return:
  assumes r: "as_read rn s" and c: "\<forall>q \<in> set (Prime s). total_C q \<noteq> 0" and d: "suits d s"
    and n: "(\<Sum>q \<leftarrow> Prime s. unat (total_C q)) \<le> lines_left rn"
  obtains t t' u v z cells b where "first_pass rn d s = Some (Inr t)" "printFinal t = Inr t'"
    "second_pass rn d t' = Some (Inr u)" "as_read rn v" "pass_end d (opened rn cells (emit z v)) u b"
    "map (quantum_update (\<lambda>_. 2)) (Prime v) = map (quantum_update (\<lambda>_. 2)) (Prime s)"
proof -
  have l: "length (Prime s) = unat (countPrime s)" using r by (simp add: as_read_def)
  obtain x where x: "first_pass rn d s = datapoints 1 d (opened rn (replicate (length (Prime s)) None) (emit x s))"
    using first_pass_eq [OF r suits_known [OF d]] by blast
  have r': "as_read rn (emit x s)" using r by simp
  obtain t where t: "first_pass rn d s = Some (Inr t)"
    using pass_from_read(2) [OF r' _ _, where cells = "replicate (length (Prime s)) None" and p = 1] c d n x by auto
  obtain b where "pass_end d (opened rn (replicate (length (Prime s)) None) (emit x s)) t b"
    using pass_from_read(1) [OF r' _ _ _ t [unfolded x]] c d by auto
  from final_prints [OF this] l obtain t' where t': "printFinal t = Inr t'" by auto
  from two_passes [OF r c d t t'] obtain z v where
    v: "as_read rn v" "length (terminateAlg v) = length (Prime v)"
      "map (quantum_update (\<lambda>_. 2)) (Prime v) = map (quantum_update (\<lambda>_. 2)) (Prime s)"
      "second_pass rn d t' = datapoints 2 d (opened rn (terminateAlg v) (emit z v))" by metis
  have "map total_C (Prime w) = map total_C (map (quantum_update (\<lambda>_. 2)) (Prime w))" for w by simp
  then have tc: "map total_C (Prime v) = map total_C (Prime s)" by (metis v(3))
  have "(\<Sum>q \<leftarrow> Prime v. unat (total_C q)) = sum_list (map unat (map total_C (Prime v)))" by (simp add: comp_def)
  also have "\<dots> = (\<Sum>q \<leftarrow> Prime s. unat (total_C q))" unfolding tc by (simp add: comp_def)
  finally have n': "(\<Sum>q \<leftarrow> Prime v. unat (total_C q)) \<le> lines_left rn" using n by simp
  have "total_C ` set (Prime v) = total_C ` set (Prime s)" using arg_cong [OF tc, of set] by simp
  then have c': "\<forall>q \<in> set (Prime (emit z v)). total_C q \<noteq> 0" using c by (simp, metis imageE imageI)
  have vz: "as_read rn (emit z v)" using v(1) by simp
  have "length (Prime v) = length (Prime s)" using v(3) by (metis length_map)
  with d have dv: "suits d (emit z v)" by (simp add: suits_def)
  obtain u where u: "second_pass rn d t' = Some (Inr u)"
    using pass_from_read(2) [OF vz c' dv, where cells = "terminateAlg v" and p = 2] v(2,4) n' by auto
  obtain b' where "pass_end d (opened rn (terminateAlg v) (emit z v)) u b'"
    using pass_from_read(1) [OF vz c' dv _ u [unfolded v(4)]] v(2) by auto
  from that [OF t t' u v(1) this v(3)] show thesis .
qed

lemma driver_tail:
  assumes v: "as_read rn v" and e: "pass_end d (opened rn cells (emit z v)) u b"
  shows "\<exists>x w. bindO (Some (printProcessSpecifics (emit (title d) u))) (\<lambda>s.
     bindO (Some (printSummaryData fmt s)) (\<lambda>s. bindO (Some (Extra rn s)) (\<lambda>s. Some (Inr (emit (end_banner d) s))))) =
     Some (Inr (emit x w)) \<and> as_read rn w \<and>
     map (quantum_update (\<lambda>_. 2)) (Prime w) = map (quantum_update (\<lambda>_. 2)) (Prime v)"
proof -
  have l: "length (Prime (emit z v)) = unat (countPrime (emit z v))" using v by (simp add: as_read_def)
  have u: "length (Prime u) = unat (countPrime u)" using pass_end_facts [OF e] l by simp
  obtain x where x: "printProcessSpecifics (emit (title d) u) = Inr (emit x u)"
    using reports_print(2) [of "emit (title d) u"] u by auto
  obtain y where y: "printSummaryData fmt (emit x u) = Inr (emit y u)"
    using reports_print(3) [of "emit x u" fmt] u by auto
  have "as_read rn (emit z v)" using v by simp
  from reset_after_pass [OF this e, of y] obtain w where "Extra rn (emit y u) = Inr w" "as_read rn w"
    "map (quantum_update (\<lambda>_. 2)) (Prime w) = map (quantum_update (\<lambda>_. 2)) (Prime v)" by auto
  with x y show ?thesis by (intro exI [of _ "end_banner d"] exI [of _ w]) simp
qed

lemma driver_returns:
  assumes "as_read rn s" and "\<forall>q \<in> set (Prime s). total_C q \<noteq> 0" and "suits d s"
    and "(\<Sum>q \<leftarrow> Prime s. unat (total_C q)) \<le> lines_left rn"
  shows "\<exists>w. listoutputs fmt rn d s = Some (Inr w) \<and> as_read rn w \<and>
    map (quantum_update (\<lambda>_. 2)) (Prime w) = map (quantum_update (\<lambda>_. 2)) (Prime s)"
proof (rule passes_return [OF assms])
  fix t t' u v z cells b
  assume p: "first_pass rn d s = Some (Inr t)" "printFinal t = Inr t'" "second_pass rn d t' = Some (Inr u)"
    and v: "as_read rn v" "map (quantum_update (\<lambda>_. 2)) (Prime v) = map (quantum_update (\<lambda>_. 2)) (Prime s)"
    and e: "pass_end d (opened rn cells (emit z v)) u b"
  have k: "known_stream d = d" by (rule suits_known [OF assms(3)])
  from driver_tail [OF v(1) e, of fmt] p v(2) k show ?thesis by (auto simp: listoutputs_def Let_def)
qed

text \<open>
  C6: The driver as a whole returns for the disciplines first come first served, round robin and
  shortest job first, and for the uniprogrammed discipline if there is a single process: both passes end, every report is printed and every reset succeeds, if no process
  asks for no processor time and the file of random numbers has a line for each cycle of processor
  time. It leaves the processes as they were read, but for the quantum, so the next call starts from
  the same input.
\<close>
theorem listoutputs_returns:
  assumes "as_read rn s" and "\<forall>q \<in> set (Prime s). total_C q \<noteq> 0" and "suits d s"
    and "(\<Sum>q \<leftarrow> Prime s. unat (total_C q)) \<le> lines_left rn"
  shows "\<exists>w. listoutputs fmt rn d s = Some (Inr w) \<and> as_read rn w \<and>
    map (quantum_update (\<lambda>_. 2)) (Prime w) = map (quantum_update (\<lambda>_. 2)) (Prime s)"
  by (rule driver_returns [OF assms])

lemma passes_agree_witness:
  "\<exists>t t' u. first_pass ones 1 single = Some (Inr t) \<and> printFinal t = Inr t' \<and>
     second_pass ones 1 t' = Some (Inr u) \<and> report u = report t"
proof -
  obtain t t' u where p: "first_pass ones 1 single = Some (Inr t)" "printFinal t = Inr t'"
    "second_pass ones 1 t' = Some (Inr u)"
    by (rule passes_return [OF single_read(1,2) _ single_read(3), of 1]) auto
  with passes_agree [OF single_read(1,2) _ p] show ?thesis by simp
qed

lemma listoutputs_returns_witness:
  "\<exists>t. listoutputs (\<lambda>f x y. []) ones 2 single = Some (Inr t) \<and> map total_C (Prime t) = [2] \<and>
     map condition (Prime t) = [0]"
proof -
  obtain t where t: "listoutputs (\<lambda>f x y. []) ones 2 single = Some (Inr t)"
    "map (quantum_update (\<lambda>_. 2)) (Prime t) = map (quantum_update (\<lambda>_. 2)) (Prime single)"
    using listoutputs_returns [OF single_read(1,2) suits_single single_read(3)] by auto
  have "map (total_C \<circ> quantum_update (\<lambda>_. 2)) (Prime t) = map (total_C \<circ> quantum_update (\<lambda>_. 2)) (Prime single)"
    "map (condition \<circ> quantum_update (\<lambda>_. 2)) (Prime t) = map (condition \<circ> quantum_update (\<lambda>_. 2)) (Prime single)"
    unfolding map_map [symmetric] t(2) by (rule refl)+
  then have "map total_C (Prime t) = map total_C (Prime single)" "map condition (Prime t) = map condition (Prime single)"
    by (simp_all add: comp_def)
  then show ?thesis using t(1) by (simp add: single_def initial_sched_def new_process_def)
qed

section \<open>The program up to the uniprogrammed discipline\<close>

lemma read_processes_inputs: "read_processes k quads f = Inr ps \<Longrightarrow> map parameters ps = quads \<and> map (quantum_update (\<lambda>_. 2)) ps = ps"
  by (induction k quads f arbitrary: ps rule: read_processes.induct)
    (auto simp: bindE_eq_Inr_iff parameters_def new_process_def)

lemma input_as_read:
  assumes "read_processes 0 quads rn = Inr ps" and "length quads < 2 ^ 32"
  shows "as_read rn ((initial_sched ps)\<lparr>sumDat := x, ranomizeN := y\<rparr>)"
proof -
  note p = read_processes_inputs [OF assms(1)]
  then have "length ps = length quads" by (metis length_map)
  then have "length ps = unat (of_nat (length ps) :: u32)" using assms(2) by (simp add: unat_of_nat take_bit_nat_eq_self)
  then show ?thesis using p assms(1) by (simp add: as_read_def initial_sched_def reset_globals_def)
qed

lemma as_read_again:
  assumes "map (quantum_update (\<lambda>_. 2)) (Prime w) = map (quantum_update (\<lambda>_. 2)) (Prime s)"
  shows "map parameters (Prime w) = map parameters (Prime s)"
proof -
  have "map parameters (Prime v) = map parameters (map (quantum_update (\<lambda>_. 2)) (Prime v))" for v
    by (rule parameters_quantum [symmetric])
  then show ?thesis by (metis assms)
qed

lemma parameters_total:
  assumes "map parameters (Prime s) = quads"
  shows "(\<forall>q \<in> set (Prime s). total_C q \<noteq> 0) \<longleftrightarrow> (\<forall>(a, b, c, m) \<in> set quads. c \<noteq> 0)"
    "(\<Sum>q \<leftarrow> Prime s. unat (total_C q)) = (\<Sum>(a, b, c, m) \<leftarrow> quads. unat c)"
  using assms [symmetric] by (simp_all add: parameters_def comp_def)

lemma driver_from_file:
  assumes "as_read rn s" and q: "map parameters (Prime s) = quads" and "\<forall>(a, b, c, m) \<in> set quads. c \<noteq> 0"
    and "(\<Sum>(a, b, c, m) \<leftarrow> quads. unat c) \<le> lines_left rn" and "suits d s"
  obtains w where "listoutputs fmt rn d s = Some (Inr w)" "as_read rn w" "map parameters (Prime w) = quads"
proof -
  have c: "\<forall>q \<in> set (Prime s). total_C q \<noteq> 0" "(\<Sum>q \<leftarrow> Prime s. unat (total_C q)) \<le> lines_left rn"
    using parameters_total [OF q] assms(3,4) by auto
  from driver_returns [OF assms(1) c(1) assms(5) c(2), of fmt] obtain w where
    "listoutputs fmt rn d s = Some (Inr w)" "as_read rn w"
    "map (quantum_update (\<lambda>_. 2)) (Prime w) = map (quantum_update (\<lambda>_. 2)) (Prime s)" by blast
  with as_read_again [OF this(3)] q that show thesis by simp
qed

definition reported :: "u8 \<Rightarrow> sched \<Rightarrow> bool" where
  \<comment> \<open>the last thing printed is the end of the report of this discipline\<close>
  "reported d s \<longleftrightarrow> (\<exists>x. out_text s = x @ end_banner d)"

lemma listoutputs_reported: "listoutputs fmt rn d s = Some (Inr w) \<Longrightarrow> reported (known_stream d) w"
  by (auto simp: listoutputs_def Let_def bindO_eq_Inr_iff reported_def)

lemma main_reaches_uniprogrammed:
  assumes "input path = Some quads" and "length quads < 2 ^ 32" and "read_processes 0 quads rn = Inr ps"
    and "\<forall>(a, b, c, m) \<in> set quads. c \<noteq> 0" and "(\<Sum>(a, b, c, m) \<leftarrow> quads. unat c) \<le> lines_left rn"
  obtains v w where "listoutputs fmt rn 0 (initial_sched ps) = Some (Inr v)" "as_read rn v" "map parameters (Prime v) = quads"
    "listoutputs fmt rn 1 v = Some (Inr w)" "as_read rn w" "map parameters (Prime w) = quads"
    "main_sched fmt rn [prog, path] input = bindO (listoutputs fmt rn 2 w) (\<lambda>s. listoutputs fmt rn 3 s)"
proof -
  let ?s = "initial_sched ps"
  have "(initial_sched ps)\<lparr>sumDat := False, ranomizeN := False\<rparr> = ?s" by (simp add: initial_sched_def)
  then have s: "as_read rn ?s" using input_as_read [OF assms(3,2), of False False] by simp
  have ps: "map parameters (Prime ?s) = quads" using read_processes_inputs [OF assms(3)] by (simp add: initial_sched_def)
  note run = driver_from_file [OF _ _ assms(4,5), where fmt = fmt]
  obtain v where v: "listoutputs fmt rn 0 ?s = Some (Inr v)" "as_read rn v" "map parameters (Prime v) = quads"
    by (rule run [OF s ps suits_queued(1)])
  obtain w where w: "listoutputs fmt rn 1 v = Some (Inr w)" "as_read rn w" "map parameters (Prime w) = quads"
    by (rule run [OF v(2,3) suits_queued(2)])
  have "main_sched fmt rn [prog, path] input = bindO (listoutputs fmt rn 2 w) (\<lambda>s. listoutputs fmt rn 3 s)"
    using assms(1,3) v(1) w(1) by (simp add: main_sched_def arguments_def arg_def Let_def initial_sched_def)
  with v w that show thesis by blast
qed

text \<open>
  C7: The program, started on a readable file in which every process asks for some processor time, with
  enough random numbers, completes the report of first come first served, from the processes as it reads them, then
  that of round robin, from where the first report left off, each up to the line that ends it, and has after each the
  processes of the file again, as read. Then it calls \<open>listoutputs\<close> for the uniprogrammed discipline.
  If there is one process only, it also completes the reports of that and of shortest job first, and
  ends.
\<close>
theorem main_first_reports:
  assumes "input path = Some quads" and "length quads < 2 ^ 32" and "read_processes 0 quads rn = Inr ps"
    and "\<forall>(a, b, c, m) \<in> set quads. c \<noteq> 0" and "(\<Sum>(a, b, c, m) \<leftarrow> quads. unat c) \<le> lines_left rn"
  shows "\<exists>v w. listoutputs fmt rn 0 (initial_sched ps) = Some (Inr v) \<and> reported 0 v \<and>
    as_read rn v \<and> map parameters (Prime v) = quads \<and>
    listoutputs fmt rn 1 v = Some (Inr w) \<and> reported 1 w \<and> as_read rn w \<and> map parameters (Prime w) = quads \<and>
    main_sched fmt rn [prog, path] input = bindO (listoutputs fmt rn 2 w) (\<lambda>s. listoutputs fmt rn 3 s) \<and>
    (length quads = 1 \<longrightarrow> (\<exists>x z. listoutputs fmt rn 2 w = Some (Inr x) \<and> reported 2 x \<and>
      listoutputs fmt rn 3 x = Some (Inr z) \<and> reported 3 z \<and>
      main_sched fmt rn [prog, path] input = Some (Inr z)))"
proof (rule main_reaches_uniprogrammed [where input = input and path = path, OF assms, where fmt = fmt and prog = prog])
  fix v w
  assume v: "listoutputs fmt rn 0 (initial_sched ps) = Some (Inr v)" "as_read rn v" "map parameters (Prime v) = quads"
    and w: "listoutputs fmt rn 1 v = Some (Inr w)" "as_read rn w" "map parameters (Prime w) = quads"
    and m: "main_sched fmt rn [prog, path] input = bindO (listoutputs fmt rn 2 w) (\<lambda>s. listoutputs fmt rn 3 s)"
  note run = driver_from_file [OF _ _ assms(4,5), where fmt = fmt]
  have single: "\<exists>x z. listoutputs fmt rn 2 w = Some (Inr x) \<and> reported 2 x \<and> listoutputs fmt rn 3 x = Some (Inr z) \<and>
      reported 3 z \<and> main_sched fmt rn [prog, path] input = Some (Inr z)" if "length quads = 1"
  proof -
    have two: "suits 2 w" using w(3) that by (auto simp: suits_def)
    obtain x where x: "listoutputs fmt rn 2 w = Some (Inr x)" "as_read rn x" "map parameters (Prime x) = quads"
      by (rule run [OF w(2,3) two])
    obtain z where z: "listoutputs fmt rn 3 x = Some (Inr z)" by (rule run [OF x(2,3) suits_queued(3)])
    then show ?thesis using listoutputs_reported [OF x(1)] listoutputs_reported [OF z] x(1) m by (simp add: known_stream_def)
  qed
  show ?thesis
    using listoutputs_reported [OF v(1)] listoutputs_reported [OF w(1)] v w m single
    by (intro exI [of _ v] exI [of _ w]) (simp add: known_stream_def)
qed

lemma main_first_reports_witness:
  "\<exists>v w z. listoutputs (\<lambda>f x y. []) ones 0 (initial_sched (Prime single)) = Some (Inr v) \<and> reported 0 v \<and>
    listoutputs (\<lambda>f x y. []) ones 1 v = Some (Inr w) \<and> reported 1 w \<and> map parameters (Prime w) = [(0, 1, 2, 1)] \<and>
    main_sched (\<lambda>f x y. []) ones [''scheduler'', ''in''] (\<lambda>_. Some [(0, 1, 2, 1)]) = Some (Inr z) \<and> reported 3 z"
proof -
  have "read_processes 0 [(0, 1, 2, 1)] ones = Inr (Prime single)" by code_simp
  moreover have "(2::nat) \<le> lines_left ones" by code_simp
  ultimately show ?thesis
    using main_first_reports [of "\<lambda>_. Some [(0, 1, 2, 1)]" "''in''" "[(0, 1, 2, 1)]" ones "Prime single"
        "\<lambda>f x y. []" "''scheduler''"] by auto
qed

section \<open>One process under several disciplines\<close>

lemma a_cycle_single:
  assumes inv: "spec_inv a" and len: "length (procs a) = 1" and d: "d \<in> {0, 2, 3}"
  shows "a_cycle d a = a_cycle 0 a"
proof -
  have d1: "d \<noteq> 1" using d by auto
  then have f: "a_forward d a = a_forward 0 a" by (cases "running a") (simp_all add: a_forward_def Let_def)
  let ?m = "a_admit (a_unblock (a_forward 0 a))"
  have st: "structured ?m" using before_dispatch_mid [OF inv, of 0] by (simp add: mid_inv_def)
  have "map static (procs ?m) = map static (procs a)" by (simp add: a_admit_map a_unblock_map a_forward_map)
  then have "length (procs ?m) = 1" using len by (metis length_map)
  then have m: "ready ?m = [] \<or> ready ?m = [0]" using structured_alone [OF st] by blast
  have burst: "start_burst d = start_burst 0" and tick: "tick_process d = tick_process 0"
    using d1 by (simp_all add: start_burst_def tick_process_def fun_eq_iff)
  have "a_dispatch d ?m = a_dispatch 0 ?m"
  proof (cases "ready ?m = []")
    case False
    then have "pick d ?m = pick 0 ?m" using m by (auto simp: pick_def)
    then show ?thesis unfolding a_dispatch_def burst by simp
  qed (simp add: a_dispatch_def)
  moreover have "a_tick d = a_tick 0" by (simp add: a_tick_def tick fun_eq_iff)
  ultimately show ?thesis by (simp add: a_cycle_eq f)
qed

lemma a_pass_single:
  "a_pass d a b \<Longrightarrow> spec_inv a \<Longrightarrow> length (procs a) = 1 \<Longrightarrow> d \<in> {0, 2, 3} \<Longrightarrow> a_pass 0 a b"
proof (induction rule: a_pass.induct)
  case (ended a)
  then show ?case by (simp add: a_pass.ended)
next
  case (cycle a b c)
  have "a_cycle 0 a = Inr b" using a_cycle_single [OF cycle.prems(1,2,3)] cycle(2) by simp
  moreover have len: "length (procs b) = 1" using a_cycle_static [OF cycle(2)] cycle.prems(2) by (metis length_map)
  have "a_pass 0 b c" by (rule cycle.IH [OF a_cycle_inv [OF cycle.prems(1) cycle(2)] len cycle.prems(3)])
  ultimately show ?case by (rule a_pass.cycle [OF cycle(1)])
qed

text \<open>
  C8: For a single process that asks for some processor time three of the disciplines are the same: first come first served, the uniprogrammed
  discipline and shortest job first print the same figures.
\<close>
theorem single_process_same:
  assumes "as_read rn s" and "length (Prime s) = 1" and "\<forall>q \<in> set (Prime s). total_C q \<noteq> 0"
    and "{d, d'} \<subseteq> {0, 2, 3}" and "first_pass rn d s = Some (Inr t)" and "first_pass rn d' s = Some (Inr u)"
  shows "report t = report u"
proof -
  have l: "length (Prime s) = unat (countPrime s)" using assms(1) by (simp add: as_read_def)
  have run: "\<exists>x b. pass_end 0 (opened rn (replicate (length (Prime s)) None) (emit x s)) t b"
    if f: "first_pass rn d s = Some (Inr t)" and in3: "d \<in> {0, 2, 3}" for d t
  proof -
    have d: "suits d s" using in3 assms(2) by (auto simp: suits_def)
    obtain x where x: "first_pass rn d s = datapoints 1 d (opened rn (replicate (length (Prime s)) None) (emit x s))"
      using first_pass_eq [OF assms(1) suits_known [OF d]] by blast
    have e: "as_read rn (emit x s)" using assms(1) by simp
    obtain b where b: "pass_end d (opened rn (replicate (length (Prime s)) None) (emit x s)) t b"
      using pass_from_read(1) [OF e _ _ _ f [unfolded x]] d assms(3) by auto
    have "fresh_pass (opened rn (replicate (length (Prime s)) None) (emit x s))"
      using as_read_fresh [OF e] assms(3) by simp
    then have "spec_inv (start_of (opened rn (replicate (length (Prime s)) None) (emit x s)))" by (rule fresh_inv)
    then show ?thesis using a_pass_single [OF _ _ _ in3] b assms(2)
      unfolding pass_end_def by (auto simp: start_of_def)
  qed
  obtain x b y c where b: "pass_end 0 (opened rn (replicate (length (Prime s)) None) (emit x s)) t b"
    and c: "pass_end 0 (opened rn (replicate (length (Prime s)) None) (emit y s)) u c"
    using run assms(4-6) by (metis insert_subset)
  have "fresh_pass (opened rn (replicate (length (Prime s)) None) (emit z s))" for z
    using as_read_fresh [of rn "emit z s"] assms(1,3) by simp
  then have "plain 0 b = plain 0 c"
    using plain_pass [of 0 _ b _ c] b c fresh_inv plain_start_of [OF assms(1,1) refl]
    unfolding pass_end_def by blast
  then show ?thesis using report_plain [OF b c] l by simp
qed

lemma single_process_same_witness:
  "\<exists>t u. first_pass ones 2 single = Some (Inr t) \<and> first_pass ones 3 single = Some (Inr u) \<and> report t = report u"
proof -
  obtain t where t: "first_pass ones 2 single = Some (Inr t)"
    by (rule passes_return [OF single_read(1,2) suits_single single_read(3)])
  obtain u where u: "first_pass ones 3 single = Some (Inr u)"
    by (rule passes_return [OF single_read(1,2) suits_queued(3) single_read(3)])
  have "length (Prime single) = 1" by (simp add: single_def initial_sched_def)
  from single_process_same [OF single_read(1) this single_read(2) _ t u] t u show ?thesis by simp
qed

end
