(* ===== verification/Sched_Crash.thy ===== *)
theory Sched_Crash
  imports Sched_Passes
begin

text \<open>
  The uniprogrammed discipline of lab3/scheduler.c with several processes that arrive together. The first process that is
  paused takes the ready queue with it (\<open>pauseQue\<close> sets its head to its tail), while the counter still says how
  long it was. The loop that pauses the others then takes the last process, which leaves the head a null pointer, and
  follows that. Here: where the loop fails, that the first cycle of a pass gets there, and that the program does.
\<close>

section \<open>The loop that pauses processes\<close>

text \<open>The first round pauses the head and moves the head of the queue to its tail.\<close>

lemma pause_first:
  assumes "ready_rep s (x # xs @ [l])" and "PauseQ s = 0"
  obtains t where "pause_one s = Inr t" "selection t = selection s" "Afront t = Some l" "l < length (Prime t)"
    "freshPrime (Prime t ! l) = None" "PauseQ t \<noteq> 0" "Pauseback t = Some x" "x < length (Prime t)"
    "placement t = placement s - 1"
proof -
  have r: "lrep (map freshPrime (Prime s)) (Afront s) (Aback s) (placement s) ((x # xs) @ [l])"
    using assms(1) by (simp add: ready_rep_def)
  have x: "Afront s = Some x" "x < length (Prime s)" "l < length (Prime s)" "Aback s = Some l"
    and n: "unat (placement s) = Suc (Suc (length xs))"
    using r by (auto simp: lrep_def lastp_def)
  have l: "freshPrime (Prime s ! l) = None" using lrep_last_next [OF r] x(3) by simp
  have d: "x \<noteq> l" using lrep_distinct [OF r] by simp
  have "unat (placement s - 1) \<noteq> 0" using n by (subst unat_minus_one) auto
  then have p: "placement s \<noteq> 0" "placement s - 1 \<noteq> 0" using n by auto
  show thesis
  proof (rule that)
    show "pause_one s = Inr (s\<lparr>Prime := (Prime s)[x := (Prime s ! x)\<lparr>freshPrime := None, condition := 1\<rparr>],
        placement := placement s - 1, Pausefront := Some x, Pauseback := Some x, Afront := Some l, PauseQ := 1\<rparr>)"
      using x p assms(2) by (simp add: pause_one_def dsetup_def Let_def load_def store_def pauseQue_def)
  qed (use x l d in simp_all)
qed

text \<open>The second takes the last process, and leaves the head a null pointer.\<close>

lemma pause_second:
  assumes "Afront s = Some l" "l < length (Prime s)" "freshPrime (Prime s ! l) = None" "PauseQ s \<noteq> 0"
    and "Pauseback s = Some x" "x < length (Prime s)" "placement s \<noteq> 0" "placement s - 1 \<noteq> 0"
  obtains t where "pause_one s = Inr t" "selection t = selection s" "Afront t = None" "placement t = placement s - 1"
  using assms that by (simp add: pause_one_def dsetup_def Let_def load_def store_def pauseQue_def)

text \<open>The third follows it.\<close>

lemma pause_third: "Afront s = None \<Longrightarrow> placement s \<noteq> 0 \<Longrightarrow> pause_one s = Inl NullDeref"
  by (simp add: pause_one_def dsetup_def Let_def load_def)

lemma pause_loop_crash:
  assumes "ready_rep s xs" and "5 \<le> length xs" and "PauseQ s = 0"
    and guard: "\<And>t. selection t = selection s \<Longrightarrow> guard t"
  shows "pause_loop guard 0 s = Inl NullDeref"
proof -
  obtain x ys where x: "xs = x # ys" "ys \<noteq> []" using assms(2) by (cases xs; cases "tl xs") auto
  then obtain zs l where xs: "xs = x # zs @ [l]" by (metis rev_exhaust)
  have n: "5 \<le> unat (placement s)" using assms(1,2) by (simp add: ready_rep_def lrep_def)
  have n1: "unat (placement s - 1) = unat (placement s) - 1" using n by (intro unat_minus_one) auto
  have n2: "unat (placement s - 1 - 1) = unat (placement s) - 2" using n n1 by (subst unat_minus_one) auto
  obtain t where t: "pause_one s = Inr t" "selection t = selection s" "Afront t = Some l" "l < length (Prime t)"
    "freshPrime (Prime t ! l) = None" "PauseQ t \<noteq> 0" "Pauseback t = Some x" "x < length (Prime t)"
    "placement t = placement s - 1"
    by (rule pause_first [OF assms(1) [unfolded xs] assms(3)])
  have p: "placement t \<noteq> 0" "placement t - 1 \<noteq> 0" using n n1 n2 unfolding t(9) by auto
  obtain u where u: "pause_one t = Inr u" "selection u = selection t" "Afront u = None" "placement u = placement t - 1"
    by (rule pause_second [OF t(3-8) p])
  have q: "placement u \<noteq> 0" using p(2) by (simp add: u(4))
  have g: "guard s" "guard t" "guard u" using guard t(2) u(2) by simp_all
  have m: "0 < unat (placement s)" "Suc 0 < unat (placement t)" "Suc (Suc 0) < unat (placement u)"
    using n n1 n2 by (simp_all add: t(9) u(4))
  show ?thesis
    using m g t(1) u(1) pause_third [OF u(3) q]
    by (simp add: pause_loop_unfold [of guard 0 s] pause_loop_unfold [of guard "Suc 0" t] pause_loop_unfold [of guard "Suc (Suc 0)" u])
qed

section \<open>The first cycle of a pass\<close>

text \<open>Up to the dispatch nothing happens but that the processes arrive.\<close>

lemma first_arrivals:
  assumes f: "fresh_pass s" and some: "filter (\<lambda>q. arr_A q = 0) (Prime s) \<noteq> []"
  obtains t where "refines t (a_arrive (start_of s))" "mid_inv True (a_arrive (start_of s))" "PauseQ t = PauseQ s"
    "datapoint p 2 s = bindE (executeR 2 p t) (\<lambda>s. bindE (countdown 2 s) (\<lambda>s. Inr (s\<lparr>present := present s + 1\<rparr>)))"
proof -
  let ?a = "start_of s"
  note inv = fresh_inv [OF f]
  have st: "structured ?a" using inv by (simp add: spec_inv_def)
  have n: "length (Prime s) = unat (countPrime s)" "Prime s \<noteq> []" using f some by (auto simp: fresh_pass_def)
  then have c: "countPrime s \<noteq> 0" by auto
  have e: "a_unblock (a_forward 2 ?a) = ?a" by (simp add: a_unblock_def a_forward_def start_of_def)
  have "arrived ?a \<noteq> of_nat (length (procs ?a))" using n(1) c by (simp add: start_of_def)
  then have m: "mid_inv True (a_arrive ?a)"
    using before_dispatch_mid [OF inv, of 2] by (simp add: e a_admit_def)
  obtain s0 where s0: "print_cycle p s = Inr s0" "refines s0 ?a"
    using print_cycle_refines [OF fresh_refines [OF f] st] by blast
  have k0: "kept s s0" using keeps_print_cycle [OF kept_refl] s0(1) by (auto simp: keeps_def)
  have q: "selection s0 = None" "BlockQ s0 = 0" "totalPrime s0 \<noteq> countPrime s0"
  proof -
    have l: "lrep (map pushBlock (Prime s0)) (Blockfront s0) (Blockback s0) (BlockQ s0) []"
      using s0(2) by (simp add: refines_def block_rep_def start_of_def)
    have "length (Prime s0) = length (Prime s)" using k0 by (simp add: kept_def)
    then have "unat (countPrime s0) = length (Prime s)" using s0(2) by (simp add: refines_def)
    with l n(2) s0(2) show "selection s0 = None" "BlockQ s0 = 0" "totalPrime s0 \<noteq> countPrime s0"
      by (auto simp: lrep_0_iff refines_def start_of_def)
  qed
  have "i \<notin> set (ready ?a)" for i by (simp add: start_of_def)
  then obtain t where t: "creation s0 = Inr t" "refines t (a_arrive ?a)"
    using creation_refines [OF s0(2) structuredD(1) [OF st]] by blast
  have "kept s t" using keeps_creation [OF k0] t(1) by (auto simp: keeps_def)
  then have "PauseQ t = PauseQ s" by (simp add: kept_def)
  moreover have "datapoint p 2 s = bindE (executeR 2 p t) (\<lambda>s. bindE (countdown 2 s) (\<lambda>s. Inr (s\<lparr>present := present s + 1\<rparr>)))"
    using s0(1) q t(1) by (simp add: datapoint_def proceedForward_def execxuteB_def)
  ultimately show thesis using that t(2) m by blast
qed

lemma first_cycle_crash:
  assumes f: "fresh_pass s" and q: "PauseQ s = 0" and six: "6 \<le> length (filter (\<lambda>q. arr_A q = 0) (Prime s))"
    and B: "\<forall>q \<in> set (Prime s). burst_B q \<noteq> 0" and num: "lines_left (randomFile s) \<noteq> 0"
  shows "datapoint p 2 s = Inl NullDeref"
proof -
  let ?b = "a_arrive (start_of s)"
  have "filter (\<lambda>q. arr_A q = 0) (Prime s) \<noteq> []" using six by auto
  then obtain t where t: "refines t ?b" "mid_inv True ?b" "PauseQ t = PauseQ s"
    "datapoint p 2 s = bindE (executeR 2 p t) (\<lambda>s. bindE (countdown 2 s) (\<lambda>s. Inr (s\<lparr>present := present s + 1\<rparr>)))"
    by (rule first_arrivals [OF f])
  have st: "structured ?b" and bud: "\<forall>q \<in> set (procs ?b). budget True q" using t(2) by (simp_all add: mid_inv_def)
  have "length (ready ?b) = length (filter (\<lambda>i. arr_A (Prime s ! i) = 0) [0..<length (Prime s)])"
    by (auto simp: a_arrive_def arriving_def start_of_def intro!: arg_cong [where f = length] filter_cong)
  then have len: "6 \<le> length (ready ?b)" using six length_filter_nth [of "\<lambda>q. arr_A q = 0" "Prime s"] by simp
  then have ne: "ready ?b \<noteq> []" by auto
  have run: "running ?b = None" by (simp add: a_arrive_def start_of_def)
  have rep: "ready_rep t (ready ?b)" using t(1) by (simp add: refines_def)
  have pl: "placement t \<noteq> 0" using rep ne by (auto simp: ready_rep_def lrep_0_iff)
  have sel: "selection t = None" using t(1) run by (simp add: refines_def)
  have PQ: "PauseQ t = 0" using t(3) q by simp
  have "executeR 2 p t = Inl NullDeref"
  proof (cases "namelessOp t \<noteq> None \<and> Afront t \<noteq> namelessOp t")
    case True
    have "pause_loop (\<lambda>s. True) 0 t = Inl NullDeref" by (rule pause_loop_crash [OF rep _ PQ]) (use len in simp_all)
    then show ?thesis using True pl by (simp add: executeR_def)
  next
    case False
    let ?j = "hd (ready ?b)"
    have j: "pick 2 ?b = ?j" "?j < length (procs ?b)" using structuredD(2) [OF st] ne by (simp_all add: pick_def)
    have "burst_B (procs ?b ! ?j) \<noteq> 0"
      using B j(2) by (auto simp: a_arrive_def start_of_def nth_mem)
    moreover obtain x rest where "read_number 20 (numbers ?b) = Inr (x, rest)"
      using read_number_lines [OF num] by (auto simp: a_arrive_def start_of_def)
    ultimately obtain c where c: "a_dispatch 2 ?b = Inr c" "ready c = remove1 ?j (ready ?b)" "running c = Some ?j"
      using ne run by (auto simp: a_dispatch_def Let_def j(1) new_burst_def)
    with dispatch_head_refines [OF t(1) st ne run bud, of 2 p] obtain u where
      u: "dispatch_head 2 p t = Inr u" "refines u c" by auto
    have "kept t u" using keeps_dispatch_head [OF kept_refl, of t 2 p] u(1) by (auto simp: keeps_def)
    then have PQu: "PauseQ u = 0" using PQ by (simp add: kept_def)
    have ru: "ready_rep u (remove1 ?j (ready ?b))" "selection u = Some ?j" using u(2) c by (simp_all add: refines_def)
    have lu: "5 \<le> length (remove1 ?j (ready ?b))" using len ne by (simp add: length_remove1)
    have "remove1 ?j (ready ?b) \<noteq> []" using lu by auto
    then have "placement u \<noteq> 0" using ru(1) by (auto simp: ready_rep_def lrep_0_iff)
    moreover have "pause_loop (\<lambda>s. selection s \<noteq> None) 0 u = Inl NullDeref"
      by (rule pause_loop_crash [OF ru(1) lu PQu]) (simp add: ru(2))
    ultimately show ?thesis using False pl sel PQ u(1) by (auto simp: executeR_def)
  qed
  then show ?thesis by (simp add: t(4))
qed

section \<open>The program\<close>

lemma discipline_crash:
  assumes r: "as_read rn w" and "\<forall>q \<in> set (Prime w). total_C q \<noteq> 0" and "lines_left rn \<noteq> 0"
    and "6 \<le> length (filter (\<lambda>q. arr_A q = 0) (Prime w))"
  shows "listoutputs fmt rn 2 w = Some (Inl NullDeref)"
proof -
  obtain x where x: "first_pass rn 2 w = datapoints 1 2 (opened rn (replicate (length (Prime w)) None) (emit x w))"
    using first_pass_eq [OF r, of 2] by (auto simp: known_stream_def)
  let ?s = "opened rn (replicate (length (Prime w)) None) (emit x w)"
  have e: "as_read rn (emit x w)" using r by simp
  have f: "fresh_pass ?s" by (rule as_read_fresh [OF e]) (use assms(2) in simp_all)
  have "\<forall>q \<in> set (Prime w). burst_B q \<noteq> 0" using as_read_fields(8) [OF r] by (metis in_set_conv_nth)
  moreover have "PauseQ w = PauseQ (reset_globals w)" using r by (simp add: as_read_def)
  then have "PauseQ ?s = 0" by (simp add: reset_globals_def opened_def emit_def)
  ultimately have "datapoint 1 2 ?s = Inl NullDeref"
    using assms(3,4) by (intro first_cycle_crash [OF f]) simp_all
  moreover have "completion ?s \<noteq> countPrime ?s"
  proof
    assume "completion ?s = countPrime ?s"
    then have "length (Prime w) = 0" using f r by (simp add: fresh_pass_def)
    then show False using assms(4) by simp
  qed
  ultimately have "first_pass rn 2 w = Some (Inl NullDeref)" unfolding x by (simp add: datapoints.simps)
  then show ?thesis by (simp add: listoutputs_def)
qed

text \<open>
  C37: The program crashes on every ordinary input in which six or more processes arrive at time 0: if the file can be
  read, every process asks for some processor time and there are enough random numbers, it
  completes the reports of first come first served and round robin, and then follows a
  null pointer in the first cycle of the uniprogrammed discipline. It never gets to shortest job first.
\<close>
theorem uniprogrammed_crash:
  assumes "input path = Some quads" and "length quads < 2 ^ 32" and "read_processes 0 quads rn = Inr ps"
    and "\<forall>(a, b, c, m) \<in> set quads. c \<noteq> 0" and "(\<Sum>(a, b, c, m) \<leftarrow> quads. unat c) \<le> lines_left rn"
    and "6 \<le> length (filter (\<lambda>(a, b, c, m). a = 0) quads)"
  shows "\<exists>v w. listoutputs fmt rn 0 (initial_sched ps) = Some (Inr v) \<and> listoutputs fmt rn 1 v = Some (Inr w) \<and>
    listoutputs fmt rn 2 w = Some (Inl NullDeref) \<and> main_sched fmt rn [prog, path] input = Some (Inl NullDeref)"
proof (rule main_reaches_uniprogrammed [where input = input and path = path, OF assms(1-5), where fmt = fmt and prog = prog])
  fix v w
  assume v: "listoutputs fmt rn 0 (initial_sched ps) = Some (Inr v)"
    and w: "listoutputs fmt rn 1 v = Some (Inr w)" "as_read rn w" "map parameters (Prime w) = quads"
    and m: "main_sched fmt rn [prog, path] input = bindO (listoutputs fmt rn 2 w) (\<lambda>s. listoutputs fmt rn 3 s)"
  have c: "\<forall>q \<in> set (Prime w). total_C q \<noteq> 0" using parameters_total(1) [OF w(3)] assms(4) by simp
  have six: "6 \<le> length (filter (\<lambda>q. arr_A q = 0) (Prime w))"
    using assms(6) unfolding w(3) [symmetric] by (simp add: filter_map comp_def parameters_def)
  then obtain q where "q \<in> set (Prime w)" by (cases "Prime w") auto
  then have "(\<Sum>q \<leftarrow> Prime w. unat (total_C q)) \<noteq> 0" using c by (auto simp: sum_list_eq_0_iff unat_eq_zero)
  then have "lines_left rn \<noteq> 0" using assms(5) parameters_total(2) [OF w(3)] by linarith
  from discipline_crash [OF w(2) c this six, of fmt] v w(1) m show ?thesis by auto
qed

definition six_jobs :: "(u32 \<times> u32 \<times> u32 \<times> u32) list" where
  "six_jobs = replicate 6 (0, 1, 1, 1)"

definition six_ones :: string where
  "six_ones = concat (replicate 6 (''1'' @ [newline]))"

theorem uniprogrammed_crash_witness:
  "main_sched (\<lambda>f x y. []) six_ones [''scheduler'', ''in''] (\<lambda>_. Some six_jobs) = Some (Inl NullDeref)"
proof -
  have "(case read_processes 0 six_jobs six_ones of Inl e \<Rightarrow> False | Inr ps \<Rightarrow> True)" by code_simp
  then obtain ps where "read_processes 0 six_jobs six_ones = Inr ps" by (auto split: sum.splits)
  moreover have "\<forall>(a, b, c, m) \<in> set six_jobs. c \<noteq> 0" "6 \<le> length (filter (\<lambda>(a, b, c, m). a = 0) six_jobs)"
    "length six_jobs < 2 ^ 32" by (simp_all add: six_jobs_def)
  moreover have "(\<Sum>(a, b, c, m) \<leftarrow> six_jobs. unat c) \<le> lines_left six_ones" by code_simp
  ultimately show ?thesis
    using uniprogrammed_crash [of "\<lambda>_. Some six_jobs" "''in''" six_jobs six_ones ps "\<lambda>f x y. []" "''scheduler''"]
    by blast
qed

end
