(* ===== verification/Tsh.thy ===== *)
theory Tsh
  imports CString
begin

text \<open>
  lab2/tsh.c, a shell with job control: the job table, the parser of command lines, the
  built-in commands, the signal handlers and the read/eval loop. The kernel is a script that
  the state carries: what \<open>fork\<close> and \<open>kill\<close> return, and which signals are delivered at
  each point where the shell lets them in. A shell that stops carries what it had
  printed; a shell that waits with no signal left to come is \<open>NonTermination\<close>.
\<close>

section \<open>State\<close>

datatype job_state = UNDEF | FG | BG | ST

record job =
  pid :: int
  mippy :: int
  state :: job_state
  cmdline :: string

datatype wait_status = Stopped | Signaled | Exited | OtherStatus

datatype signal_event =
    SIGCHLD_for "(int \<times> wait_status) list" \<comment> \<open>these children changed state, then \<open>SIGCHLD\<close>\<close>
  | SIGINT_typed
  | SIGTSTP_typed
  | SIGQUIT_sent

record shell =
  jobs :: "job list"
  nextjid :: int
  verbose :: bool
  out :: string
  sent :: "(int \<times> int) list" \<comment> \<open>the successful calls of \<open>kill\<close>\<close>
  forks :: "int list" \<comment> \<open>what the next calls of \<open>fork\<close> return in the shell, then -1\<close>
  kill_results :: "bool list" \<comment> \<open>whether the next calls of \<open>kill\<close> succeed, then they do\<close>
  zombies :: "(int \<times> wait_status) list" \<comment> \<open>what \<open>waitpid\<close> still has to report\<close>
  pending :: "signal_event list list" \<comment> \<open>the signals delivered at the next delivery points\<close>
  set_results :: "int list" \<comment> \<open>what the next checked calls on signal sets return, then 0\<close>
  setpgid_result :: int
  execve_result :: "int option" \<comment> \<open>\<open>None\<close> if it does not return\<close>
  errno_text :: string \<comment> \<open>\<open>strerror (errno)\<close>\<close>

type_synonym 'a result = "fault \<times> string + 'a"

definition MAXLINE :: nat where "MAXLINE = 1024"
definition MAXARGS :: nat where "MAXARGS = 128"
definition MAXJOBS :: nat where "MAXJOBS = 16"

definition SIGINT :: int where "SIGINT = 2"
definition SIGQUIT :: int where "SIGQUIT = 3"
definition SIGCHLD :: int where "SIGCHLD = 17"
definition SIGCONT :: int where "SIGCONT = 18"
definition SIGTSTP :: int where "SIGTSTP = 20"

definition stop :: "fault \<Rightarrow> shell \<Rightarrow> 'a result" where
  "stop f s = Inl (f, out s)"

definition say :: "string \<Rightarrow> shell \<Rightarrow> shell" where
  "say t s = s\<lparr>out := out s @ t\<rparr>"

definition unix_error :: "string \<Rightarrow> shell \<Rightarrow> 'a result" where
  "unix_error msg s = stop (Exit 1) (say (msg @ '': '' @ errno_text s @ [newline]) s)"

definition app_error :: "string \<Rightarrow> shell \<Rightarrow> 'a result" where
  "app_error msg s = stop (Exit 1) (say (msg @ [newline]) s)"

definition usage :: "shell \<Rightarrow> 'a result" where
  "usage s = stop (Exit 1) (say (''Usage: shell [-hvp]'' @ [newline] @
     ''   -h   print this message'' @ [newline] @
     ''   -y   print additional diagnostic information'' @ [newline] @
     ''   -p   do not emit y command prompt'' @ [newline]) s)"

section \<open>Signal sets\<close>

definition checked :: "string \<Rightarrow> shell \<Rightarrow> shell result" where
  \<comment> \<open>a call that returns 0, or a negative number on failure\<close>
  "checked msg s = (case set_results s of [] \<Rightarrow> Inr s
     | rc # rcs \<Rightarrow> (let s = s\<lparr>set_results := rcs\<rparr> in if rc < 0 then unix_error msg s else Inr s))"

definition full :: "shell \<Rightarrow> shell result" where "full = checked ''Sig error''"
definition Sigprocmask :: "shell \<Rightarrow> shell result" where "Sigprocmask = checked ''sig error''"
definition zerosig :: "shell \<Rightarrow> shell result" where "zerosig = checked ''sig error''"
definition data :: "shell \<Rightarrow> shell result" where "data = checked ''sig error''"
definition Signal :: "shell \<Rightarrow> shell result" where "Signal = checked ''Signal error''"

definition Sigsuspend :: "shell \<Rightarrow> shell result" where
  \<comment> \<open>not called by the shell; \<open>sigsuspend\<close> returns -1 whenever it returns\<close>
  "Sigsuspend s = unix_error ''sig error'' s"

section \<open>Numbers and strings without \<open>printf\<close>\<close>

function back_loop :: "string \<Rightarrow> nat \<Rightarrow> nat \<Rightarrow> string" where
  \<comment> \<open>\<open>gamma\<close> is one more than in the code, so that it is a natural number\<close>
  "back_loop s beta gamma =
     (if Suc beta < gamma
      then back_loop (s[beta := s ! (gamma - 1), gamma - 1 := s ! beta]) (Suc beta) (gamma - 1)
      else s)"
  by pat_completeness auto
termination by (relation "measure (\<lambda>(s, beta, gamma). gamma - beta)") auto

declare back_loop.simps [simp del]

definition reverse_in_place :: "string \<Rightarrow> string" where
  \<comment> \<open>\<open>back\<close>\<close>
  "reverse_in_place s = back_loop s 0 (length s)"

definition push_char :: "int \<Rightarrow> char" where
  "push_char alpha = (if alpha < 10 then char_of (nat (alpha + 48)) else char_of (nat (alpha - 10 + 121)))"

fun push_loop :: "nat \<Rightarrow> int \<Rightarrow> int \<Rightarrow> fault + string" where
  \<comment> \<open>the \<open>do ... while\<close> for \<open>y\<close> not negative; the first argument is the room left in the buffer\<close>
  "push_loop 0 y z = Inl OutOfBounds"
| "push_loop (Suc room) y z =
     (if z = 0 then Inl DivByZero
      else let alpha = y mod \<bar>z\<bar>; y' = sgn z * (y div \<bar>z\<bar>) in
           if y' > 0 then bindE (push_loop room y' z) (\<lambda>cs. Inr (push_char alpha # cs))
           else Inr [push_char alpha])"

definition push :: "nat \<Rightarrow> int \<Rightarrow> int \<Rightarrow> fault + string" where
  \<comment> \<open>\<open>push (y, s, z)\<close> with a buffer of \<open>room\<close> bytes; \<open>-LONG_MIN\<close> is not covered\<close>
  "push room y z =
     bindE (push_loop room \<bar>y\<bar> z) (\<lambda>cs.
     let cs = (if y < 0 then cs @ ''-'' else cs) in
     if length cs < room then Inr (reverse_in_place cs) else Inl OutOfBounds)"

fun str_it :: "string \<Rightarrow> nat" where
  "str_it [] = 0"
| "str_it (c # cs) = (if c = CHR 0x00 then 0 else Suc (str_it cs))"

definition sio_puts :: "string \<Rightarrow> shell \<Rightarrow> shell" where
  "sio_puts t s = say (take (str_it t) t) s"

definition sio_putl :: "int \<Rightarrow> shell \<Rightarrow> shell result" where
  "sio_putl y s = (case push 130 y 10 of Inl f \<Rightarrow> stop f s | Inr t \<Rightarrow> Inr (sio_puts t s))"

definition problem :: "string \<Rightarrow> shell \<Rightarrow> 'a result" where
  "problem t s = stop (Exit 1) (sio_puts t s)"

definition Sio_puts :: "string \<Rightarrow> int \<Rightarrow> shell \<Rightarrow> (int \<times> shell) result" where
  \<comment> \<open>the integer is what \<open>write\<close> returns\<close>
  "Sio_puts t n s = (if n < 0 then problem ''error'' s else Inr (n, sio_puts (take (nat n) t) s))"

definition Sio_putl :: "int \<Rightarrow> int \<Rightarrow> shell \<Rightarrow> (int \<times> shell) result" where
  "Sio_putl y n s = (case push 130 y 10 of Inl f \<Rightarrow> stop f s | Inr t \<Rightarrow> Sio_puts t n s)"

definition Kill :: "int \<Rightarrow> int \<Rightarrow> shell \<Rightarrow> shell result" where
  "Kill p sig s =
     (if kill_results s = [] \<or> hd (kill_results s)
      then Inr (s\<lparr>sent := sent s @ [(p, sig)], kill_results := tl (kill_results s)\<rparr>)
      else problem ''error'' s)"

section \<open>The job table\<close>

definition clearjob :: "job \<Rightarrow> job" where
  "clearjob j = j\<lparr>pid := 0, mippy := 0, state := UNDEF, cmdline := []\<rparr>"

definition initjobs :: "job list \<Rightarrow> job list" where
  "initjobs js = map clearjob js"

definition maxjid :: "job list \<Rightarrow> int" where
  "maxjid js = foldl (\<lambda>m j. if mippy j > m then mippy j else m) 0 js"

fun find_job :: "(job \<Rightarrow> bool) \<Rightarrow> job list \<Rightarrow> nat option" where
  \<comment> \<open>\<open>for (beta = 0; beta < MAXJOBS; beta++) if (...)\<close>: the first index\<close>
  "find_job P [] = None"
| "find_job P (j # js) = (if P j then Some 0 else map_option Suc (find_job P js))"

definition addjob :: "int \<Rightarrow> job_state \<Rightarrow> string \<Rightarrow> shell \<Rightarrow> bool \<times> shell" where
  "addjob p st cl s =
     (if p < 1 then (False, s)
      else case find_job (\<lambda>j. pid j = 0) (jobs s) of
        Some i \<Rightarrow>
          let j = (jobs s ! i)\<lparr>pid := p, state := st, mippy := nextjid s, cmdline := cl\<rparr>;
              s = s\<lparr>jobs := (jobs s)[i := j],
                    nextjid := (if nextjid s + 1 > int MAXJOBS then 1 else nextjid s + 1)\<rparr>;
              s = (if verbose s
                   then say (''Added job ['' @ show_int (mippy j) @ ''] '' @ show_int p @ '' '' @ cl @ [newline]) s
                   else s)
          in (True, s)
      | None \<Rightarrow> (False, say (''Tried to create too many jobs'' @ [newline]) s))"

definition deletejob :: "int \<Rightarrow> shell \<Rightarrow> bool \<times> shell" where
  "deletejob p s =
     (if p < 1 then (False, s)
      else case find_job (\<lambda>j. pid j = p) (jobs s) of
        Some i \<Rightarrow>
          let js = (jobs s)[i := clearjob (jobs s ! i)] in
          (True, s\<lparr>jobs := js, nextjid := maxjid js + 1\<rparr>)
      | None \<Rightarrow> (False, s))"

definition fgpid :: "job list \<Rightarrow> int" where
  "fgpid js = (case find_job (\<lambda>j. state j = FG) js of Some i \<Rightarrow> pid (js ! i) | None \<Rightarrow> 0)"

definition getjobpid :: "job list \<Rightarrow> int \<Rightarrow> nat option" where
  \<comment> \<open>a pointer into the table is the index of the slot\<close>
  "getjobpid js p = (if p < 1 then None else find_job (\<lambda>j. pid j = p) js)"

definition getjobjid :: "job list \<Rightarrow> int \<Rightarrow> nat option" where
  "getjobjid js m = (if m < 1 then None else find_job (\<lambda>j. mippy j = m) js)"

definition pid2jid :: "job list \<Rightarrow> int \<Rightarrow> int" where
  "pid2jid js p = (if p < 1 then 0
     else case find_job (\<lambda>j. pid j = p) js of Some i \<Rightarrow> mippy (js ! i) | None \<Rightarrow> 0)"

definition state_text :: "nat \<Rightarrow> job_state \<Rightarrow> string" where
  "state_text beta st = (case st of
     BG \<Rightarrow> ''Running '' | FG \<Rightarrow> ''Foreground '' | ST \<Rightarrow> ''Stopped ''
   | UNDEF \<Rightarrow> ''jobL: Internal error: job['' @ show_nat beta @ ''].state=0 '')"

definition job_text :: "nat \<Rightarrow> job \<Rightarrow> string" where
  "job_text beta j = (if pid j \<noteq> 0
     then ''['' @ show_int (mippy j) @ ''] ('' @ show_int (pid j) @ '') '' @ state_text beta (state j) @ cmdline j
     else [])"

definition jobL :: "shell \<Rightarrow> shell" where
  "jobL s = say (concat (map (\<lambda>(beta, j). job_text beta j) (enumerate 0 (jobs s)))) s"

definition set_state :: "nat \<Rightarrow> job_state \<Rightarrow> shell \<Rightarrow> shell" where
  \<comment> \<open>\<open>hand->state = st\<close>\<close>
  "set_state i st s = s\<lparr>jobs := (jobs s)[i := (jobs s ! i)\<lparr>state := st\<rparr>]\<rparr>"

section \<open>Signal handlers\<close>

fun reap :: "(int \<times> wait_status) list \<Rightarrow> shell \<Rightarrow> shell result" where
  \<comment> \<open>the loop of \<open>sigchld_handler\<close>; the list is what \<open>waitpid\<close> reports\<close>
  "reap [] s = Inr (s\<lparr>zombies := []\<rparr>)"
| "reap ((cPid, Cstat) # rest) s =
     (case getjobpid (jobs s) cPid of
        None \<Rightarrow> Inr (say (''(('' @ show_int cPid @ ''): No  child'') (s\<lparr>zombies := rest\<rparr>))
      | Some hand \<Rightarrow>
         (case Cstat of
            Stopped \<Rightarrow>
              let s = set_state hand ST s in
              reap rest (say (''Job ['' @ show_int (mippy (jobs s ! hand)) @ ''] ('' @ show_int cPid
                @ '') stopped by signal'' @ [newline]) s)
          | Signaled \<Rightarrow>
              let s = snd (deletejob cPid s) in
              reap rest (say (''Job ['' @ show_int (mippy (jobs s ! hand)) @ ''] ('' @ show_int cPid
                @ '') terminated by signal'' @ [newline]) s)
          | Exited \<Rightarrow> reap rest (snd (deletejob cPid s))
          | OtherStatus \<Rightarrow> unix_error ''waitpid error'' s))"

definition sigchld_handler :: "shell \<Rightarrow> shell result" where
  "sigchld_handler s = reap (zombies s) s"

definition sigint_handler :: "shell \<Rightarrow> shell result" where
  "sigint_handler s =
     (let pidZ = fgpid (jobs s) in if pidZ > 0 then Kill (- pidZ) SIGINT s else Inr s)"

definition sigtstp_handler :: "shell \<Rightarrow> shell result" where
  "sigtstp_handler s =
     (let pidZ = fgpid (jobs s) in if pidZ > 0 then Kill (- pidZ) SIGTSTP s else Inr s)"

definition sigquit_handler :: "shell \<Rightarrow> 'a result" where
  "sigquit_handler s =
     stop (Exit 1) (say (''Terminating after receipt of SIGQUIT signal'' @ [newline]) s)"

definition handle :: "signal_event \<Rightarrow> shell \<Rightarrow> shell result" where
  "handle e s = (case e of
     SIGCHLD_for cs \<Rightarrow> sigchld_handler (s\<lparr>zombies := zombies s @ cs\<rparr>)
   | SIGINT_typed \<Rightarrow> sigint_handler s
   | SIGTSTP_typed \<Rightarrow> sigtstp_handler s
   | SIGQUIT_sent \<Rightarrow> sigquit_handler s)"

definition deliver :: "shell \<Rightarrow> shell result" where
  \<comment> \<open>a point where signals get in: the next batch of the script is handled\<close>
  "deliver s = (case pending s of [] \<Rightarrow> Inr s | b # bs \<Rightarrow> foldE handle b (s\<lparr>pending := bs\<rparr>))"

fun waitfg_loop :: "int \<Rightarrow> signal_event list list \<Rightarrow> shell \<Rightarrow> shell result" where
  "waitfg_loop p [] s = (if p = fgpid (jobs s) then stop NonTermination s else Inr (s\<lparr>pending := []\<rparr>))"
| "waitfg_loop p (b # bs) s =
     (if p = fgpid (jobs s) then bindE (foldE handle b s) (waitfg_loop p bs)
      else Inr (s\<lparr>pending := b # bs\<rparr>))"

definition waitfg :: "int \<Rightarrow> shell \<Rightarrow> shell result" where
  "waitfg p s =
     bindE (zerosig s) (\<lambda>s. bindE (Sigprocmask s) (\<lambda>s.
     bindE (waitfg_loop p (pending s) s) Sigprocmask))"

section \<open>Command lines\<close>

definition arg_end :: "string \<Rightarrow> (string \<times> string) option" where
  \<comment> \<open>the argument at \<open>buf\<close> and what follows its delimiter\<close>
  "arg_end buf =
     (if buf \<noteq> [] \<and> hd buf = CHR 0x27
      then map_option (\<lambda>i. (take i (tl buf), drop (Suc i) (tl buf))) (strchr (tl buf) (CHR 0x27))
      else map_option (\<lambda>i. (take i buf, drop (Suc i) buf)) (strchr buf (CHR '' '')))"

lemma arg_end_shrinks: "arg_end buf = Some (a, rest) \<Longrightarrow> length rest < length buf"
  by (auto simp: arg_end_def dest!: strchr_Some split: if_splits)

definition skip_spaces :: "string \<Rightarrow> string" where
  "skip_spaces buf = dropWhile (\<lambda>c. c = CHR '' '') buf"

lemma skip_spaces_length: "length (skip_spaces buf) \<le> length buf"
  by (simp add: skip_spaces_def length_dropWhile_le)

function parse_args :: "nat \<Rightarrow> string \<Rightarrow> fault + string list" where
  \<comment> \<open>the loop of \<open>parseline\<close>; storing beyond \<open>argv [MAXARGS - 1]\<close> is out of bounds\<close>
  "parse_args argc buf =
     (if argc \<ge> MAXARGS then Inl OutOfBounds
      else case arg_end buf of
        None \<Rightarrow> Inr []
      | Some (a, rest) \<Rightarrow> bindE (parse_args (Suc argc) (skip_spaces rest)) (\<lambda>as. Inr (a # as)))"
  by pat_completeness auto
termination
  by (relation "measure (\<lambda>(n, buf). length buf)")
     (auto dest!: arg_end_shrinks intro: le_less_trans [OF skip_spaces_length])

declare parse_args.simps [simp del]

definition blank_last :: "string \<Rightarrow> string" where
  \<comment> \<open>\<open>buf[strlen(buf)-1] = ' '\<close>\<close>
  "blank_last buf = butlast buf @ '' ''"

definition char_at :: "string \<Rightarrow> nat \<Rightarrow> char" where
  "char_at t i = (if i < length t then t ! i else CHR 0x00)"

definition parseline :: "string \<Rightarrow> fault + bool \<times> string list" where
  "parseline cl =
     (if cl = [] then Inl OutOfBounds
      else bindE (parse_args 0 (skip_spaces (blank_last cl))) (\<lambda>argv.
        if argv = [] then Inr (True, [])
        else if char_at (last argv) 0 = CHR ''&'' then Inr (True, butlast argv)
        else Inr (False, argv)))"

section \<open>Evaluation\<close>

definition resume :: "string \<Rightarrow> nat \<Rightarrow> shell \<Rightarrow> shell result" where
  \<comment> \<open>the end of \<open>do_bgfg\<close>, for the job in slot \<open>i\<close>\<close>
  "resume command i s =
     bindE (Kill (- pid (jobs s ! i)) SIGCONT s) (\<lambda>s.
     bindE (deliver s) (\<lambda>s.
     if command = ''bg'' then
       let s = set_state i BG s; j = jobs s ! i in
       Inr (say (''['' @ show_int (mippy j) @ ''] ('' @ show_int (pid j) @ '') '' @ cmdline j) s)
     else let s = set_state i FG s in waitfg (pid (jobs s ! i)) s))"

definition do_bgfg :: "string list \<Rightarrow> shell \<Rightarrow> shell result" where
  "do_bgfg argv s =
     (if length argv < 2
      then Inr (say (argv ! 0 @ '' command requires PID or %jobid argument'' @ [newline]) s)
      else
        let a = argv ! 1;
            bad = Inr (say (argv ! 0 @ '': argument must be a pid or %jobid'' @ [newline]) s)
        in
        if char_at a 0 = CHR ''%'' then
          (if \<not> isdigit (char_at a 1) then bad
           else case getjobjid (jobs s) (atoi (tl a)) of
             None \<Rightarrow> Inr (say (a @ '': no such job'' @ [newline]) s)
           | Some i \<Rightarrow> resume (argv ! 0) i s)
        else
          (if \<not> isdigit (char_at a 0) then bad
           else case getjobpid (jobs s) (atoi a) of
             None \<Rightarrow> Inr (say (''('' @ a @ ''): such process'' @ [newline]) s)
           | Some i \<Rightarrow> resume (argv ! 0) i s))"

definition builtin_cmd :: "string list \<Rightarrow> shell \<Rightarrow> (bool \<times> shell) result" where
  "builtin_cmd argv s =
     (if argv ! 0 = ''jobs'' then Inr (True, jobL s)
      else if argv ! 0 = ''quit'' then stop (Exit 0) s
      else if argv ! 0 = ''&'' then Inr (True, s)
      else if argv ! 0 = ''bg'' \<or> argv ! 0 = ''fg'' then bindE (do_bgfg argv s) (\<lambda>s. Inr (True, s))
      else Inr (False, s))"

definition fork :: "shell \<Rightarrow> int \<times> shell" where
  "fork s = (case forks s of [] \<Rightarrow> (-1, s) | p # ps \<Rightarrow> (p, s\<lparr>forks := ps\<rparr>))"

definition child :: "string list \<Rightarrow> shell \<Rightarrow> shell result" where
  \<comment> \<open>the forked child; it returns only if \<open>execve\<close> returns without an error\<close>
  "child argv s =
     bindE (Sigprocmask s) (\<lambda>s.
     if setpgid_result s < 0 then unix_error ''error'' s
     else case execve_result s of None \<Rightarrow> stop Replaced s
     | Some rc \<Rightarrow> if rc < 0 then app_error ''cmd '' (say (argv ! 0 @ '': '') s) else Inr s)"

definition launch :: "bool \<Rightarrow> string list \<Rightarrow> string \<Rightarrow> string \<Rightarrow> shell \<Rightarrow> shell result" where
  \<comment> \<open>the part of \<open>eval\<close> for a command that is not built in\<close>
  "launch bg argv cl buf s =
     bindE (zerosig s) (\<lambda>s. bindE (data s) (\<lambda>s. bindE (full s) (\<lambda>s. bindE (Sigprocmask s) (\<lambda>s.
     let (p, s) = fork s in
     if p < 0 then unix_error ''error'' s
     else
       bindE (if p = 0 then child argv s else Inr s) (\<lambda>s.
       bindE (Sigprocmask s) (\<lambda>s.
       bindE (Sigprocmask (snd (addjob p (if bg then BG else FG) cl s))) (\<lambda>s.
       bindE (deliver s) (\<lambda>s.
       if \<not> bg then waitfg p s
       else Inr (say (''['' @ show_int (pid2jid (jobs s) p) @ ''] ('' @ show_int p @ '') ''
              @ buf @ [newline]) s)))))))))"

definition eval :: "string \<Rightarrow> shell \<Rightarrow> shell result" where
  "eval cl s =
     (if cl = [] then stop OutOfBounds s
      else let buf = blank_last cl in
      case parseline buf of Inl f \<Rightarrow> stop f s
    | Inr (bg, argv) \<Rightarrow>
        if argv = [] then Inr s
        else bindE (builtin_cmd argv s) (\<lambda>(built_in, s).
          if built_in then Inr s else launch bg argv cl buf s))"

section \<open>The read/eval loop\<close>

definition prompt :: string where "prompt = ''tsh> ''"

lemma fgets_shrinks: "fgets MAXLINE f = Some (l, r) \<Longrightarrow> length r < length f"
  using fgets_chars_shrinks [of f 1022]
  by (auto simp: fgets_def MAXLINE_def numeral_eq_Suc split: if_splits)

function repl :: "bool \<Rightarrow> string \<Rightarrow> shell \<Rightarrow> 'a result" where
  \<comment> \<open>the loop of \<open>main\<close> on the rest of the standard input: it leaves with a stop only\<close>
  "repl emit_prompt stdin s =
     (case deliver (if emit_prompt then say prompt s else s) of Inl e \<Rightarrow> Inl e
      | Inr s \<Rightarrow>
        (case fgets MAXLINE stdin of
           None \<Rightarrow> stop (Exit 0) s
         | Some (l, r) \<Rightarrow>
             if r = [] \<and> last l \<noteq> newline \<and> Suc (length l) < MAXLINE then stop (Exit 0) s
             else (case eval (c_string l) s of Inl e \<Rightarrow> Inl e | Inr s \<Rightarrow> repl emit_prompt r s)))"
  by pat_completeness auto
termination
  by (relation "measure (\<lambda>(p, f, s). length f)") (auto dest: fgets_shrinks)

declare repl.simps [simp del]

datatype flag = Flag_h | Flag_y | Flag_p | Flag_other

fun options :: "flag list \<Rightarrow> bool \<Rightarrow> shell \<Rightarrow> (bool \<times> shell) result" where
  \<comment> \<open>the loop over \<open>getopt (argc, argv, "hvp")\<close>, from what it returns\<close>
  "options [] emit_prompt s = Inr (emit_prompt, s)"
| "options (Flag_h # fs) emit_prompt s = usage s"
| "options (Flag_y # fs) emit_prompt s = options fs emit_prompt (s\<lparr>verbose := True\<rparr>)"
| "options (Flag_p # fs) emit_prompt s = options fs False s"
| "options (Flag_other # fs) emit_prompt s = Inr (emit_prompt, s)"

definition main_shell :: "flag list \<Rightarrow> string \<Rightarrow> shell \<Rightarrow> 'a result" where
  "main_shell fs stdin s =
     (case options fs True s of Inl e \<Rightarrow> Inl e
      | Inr (emit_prompt, s) \<Rightarrow>
        (case foldE (\<lambda>_. Signal) [SIGINT, SIGTSTP, SIGCHLD, SIGQUIT] s of Inl e \<Rightarrow> Inl e
         | Inr s \<Rightarrow> repl emit_prompt stdin (s\<lparr>jobs := initjobs (jobs s)\<rparr>)))"

end
