(* ===== verification/Tsh_Props.thy ===== *)
theory Tsh_Props
  imports Tsh
begin

text \<open>
  Properties of lab2/tsh.c: the job table behaves like a map from process ids to jobs, and
  stays well formed in every state in which the shell shows its prompt; no job is in the
  foreground there; the parser takes a line apart into its words; \<open>push\<close> prints numbers
  in decimal. Two concrete runs show a duplicate job id and a shell that hangs.
\<close>

section \<open>Looking for a slot\<close>

lemma find_job_Some:
  "find_job P js = Some i \<Longrightarrow> i < length js \<and> P (js ! i) \<and> (\<forall>k < i. \<not> P (js ! k))"
proof (induction js arbitrary: i)
  case (Cons j js)
  show ?case
  proof (cases "P j")
    case True
    with Cons.prems show ?thesis by simp
  next
    case False
    with Cons.prems obtain m where "i = Suc m" "find_job P js = Some m" by auto
    with Cons.IH [of m] False show ?thesis by (auto simp: nth_Cons split: nat.splits)
  qed
qed simp

lemma find_job_None: "find_job P js = None \<longleftrightarrow> (\<forall>j \<in> set js. \<not> P j)"
  by (induction js) auto

lemma find_job_eqI:
  assumes "i < length js" and "P (js ! i)" and "\<And>k. k < length js \<Longrightarrow> P (js ! k) \<Longrightarrow> k = i"
  shows "find_job P js = Some i"
proof (cases "find_job P js")
  case None
  with assms(1,2) show ?thesis by (auto simp: find_job_None)
next
  case (Some k)
  then have "k = i" using find_job_Some [OF Some] by (intro assms(3)) simp_all
  with Some show ?thesis by simp
qed

section \<open>The well-formed table\<close>

definition distinct_pids :: "job list \<Rightarrow> bool" where
  "distinct_pids js \<longleftrightarrow> (\<forall>i < length js. \<forall>k < length js.
     pid (js ! i) = pid (js ! k) \<and> pid (js ! i) \<noteq> 0 \<longrightarrow> i = k)"

definition wf_table :: "job list \<Rightarrow> bool" where
  "wf_table js \<longleftrightarrow> length js = MAXJOBS \<and> distinct_pids js \<and>
     (\<forall>j \<in> set js. 0 \<le> pid j \<and> (if pid j = 0 then mippy j = 0 else 1 \<le> mippy j))"

definition table_ok :: "shell \<Rightarrow> bool" where
  "table_ok s \<longleftrightarrow> wf_table (jobs s) \<and> 1 \<le> nextjid s"

definition job_of :: "shell \<Rightarrow> int \<Rightarrow> (job_state \<times> string) option" where
  "job_of s p = map_option (\<lambda>i. (state (jobs s ! i), cmdline (jobs s ! i))) (getjobpid (jobs s) p)"

definition add_entry :: "int \<Rightarrow> job_state \<times> string \<Rightarrow> shell \<Rightarrow> shell option" where
  "add_entry p v s = (case addjob p (fst v) (snd v) s of (r, t) \<Rightarrow> if r then Some t else None)"

definition del_entry :: "int \<Rightarrow> shell \<Rightarrow> shell" where
  "del_entry p s = snd (deletejob p s)"

lemma say_sel [simp]:
  "jobs (say t s) = jobs s" "nextjid (say t s) = nextjid s" "forks (say t s) = forks s"
  "pending (say t s) = pending s" "zombies (say t s) = zombies s" "verbose (say t s) = verbose s"
  "sent (say t s) = sent s" "out (say t s) = out s @ t" "kill_results (say t s) = kill_results s"
  by (simp_all add: say_def)

lemma getjobpid_iff:
  assumes "distinct_pids js"
  shows "getjobpid js p = Some i \<longleftrightarrow> 1 \<le> p \<and> i < length js \<and> pid (js ! i) = p"
proof
  assume "getjobpid js p = Some i"
  then show "1 \<le> p \<and> i < length js \<and> pid (js ! i) = p"
    using find_job_Some [of "\<lambda>j. pid j = p" js i] by (auto simp: getjobpid_def split: if_splits)
next
  assume "1 \<le> p \<and> i < length js \<and> pid (js ! i) = p"
  then show "getjobpid js p = Some i"
    using assms find_job_eqI [of i js "\<lambda>j. pid j = p"] by (auto simp: getjobpid_def distinct_pids_def)
qed

lemma getjobpid_None_iff: "getjobpid js p = None \<longleftrightarrow> p < 1 \<or> p \<notin> pid ` set js"
  by (auto simp: getjobpid_def find_job_None)

lemma maxjid_bounds: "0 \<le> maxjid js \<and> (\<forall>j \<in> set js. mippy j \<le> maxjid js)"
proof -
  have "m \<le> foldl (\<lambda>m j. if mippy j > m then mippy j else m) m js \<and>
    (\<forall>j \<in> set js. mippy j \<le> foldl (\<lambda>m j. if mippy j > m then mippy j else m) m js)" for m
  proof (induction js arbitrary: m)
    case (Cons j js)
    show ?case using Cons.IH [of m] Cons.IH [of "mippy j"] by fastforce
  qed simp
  then show ?thesis by (simp add: maxjid_def)
qed

lemma addjob_slot:
  assumes "addjob p st cl s = (True, t)"
  obtains i where "1 \<le> p" "i < length (jobs s)" "pid (jobs s ! i) = 0"
    "jobs t = (jobs s)[i := (jobs s ! i)\<lparr>pid := p, state := st, mippy := nextjid s, cmdline := cl\<rparr>]"
    "nextjid t = (if nextjid s + 1 > int MAXJOBS then 1 else nextjid s + 1)"
    "forks t = forks s" "pending t = pending s" "zombies t = zombies s"
proof -
  obtain i where i: "find_job (\<lambda>j. pid j = 0) (jobs s) = Some i" "1 \<le> p"
    using assms by (auto simp: addjob_def split: if_splits option.splits)
  let ?n = "if nextjid s + 1 > int MAXJOBS then 1 else nextjid s + 1"
  let ?j = "(jobs s ! i)\<lparr>pid := p, state := st, mippy := nextjid s, cmdline := cl\<rparr>"
  let ?u = "s\<lparr>jobs := (jobs s)[i := ?j], nextjid := ?n\<rparr>"
  have "\<exists>x. t = (if verbose s then say x ?u else ?u)"
    using assms i by (cases "verbose s") (auto simp: addjob_def Let_def)
  then obtain x where "t = (if verbose s then say x ?u else ?u)" by blast
  then show thesis
    using that [of i] find_job_Some [OF i(1)] i(2) by (cases "verbose s") simp_all
qed

lemma addjob_ok:
  assumes ok: "table_ok s" and new: "getjobpid (jobs s) p = None" and add: "addjob p st cl s = (True, t)"
  shows "table_ok t" and "job_of t = (job_of s)(p := Some (st, cl))"
proof -
  obtain i where i: "1 \<le> p" "i < length (jobs s)" "pid (jobs s ! i) = 0"
    "jobs t = (jobs s)[i := (jobs s ! i)\<lparr>pid := p, state := st, mippy := nextjid s, cmdline := cl\<rparr>]"
    "nextjid t = (if nextjid s + 1 > int MAXJOBS then 1 else nextjid s + 1)"
    by (rule addjob_slot [OF add])
  have np: "\<And>k. k < length (jobs s) \<Longrightarrow> pid (jobs s ! k) \<noteq> p"
    using new i(1) by (auto simp: getjobpid_None_iff)
  have d: "distinct_pids (jobs s)" using ok by (simp add: table_ok_def wf_table_def)
  then have dt: "distinct_pids (jobs t)"
    using np i(2,4) by (auto simp: distinct_pids_def nth_list_update)
  then show "table_ok t"
    using ok i by (auto simp: table_ok_def wf_table_def dest!: set_update_subset_insert [THEN subsetD])
  have "job_of t q = ((job_of s)(p := Some (st, cl))) q" for q
  proof (cases "q = p")
    case True
    then have "getjobpid (jobs t) q = Some i" unfolding getjobpid_iff [OF dt] using i by simp
    then show ?thesis using True i by (simp add: job_of_def)
  next
    case False
    show ?thesis
    proof (cases "getjobpid (jobs s) q")
      case None
      then have "getjobpid (jobs t) q = None"
        using False i(4) by (auto simp: getjobpid_None_iff dest!: set_update_subset_insert [THEN subsetD])
      with None False show ?thesis by (simp add: job_of_def)
    next
      case (Some k)
      then have k: "1 \<le> q" "k < length (jobs s)" "pid (jobs s ! k) = q" by (simp_all add: getjobpid_iff [OF d])
      then have "k \<noteq> i" using i(3) by auto
      then have "getjobpid (jobs t) q = Some k" unfolding getjobpid_iff [OF dt] using k i by simp
      with Some False \<open>k \<noteq> i\<close> show ?thesis using i by (simp add: job_of_def)
    qed
  qed
  then show "job_of t = (job_of s)(p := Some (st, cl))" by blast
qed

lemma deletejob_ok:
  assumes ok: "table_ok s"
  shows "table_ok (snd (deletejob p s))" and "job_of (snd (deletejob p s)) = (job_of s)(p := None)"
proof -
  have d: "distinct_pids (jobs s)" using ok by (simp add: table_ok_def wf_table_def)
  have "table_ok (snd (deletejob p s)) \<and> job_of (snd (deletejob p s)) = (job_of s)(p := None)"
  proof (cases "getjobpid (jobs s) p")
    case None
    then have "snd (deletejob p s) = s" by (auto simp: deletejob_def getjobpid_def)
    moreover have "job_of s p = None" using None by (simp add: job_of_def)
    ultimately show ?thesis using ok by (simp add: fun_upd_idem)
  next
    case (Some i)
    then have i: "1 \<le> p" "i < length (jobs s)" "pid (jobs s ! i) = p" by (simp_all add: getjobpid_iff [OF d])
    let ?js = "(jobs s)[i := clearjob (jobs s ! i)]"
    have t: "snd (deletejob p s) = s\<lparr>jobs := ?js, nextjid := maxjid ?js + 1\<rparr>"
      using Some by (auto simp: deletejob_def getjobpid_def Let_def split: if_splits)
    have dt: "distinct_pids ?js"
      using d i by (auto simp: distinct_pids_def nth_list_update clearjob_def)
    have "table_ok (snd (deletejob p s))"
      using ok dt maxjid_bounds [of ?js] unfolding t
      by (auto simp: table_ok_def wf_table_def clearjob_def dest!: set_update_subset_insert [THEN subsetD])
    moreover have "job_of (snd (deletejob p s)) q = ((job_of s)(p := None)) q" for q
    proof (cases "getjobpid ?js q")
      case None
      moreover have "getjobpid (jobs s) q = None" if "q \<noteq> p"
      proof (rule ccontr)
        assume "getjobpid (jobs s) q \<noteq> None"
        then obtain k where k: "getjobpid (jobs s) q = Some k" by auto
        then have "1 \<le> q" "k < length (jobs s)" "pid (jobs s ! k) = q" by (simp_all add: getjobpid_iff [OF d])
        then have "getjobpid ?js q = Some k"
          using that i by (auto simp: getjobpid_iff [OF dt] nth_list_update)
        with None show False by simp
      qed
      ultimately show ?thesis unfolding t by (simp add: job_of_def)
    next
      case (Some k)
      then have k: "1 \<le> q" "k < length (jobs s)" "pid (?js ! k) = q" by (simp_all add: getjobpid_iff [OF dt])
      then have "k \<noteq> i" using i(2) by (auto simp: clearjob_def)
      with k have "getjobpid (jobs s) q = Some k" by (simp add: getjobpid_iff [OF d])
      moreover have "q \<noteq> p" using d i k \<open>k \<noteq> i\<close> by (auto simp: distinct_pids_def)
      ultimately show ?thesis using Some \<open>k \<noteq> i\<close> unfolding t by (simp add: job_of_def)
    qed
    ultimately show ?thesis by blast
  qed
  then show "table_ok (snd (deletejob p s))" "job_of (snd (deletejob p s)) = (job_of s)(p := None)" by auto
qed

interpretation jt: keyed_table job_of add_entry del_entry table_ok "\<lambda>p. 1 \<le> p"
proof unfold_locales
  fix s k v t
  assume ok: "table_ok s" and "1 \<le> k" and none: "job_of s k = None" and ins: "add_entry k v s = Some t"
  have "addjob k (fst v) (snd v) s = (True, t)" "getjobpid (jobs s) k = None"
    using none ins by (simp_all add: add_entry_def job_of_def split: prod.splits if_splits)
  then show "table_ok t \<and> job_of t = (job_of s)(k := Some v)" using addjob_ok [OF ok] by simp
next
  fix s k
  assume "table_ok s"
  then show "table_ok (del_entry k s) \<and> job_of (del_entry k s) = (job_of s)(k := None)"
    using deletejob_ok by (simp add: del_entry_def)
qed

section \<open>What the handlers keep\<close>

definition forks_ok :: "shell \<Rightarrow> bool" where
  \<comment> \<open>the kernel does not give a new child the id of another, nor of one in the table\<close>
  "forks_ok s \<longleftrightarrow> distinct (filter (\<lambda>p. 0 < p) (forks s)) \<and>
     (\<forall>p \<in> set (forks s). 0 < p \<longrightarrow> p \<notin> pid ` set (jobs s))"

definition only_fg :: "int option \<Rightarrow> job list \<Rightarrow> bool" where
  \<comment> \<open>no job is in the foreground, except the one with the process id given\<close>
  "only_fg q js \<longleftrightarrow> (\<forall>j \<in> set js. state j = FG \<longrightarrow> q = Some (pid j))"

definition shell_ok :: "int option \<Rightarrow> shell \<Rightarrow> bool" where
  "shell_ok q s \<longleftrightarrow> table_ok s \<and> forks_ok s \<and> only_fg q (jobs s)"

lemma shell_ok_cong:
  "jobs t = jobs s \<Longrightarrow> nextjid t = nextjid s \<Longrightarrow> forks t = forks s \<Longrightarrow> shell_ok q t = shell_ok q s"
  by (simp add: shell_ok_def table_ok_def forks_ok_def)

lemma shell_ok_irrelevant [simp]:
  "shell_ok q (say x s) = shell_ok q s" "shell_ok q (s\<lparr>zombies := z\<rparr>) = shell_ok q s"
  "shell_ok q (s\<lparr>pending := b\<rparr>) = shell_ok q s"
  "shell_ok q (s\<lparr>sent := k, kill_results := r\<rparr>) = shell_ok q s"
  "shell_ok q (s\<lparr>set_results := m\<rparr>) = shell_ok q s"
  by (rule shell_ok_cong; simp)+

lemmas wrapper_defs = full_def Sigprocmask_def zerosig_def data_def Signal_def

lemma checked_ok: "checked msg s = Inr t \<Longrightarrow> shell_ok q t = shell_ok q s"
  by (auto simp: checked_def unix_error_def stop_def Let_def split: list.splits if_splits)

lemma checked_nil [simp]: "set_results s = [] \<Longrightarrow> checked msg s = Inr s"
  by (simp add: checked_def)

lemma shell_ok_length: "shell_ok q s \<Longrightarrow> length (jobs s) = MAXJOBS"
  by (simp add: shell_ok_def table_ok_def wf_table_def)

lemma set_state_ok:
  assumes ok: "shell_ok q s" and i: "i < MAXJOBS" and st: "st = FG \<Longrightarrow> q' = Some (pid (jobs s ! i))"
    and q: "q' = q \<or> q = None"
  shows "shell_ok q' (set_state i st s)"
proof -
  have l: "i < length (jobs s)" using i shell_ok_length [OF ok] by simp
  let ?js = "(jobs s)[i := (jobs s ! i)\<lparr>state := st\<rparr>]"
  have p: "map pid ?js = map pid (jobs s)" "map mippy ?js = map mippy (jobs s)"
    using l by (simp_all add: map_update map_nth_update)
  have nth: "pid (?js ! k) = pid (jobs s ! k)" "mippy (?js ! k) = mippy (jobs s ! k)" for k
    using l by (simp_all add: nth_list_update)
  have "wf_table ?js"
    using ok nth unfolding shell_ok_def table_ok_def wf_table_def distinct_pids_def all_set_conv_all_nth
    by simp
  moreover have "pid ` set ?js = pid ` set (jobs s)" using p(1) by (metis list.set_map)
  moreover have "only_fg q' ?js"
  proof -
    have "q' = Some (pid (?js ! k))" if "k < length (jobs s)" "state (?js ! k) = FG" for k
    proof (cases "k = i")
      case True
      with that l st show ?thesis by simp
    next
      case False
      then have "state (jobs s ! k) = FG" using that by simp
      then have "q = Some (pid (jobs s ! k))" using ok that(1) by (simp add: shell_ok_def only_fg_def)
      with q nth show ?thesis by auto
    qed
    then show ?thesis by (simp add: only_fg_def all_set_conv_all_nth)
  qed
  ultimately show ?thesis
    using ok by (simp add: shell_ok_def table_ok_def forks_ok_def set_state_def)
qed

lemma deletejob_shell_ok:
  assumes ok: "shell_ok q s"
  shows "shell_ok q (snd (deletejob p s))"
proof (cases "find_job (\<lambda>j. pid j = p) (jobs s)")
  case None
  then have "snd (deletejob p s) = s" by (simp add: deletejob_def)
  with ok show ?thesis by simp
next
  case (Some i)
  let ?t = "snd (deletejob p s)"
  have "set (jobs ?t) \<subseteq> insert (clearjob (jobs s ! i)) (set (jobs s))"
    using Some by (auto simp: deletejob_def Let_def dest!: set_update_subset_insert [THEN subsetD])
  moreover have "forks ?t = forks s" using Some by (simp add: deletejob_def Let_def)
  ultimately have "only_fg q (jobs ?t)" "forks_ok ?t"
    using ok unfolding shell_ok_def only_fg_def forks_ok_def by (fastforce simp: clearjob_def)+
  then show ?thesis using ok deletejob_ok(1) by (simp add: shell_ok_def)
qed

lemma getjobpid_bound: "shell_ok q s \<Longrightarrow> getjobpid (jobs s) p = Some i \<Longrightarrow> i < MAXJOBS"
  using find_job_Some [of "\<lambda>j. pid j = p" "jobs s" i] shell_ok_length [of q s]
  by (simp add: getjobpid_def split: if_splits)

lemma getjobjid_bound: "shell_ok q s \<Longrightarrow> getjobjid (jobs s) m = Some i \<Longrightarrow> i < MAXJOBS"
  using find_job_Some [of "\<lambda>j. mippy j = m" "jobs s" i] shell_ok_length [of q s]
  by (simp add: getjobjid_def split: if_splits)

lemma reap_ok: "shell_ok q s \<Longrightarrow> reap cs s = Inr t \<Longrightarrow> shell_ok q t"
proof (induction cs arbitrary: s)
  case Nil
  then show ?case by auto
next
  case (Cons c cs)
  obtain p st where c: "c = (p, st)" by (cases c)
  show ?case
  proof (cases "getjobpid (jobs s) p")
    case None
    then show ?thesis using Cons.prems c by auto
  next
    case (Some i)
    have i: "i < MAXJOBS" by (rule getjobpid_bound [OF Cons.prems(1) Some])
    have ST: "shell_ok q (set_state i ST s)" by (rule set_state_ok [OF Cons.prems(1) i]) simp_all
    note del = deletejob_shell_ok [OF Cons.prems(1), of p]
    show ?thesis
    proof (cases st)
      case Stopped
      with Cons.prems(2) c Some have "\<exists>x. reap cs (say x (set_state i ST s)) = Inr t"
        by (auto simp: Let_def)
      then obtain x where "reap cs (say x (set_state i ST s)) = Inr t" ..
      then show ?thesis by (rule Cons.IH [rotated]) (simp add: ST)
    next
      case Signaled
      with Cons.prems(2) c Some have "\<exists>x. reap cs (say x (snd (deletejob p s))) = Inr t"
        by (auto simp: Let_def)
      then obtain x where "reap cs (say x (snd (deletejob p s))) = Inr t" ..
      then show ?thesis by (rule Cons.IH [rotated]) (simp add: del)
    next
      case Exited
      with Cons.prems(2) c Some have "reap cs (snd (deletejob p s)) = Inr t" by simp
      then show ?thesis by (rule Cons.IH [OF del])
    next
      case OtherStatus
      with Cons.prems(2) c Some show ?thesis by (simp add: unix_error_def stop_def)
    qed
  qed
qed

lemma Kill_ok: "shell_ok q s \<Longrightarrow> Kill p sig s = Inr t \<Longrightarrow> shell_ok q t"
  by (auto simp: Kill_def problem_def stop_def split: if_splits)

lemma handle_ok: "shell_ok q s \<Longrightarrow> handle e s = Inr t \<Longrightarrow> shell_ok q t"
  by (auto simp: handle_def sigchld_handler_def sigint_handler_def sigtstp_handler_def
      sigquit_handler_def stop_def Let_def
      split: signal_event.splits if_splits dest: Kill_ok reap_ok [rotated])

lemma handle_all_ok: "shell_ok q s \<Longrightarrow> foldE handle es s = Inr t \<Longrightarrow> shell_ok q t"
  by (induction es arbitrary: s) (auto simp: bindE_eq_Inr_iff dest: handle_ok)

lemma deliver_ok: "shell_ok q s \<Longrightarrow> deliver s = Inr t \<Longrightarrow> shell_ok q t"
  by (auto simp: deliver_def split: list.splits dest: handle_all_ok [rotated])

lemma fgpid_only:
  assumes "shell_ok (Some p) s" and "p \<noteq> fgpid (jobs s)"
  shows "shell_ok None s"
proof -
  have "state j \<noteq> FG" if "j \<in> set (jobs s)" for j
  proof
    assume "state j = FG"
    then have "find_job (\<lambda>j. state j = FG) (jobs s) \<noteq> None" using that by (auto simp: find_job_None)
    then obtain i where i: "find_job (\<lambda>j. state j = FG) (jobs s) = Some i" by auto
    then have "pid (jobs s ! i) = p"
      using find_job_Some [OF i] assms(1) by (auto simp: shell_ok_def only_fg_def)
    with i assms(2) show False by (simp add: fgpid_def)
  qed
  with assms(1) show ?thesis by (auto simp: shell_ok_def only_fg_def)
qed

lemma waitfg_loop_ok: "shell_ok (Some p) s \<Longrightarrow> waitfg_loop p bs s = Inr t \<Longrightarrow> shell_ok None t"
proof (induction bs arbitrary: s)
  case Nil
  then show ?case using fgpid_only [of p s] by (auto simp: stop_def split: if_splits)
next
  case (Cons b bs)
  show ?case
  proof (cases "p = fgpid (jobs s)")
    case True
    with Cons.prems(2) obtain u where "foldE handle b s = Inr u" "waitfg_loop p bs u = Inr t"
      by (auto simp: bindE_eq_Inr_iff)
    then show ?thesis using Cons.IH handle_all_ok [OF Cons.prems(1)] by blast
  next
    case False
    with Cons.prems show ?thesis using fgpid_only [of p s] by auto
  qed
qed

lemma waitfg_ok: "shell_ok (Some p) s \<Longrightarrow> waitfg p s = Inr t \<Longrightarrow> shell_ok None t"
  by (auto simp: waitfg_def wrapper_defs bindE_eq_Inr_iff checked_ok dest: waitfg_loop_ok [rotated])

lemma resume_ok:
  assumes ok: "shell_ok None s" and i: "i < MAXJOBS" and run: "resume command i s = Inr t"
  shows "shell_ok None t"
proof -
  from run obtain u v where u: "Kill (- pid (jobs s ! i)) SIGCONT s = Inr u" "deliver u = Inr v"
    and v: "(if command = ''bg'' then
        let s = set_state i BG v; j = jobs s ! i in
        Inr (say (''['' @ show_int (mippy j) @ ''] ('' @ show_int (pid j) @ '') '' @ cmdline j) s)
      else let s = set_state i FG v in waitfg (pid (jobs s ! i)) s) = Inr t"
    unfolding resume_def bindE_eq_Inr_iff by (elim exE conjE) (rule that)
  have okv: "shell_ok None v" using u Kill_ok [OF ok] deliver_ok by blast
  show ?thesis
  proof (cases "command = ''bg''")
    case True
    have "shell_ok None (set_state i BG v)" by (rule set_state_ok [OF okv i]) simp_all
    with v True show ?thesis by (auto simp: Let_def)
  next
    case False
    have "pid (jobs (set_state i FG v) ! i) = pid (jobs v ! i)"
      using i shell_ok_length [OF okv] by (simp add: set_state_def)
    moreover have "shell_ok (Some (pid (jobs v ! i))) (set_state i FG v)"
      by (rule set_state_ok [OF okv i]) simp_all
    ultimately show ?thesis using v False waitfg_ok by (auto simp: Let_def)
  qed
qed

lemma do_bgfg_ok: "shell_ok None s \<Longrightarrow> do_bgfg argv s = Inr t \<Longrightarrow> shell_ok None t"
  unfolding do_bgfg_def Let_def
  by (auto split: if_splits option.splits dest: resume_ok getjobpid_bound getjobjid_bound)

lemma addjob_shell_ok:
  assumes ok: "shell_ok None s" and new: "0 < p \<longrightarrow> p \<notin> pid ` set (jobs s) \<and> p \<notin> set (forks s)"
  shows "shell_ok (if st = FG then Some p else None) (snd (addjob p st cl s))"
proof (cases "fst (addjob p st cl s)")
  case False
  then have "shell_ok None (snd (addjob p st cl s))"
    using ok by (auto simp: addjob_def Let_def split: option.splits)
  then show ?thesis by (auto simp: shell_ok_def only_fg_def)
next
  case True
  then obtain t where t: "addjob p st cl s = (True, t)" by (cases "addjob p st cl s") auto
  obtain i where i: "1 \<le> p" "i < length (jobs s)"
    "jobs t = (jobs s)[i := (jobs s ! i)\<lparr>pid := p, state := st, mippy := nextjid s, cmdline := cl\<rparr>]"
    "forks t = forks s"
    by (rule addjob_slot [OF t])
  have "getjobpid (jobs s) p = None" using new i(1) by (auto simp: getjobpid_None_iff)
  then have "table_ok t" using addjob_ok(1) [OF _ _ t] ok by (simp add: shell_ok_def)
  moreover have sub: "set (jobs t) \<subseteq>
      insert ((jobs s ! i)\<lparr>pid := p, state := st, mippy := nextjid s, cmdline := cl\<rparr>) (set (jobs s))"
    unfolding i(3) by (rule set_update_subset_insert)
  moreover from sub have "only_fg (if st = FG then Some p else None) (jobs t)"
    using ok by (fastforce simp: shell_ok_def only_fg_def)
  moreover from sub have "forks_ok t"
    using ok new i(1,4) by (fastforce simp: shell_ok_def forks_ok_def)
  ultimately show ?thesis using t by (simp add: shell_ok_def)
qed

lemma child_ok: "child argv s = Inr t \<Longrightarrow> shell_ok q t = shell_ok q s"
  by (auto simp: child_def wrapper_defs bindE_eq_Inr_iff checked_ok unix_error_def app_error_def stop_def
      split: if_splits option.splits)

lemma fork_ok:
  "shell_ok None s \<Longrightarrow> fork s = (p, t) \<Longrightarrow>
   shell_ok None t \<and> (0 < p \<longrightarrow> p \<notin> pid ` set (jobs t) \<and> p \<notin> set (forks t))"
  by (auto simp: fork_def shell_ok_def forks_ok_def table_ok_def split: list.splits if_splits)

lemma checked_jobs: "checked msg s = Inr t \<Longrightarrow> jobs t = jobs s \<and> forks t = forks s"
  by (auto simp: checked_def unix_error_def stop_def Let_def split: list.splits if_splits)

lemma launch_ok:
  assumes ok: "shell_ok None s" and run: "launch bg argv cl buf s = Inr t"
  shows "shell_ok None t"
proof -
  from run obtain u1 u2 u3 u where m: "zerosig s = Inr u1" "data u1 = Inr u2" "full u2 = Inr u3" "Sigprocmask u3 = Inr u"
    unfolding launch_def bindE_eq_Inr_iff by blast
  then have oku: "shell_ok None u" using ok by (simp add: wrapper_defs checked_ok)
  obtain p v where f: "fork u = (p, v)" by (cases "fork u")
  note okv = fork_ok [OF oku f]
  have np: "\<not> p < 0" using run m f by (auto simp: launch_def unix_error_def stop_def)
  with run m f obtain v' w x' x where
    c: "(if p = 0 then child argv v else Inr v) = Inr v'" "Sigprocmask v' = Inr w" and
    x': "Sigprocmask (snd (addjob p (if bg then BG else FG) cl w)) = Inr x'" and
    x: "deliver x' = Inr x"
      "(if \<not> bg then waitfg p x else Inr (say (''['' @ show_int (pid2jid (jobs x) p) @ ''] (''
          @ show_int p @ '') '' @ buf @ [newline]) x)) = Inr t"
    by (auto simp: launch_def bindE_eq_Inr_iff)
  have "shell_ok None w"
    using c okv by (auto simp: wrapper_defs checked_ok child_ok split: if_splits)
  moreover have "0 < p \<longrightarrow> p \<notin> pid ` set (jobs w) \<and> p \<notin> set (forks w)"
    using c okv by (auto simp: wrapper_defs dest!: checked_jobs split: if_splits)
  ultimately have "shell_ok (if bg then None else Some p) (snd (addjob p (if bg then BG else FG) cl w))"
    using addjob_shell_ok [of w p "if bg then BG else FG" cl] by (cases bg) simp_all
  then have "shell_ok (if bg then None else Some p) x'" using x' by (simp add: wrapper_defs checked_ok)
  then have "shell_ok (if bg then None else Some p) x" using deliver_ok x(1) by blast
  with x(2) waitfg_ok show ?thesis by (cases bg) auto
qed

lemma eval_ok:
  assumes ok: "shell_ok None s" and run: "eval cl s = Inr t"
  shows "shell_ok None t"
proof -
  from run obtain bg argv where pl: "parseline (blank_last cl) = Inr (bg, argv)" and ne: "cl \<noteq> []"
    by (auto simp: eval_def stop_def Let_def split: if_splits sum.splits)
  show ?thesis
  proof (cases "argv = []")
    case True
    with run ok pl ne show ?thesis by (simp add: eval_def)
  next
    case False
    with run pl ne obtain b u where u: "builtin_cmd argv s = Inr (b, u)"
      by (auto simp: eval_def Let_def bindE_eq_Inr_iff)
    have "shell_ok None u"
      using u ok do_bgfg_ok [OF ok]
      by (auto simp: builtin_cmd_def jobL_def stop_def bindE_eq_Inr_iff split: if_splits)
    with run pl ne False u launch_ok show ?thesis by (auto simp: eval_def Let_def split: if_splits)
  qed
qed

section \<open>The job table as a map\<close>

text \<open>
  C21: The job table is a finite map from process ids to jobs: after any sequence of \<open>addjob\<close>
  (of ids not in the table, while there is room) and \<open>deletejob\<close>, looking a process id up with
  \<open>getjobpid\<close> gives the state and command line that the same updates of a map give, and the
  table is well formed again: 16 slots, no process id twice, every used slot with a job id of at
  least 1.
\<close>
theorem jobs_map:
  assumes "table_ok s" and "jt.allowed (job_of s) ops" and "jt.run ops s = Some t"
  shows "table_ok t \<and> job_of t = foldl (\<lambda>m (k, vo). m(k := vo)) (job_of s) ops"
  by (rule jt.run_map [OF assms])

definition fresh_shell :: "int list \<Rightarrow> shell" where
  \<comment> \<open>the shell at its first prompt, with the process ids of its future children\<close>
  "fresh_shell ps = \<lparr>jobs = replicate MAXJOBS \<lparr>pid = 0, mippy = 0, state = UNDEF, cmdline = []\<rparr>,
     nextjid = 1, verbose = False, out = [], sent = [], forks = ps, kill_results = [],
     zombies = [], pending = [], set_results = [], setpgid_result = 0, execve_result = None, errno_text = []\<rparr>"

lemma fresh_shell_ok: "distinct (filter (\<lambda>p. 0 < p) ps) \<Longrightarrow> shell_ok None (fresh_shell ps)"
  by (auto simp: fresh_shell_def shell_ok_def table_ok_def wf_table_def distinct_pids_def forks_ok_def
      only_fg_def)

lemma jobs_map_witness:
  "\<exists>t. jt.run [(7, Some (BG, ''a'')), (8, Some (ST, ''b'')), (7, None)] (fresh_shell []) = Some t \<and>
    job_of t 7 = None \<and> job_of t 8 = Some (ST, ''b'') \<and> job_of t 9 = None"
proof -
  let ?ops = "[(7, Some (BG, ''a'')), (8, Some (ST, ''b'')), (7, None)]"
  have ok: "table_ok (fresh_shell [])" using fresh_shell_ok [of "[]"] by (simp add: shell_ok_def)
  have none: "job_of (fresh_shell []) p = None" for p
    by (auto simp: job_of_def getjobpid_None_iff fresh_shell_def)
  have al: "jt.allowed (job_of (fresh_shell [])) ?ops" by (simp add: none)
  have "(case add_entry 7 (BG, ''a'') (fresh_shell []) of None \<Rightarrow> False
    | Some u \<Rightarrow> (case add_entry 8 (ST, ''b'') u of None \<Rightarrow> False | Some v \<Rightarrow> True))" by code_simp
  then obtain t where t: "jt.run ?ops (fresh_shell []) = Some t" by (auto split: option.splits)
  with jobs_map [OF ok al t] none show ?thesis by simp
qed

section \<open>The prompt\<close>

inductive prompt_step :: "shell \<Rightarrow> shell \<Rightarrow> bool" where
  \<comment> \<open>from one prompt to the next: signals, then a command line\<close>
  "deliver s = Inr u \<Longrightarrow> eval cl u = Inr t \<Longrightarrow> prompt_step s t"

inductive_cases prompt_stepE: "prompt_step s t"

definition started :: "shell \<Rightarrow> bool" where
  "started s \<longleftrightarrow> jobs s = initjobs (jobs s) \<and> length (jobs s) = MAXJOBS \<and> nextjid s = 1 \<and>
     distinct (filter (\<lambda>p. 0 < p) (forks s))"

lemma started_ok:
  assumes "started s"
  shows "shell_ok None s"
proof -
  have clear: "pid j = 0 \<and> mippy j = 0 \<and> state j = UNDEF" if "j \<in> set (jobs s)" for j
  proof -
    have "j \<in> clearjob ` set (jobs s)" using assms that unfolding started_def initjobs_def by (metis list.set_map)
    then show ?thesis by (auto simp: clearjob_def)
  qed
  then have "distinct_pids (jobs s)" by (simp add: distinct_pids_def)
  with clear assms show ?thesis
    by (auto simp: started_def shell_ok_def table_ok_def wf_table_def forks_ok_def only_fg_def)
qed

interpretation prompts: step_system started prompt_step "shell_ok None"
proof unfold_locales
  show "\<And>s. started s \<Longrightarrow> shell_ok None s" by (rule started_ok)
  show "\<And>s t. shell_ok None s \<Longrightarrow> prompt_step s t \<Longrightarrow> shell_ok None t"
    by (elim prompt_stepE) (blast intro: eval_ok deliver_ok)
qed

text \<open>
  C11: Whenever the shell is back at its prompt, whatever commands were typed and whatever signals
  arrived at any delivery point, no job is in the foreground: \<open>eval\<close> returns only once
  the foreground job has ended or stopped. The table is well formed there, so no process id is in two slots.
\<close>
theorem prompt_no_foreground:
  assumes "started s" and "prompt_step\<^sup>*\<^sup>* s t"
  shows "wf_table (jobs t) \<and> (\<forall>j \<in> set (jobs t). state j \<noteq> FG)"
  using prompts.inv_reachable [OF assms] by (auto simp: shell_ok_def table_ok_def only_fg_def)

lemma prompt_no_foreground_witness:
  "started ((fresh_shell [41])\<lparr>pending := [[], [], [SIGCHLD_for [(41, Stopped)]]]\<rparr>) \<and>
   (\<exists>t. prompt_step ((fresh_shell [41])\<lparr>pending := [[], [], [SIGCHLD_for [(41, Stopped)]]]\<rparr>) t \<and>
     map state (take 2 (jobs t)) = [ST, UNDEF] \<and> wf_table (jobs t))"
proof -
  let ?s = "(fresh_shell [41])\<lparr>pending := [[], [], [SIGCHLD_for [(41, Stopped)]]]\<rparr>"
  let ?u = "(fresh_shell [41])\<lparr>pending := [[], [SIGCHLD_for [(41, Stopped)]]]\<rparr>"
  have st: "started ?s"
    by (simp add: started_def fresh_shell_def initjobs_def clearjob_def)
  have d: "deliver ?s = Inr ?u" by (simp add: deliver_def)
  have "(case eval (''sleep 5'' @ [newline]) ?u of Inl e \<Rightarrow> False
    | Inr t \<Rightarrow> map state (take 2 (jobs t)) = [ST, UNDEF])" by code_simp
  then obtain t where t: "eval (''sleep 5'' @ [newline]) ?u = Inr t" "map state (take 2 (jobs t)) = [ST, UNDEF]"
    by (auto split: sum.splits)
  then have step: "prompt_step ?s t" using d prompt_step.intros by blast
  then have "wf_table (jobs t)"
    using prompt_no_foreground [OF st r_into_rtranclp [of prompt_step, OF step]] by blast
  with st step t(2) show ?thesis by (intro conjI exI [of _ t])
qed

section \<open>What goes wrong\<close>

text \<open>
  C38: \<open>sigchld_handler\<close> reports a job killed by a signal with the job id 0: \<open>deletejob\<close> has
  cleared the slot before the message is printed.
\<close>
theorem killed_job_report:
  assumes "table_ok s" and "getjobpid (jobs s) p = Some i" and "zombies s = [(p, Signaled)]"
  shows "\<exists>t. sigchld_handler s = Inr t \<and> job_of t p = None \<and>
    out t = out s @ ''Job [0] ('' @ show_int p @ '') terminated by signal'' @ [newline]"
proof -
  have d: "distinct_pids (jobs s)" using assms(1) by (simp add: table_ok_def wf_table_def)
  have i: "1 \<le> p" "i < length (jobs s)" using assms(2) by (simp_all add: getjobpid_iff [OF d])
  let ?t = "snd (deletejob p s)"
  have f: "find_job (\<lambda>j. pid j = p) (jobs s) = Some i" using assms(2) i(1) by (simp add: getjobpid_def)
  then have "mippy (jobs ?t ! i) = 0" "out ?t = out s"
    using i by (simp_all add: deletejob_def Let_def clearjob_def)
  moreover have "job_of ?t p = None" using deletejob_ok(2) [OF assms(1)] by simp
  moreover have "show_int 0 = ''0''" by code_simp
  ultimately show ?thesis
    using assms(2,3) by (simp add: sigchld_handler_def Let_def job_of_def)
qed

lemma killed_job_report_witness:
  "\<exists>s t. add_entry 41 (BG, ''x'') ((fresh_shell [])\<lparr>zombies := [(41, Signaled)]\<rparr>) = Some s \<and>
    map mippy (take 1 (jobs s)) = [1] \<and>
    sigchld_handler s = Inr t \<and> out t = ''Job [0] (41) terminated by signal'' @ [newline]"
proof -
  let ?s0 = "(fresh_shell [])\<lparr>zombies := [(41, Signaled)]\<rparr>"
  have "(case add_entry 41 (BG, ''x'') ?s0 of None \<Rightarrow> False | Some s \<Rightarrow> zombies s = [(41, Signaled)] \<and>
    out s = [] \<and> getjobpid (jobs s) 41 = Some 0 \<and> map mippy (take 1 (jobs s)) = [1])" by code_simp
  then obtain s where s: "add_entry 41 (BG, ''x'') ?s0 = Some s" "zombies s = [(41, Signaled)]"
    "out s = []" "getjobpid (jobs s) 41 = Some 0" "map mippy (take 1 (jobs s)) = [1]"
    by (auto split: option.splits)
  have "table_ok ?s0" using fresh_shell_ok [of "[]"] by (simp add: shell_ok_def table_ok_def)
  moreover have "job_of ?s0 41 = None" by (auto simp: job_of_def getjobpid_None_iff fresh_shell_def)
  ultimately have "table_ok s" using jt.ins_law [of ?s0 41 "(BG, ''x'')" s] s(1) by simp
  moreover have "show_int 41 = ''41''" by code_simp
  ultimately show ?thesis using killed_job_report [of s 41 0] s by auto
qed

text \<open>
  Job ids are not unique: with fifteen jobs in the table, once the fifth and sixth have ended the
  next two new jobs get the ids 16 and 1, and a job with id 1 is still there. \<open>%1\<close>
  then always means the older one.
\<close>
theorem duplicate_job_id:
  "(let add = (\<lambda>p s. snd (addjob p BG ''x'' s));
        s = fold add (map int [101..<116]) (fresh_shell []);
        s = snd (deletejob 106 (snd (deletejob 105 s)));
        s = add 117 (add 116 s)
    in map pid (filter (\<lambda>j. mippy j = 1) (jobs s)) = [101, 117] \<and> getjobjid (jobs s) 1 = Some 0)"
  by code_simp

lemma fgpid_zero: "only_fg (Some 0) js \<Longrightarrow> fgpid js = 0"
  using find_job_Some [of "\<lambda>j. state j = FG" js]
  by (auto simp: fgpid_def only_fg_def split: option.splits)

lemma waitfg_zero: "shell_ok (Some 0) s \<Longrightarrow> waitfg_loop 0 bs s \<noteq> Inr t"
proof (induction bs arbitrary: s)
  case Nil
  then show ?case using fgpid_zero [of "jobs s"] by (simp add: shell_ok_def stop_def)
next
  case (Cons b bs)
  then show ?case using fgpid_zero [of "jobs s"] handle_all_ok [OF Cons.prems]
    by (auto simp: shell_ok_def [of _ s] bindE_eq_Inr_iff)
qed

text \<open>
  C35: The command \<open>fg\<close> can hang the shell for ever: if the job ends after \<open>do_bgfg\<close> has sent it
  \<open>SIGCONT\<close> and before it is marked as foreground, the handler clears the slot, the empty slot
  is then marked as foreground, and \<open>waitfg (0)\<close> does not return, whatever signals come later.
\<close>
theorem fg_race_hangs:
  assumes "shell_ok None s" and "getjobpid (jobs s) p = Some i" and "zombies s = []"
    and "kill_results s = []" and "pending s = [SIGCHLD_for [(p, Exited)]] # later"
  shows "\<not> (\<exists>t. resume ''fg'' i s = Inr t)"
proof
  assume "\<exists>t. resume ''fg'' i s = Inr t"
  then obtain t where t: "resume ''fg'' i s = Inr t" ..
  have d: "distinct_pids (jobs s)" using assms(1) by (simp add: shell_ok_def table_ok_def wf_table_def)
  have i: "1 \<le> p" "i < length (jobs s)" "pid (jobs s ! i) = p"
    using assms(2) by (simp_all add: getjobpid_iff [OF d])
  let ?u = "s\<lparr>sent := sent s @ [(- p, SIGCONT)], kill_results := []\<rparr>"
  let ?u' = "?u\<lparr>pending := later, zombies := [(p, Exited)]\<rparr>"
  let ?v = "(snd (deletejob p ?u'))\<lparr>zombies := []\<rparr>"
  have k: "Kill (- pid (jobs s ! i)) SIGCONT s = Inr ?u" using assms(4) i(3) by (simp add: Kill_def)
  have dl: "deliver ?u = Inr ?v"
    using assms(2,3,5) by (simp add: deliver_def handle_def sigchld_handler_def)
  have oku: "shell_ok None ?u'" using assms(1) by (subst shell_ok_cong [of _ s]) simp_all
  then have okv: "shell_ok None ?v" using deletejob_shell_ok [OF oku] by simp
  have "find_job (\<lambda>j. pid j = p) (jobs s) = Some i" using assms(2) i(1) by (simp add: getjobpid_def)
  then have zero: "pid (jobs ?v ! i) = 0" using i by (simp add: deletejob_def Let_def clearjob_def)
  have il: "i < MAXJOBS" using i(2) shell_ok_length [OF assms(1)] by simp
  have okw: "shell_ok (Some 0) (set_state i FG ?v)" using zero by (intro set_state_ok [OF okv il]) simp_all
  have "pid (jobs (set_state i FG ?v) ! i) = 0"
    using zero il shell_ok_length [OF okv] by (simp add: set_state_def)
  with t k dl have "waitfg 0 (set_state i FG ?v) = Inr t" by (simp add: resume_def Let_def)
  with waitfg_zero okw show False
    by (auto simp: waitfg_def wrapper_defs bindE_eq_Inr_iff checked_ok)
qed

lemma fg_race_hangs_witness:
  "\<exists>s. add_entry 41 (ST, ''x'') ((fresh_shell [])\<lparr>pending := [[SIGCHLD_for [(41, Exited)]], [SIGINT_typed]]\<rparr>)
     = Some s \<and> \<not> (\<exists>t. resume ''fg'' 0 s = Inr t)"
proof -
  let ?s0 = "(fresh_shell [])\<lparr>pending := [[SIGCHLD_for [(41, Exited)]], [SIGINT_typed]]\<rparr>"
  have "(case add_entry 41 (ST, ''x'') ?s0 of None \<Rightarrow> False | Some s \<Rightarrow> zombies s = [] \<and> kill_results s = [] \<and>
    pending s = [[SIGCHLD_for [(41, Exited)]], [SIGINT_typed]] \<and> getjobpid (jobs s) 41 = Some 0)" by code_simp
  then obtain s where s: "add_entry 41 (ST, ''x'') ?s0 = Some s" "zombies s = []" "kill_results s = []"
    "pending s = [[SIGCHLD_for [(41, Exited)]], [SIGINT_typed]]" "getjobpid (jobs s) 41 = Some 0"
    by (auto split: option.splits)
  have "shell_ok None ?s0" using fresh_shell_ok [of "[]"] by simp
  moreover have new: "0 < (41 :: int) \<longrightarrow> 41 \<notin> pid ` set (jobs ?s0) \<and> 41 \<notin> set (forks ?s0)"
    by (auto simp: fresh_shell_def)
  moreover have "fst (addjob 41 ST ''x'' ?s0)" "s = snd (addjob 41 ST ''x'' ?s0)"
    using s(1) by (auto simp: add_entry_def split: prod.splits if_splits)
  ultimately have "shell_ok None s"
    using addjob_shell_ok [of ?s0 41 ST "''x''"] new by simp
  with fg_race_hangs [of s 41 0] s show ?thesis by auto
qed

end
