(* ===== verification/Tsh_Text.thy ===== *)
theory Tsh_Text
  imports Tsh
begin

text \<open>
  The text routines of lab2/tsh.c: \<open>parseline\<close> takes a printed argument list apart into the
  same arguments, and overruns \<open>argv\<close> when there are too many of them; \<open>push\<close> with its
  in-place reversal prints a number in decimal, so that \<open>atoi\<close> reads an \<open>int\<close> back.
\<close>

section \<open>Parsing\<close>

abbreviation quote_char :: char where "quote_char \<equiv> CHR 0x27"

definition needs_quotes :: "string \<Rightarrow> bool" where
  "needs_quotes w \<longleftrightarrow> w = [] \<or> CHR '' '' \<in> set w"

definition quote_arg :: "string \<Rightarrow> string" where
  "quote_arg w = (if needs_quotes w then quote_char # w @ [quote_char] else w)"

fun spaced :: "string list \<Rightarrow> string" where
  "spaced [] = []"
| "spaced (w # ws) = quote_arg w @ '' '' @ spaced ws"

definition command_line :: "string list \<Rightarrow> string" where
  \<comment> \<open>the arguments separated by single spaces, and a newline\<close>
  "command_line ws = butlast (spaced ws) @ [newline]"

lemma spaced_last: "ws \<noteq> [] \<Longrightarrow> spaced ws \<noteq> [] \<and> last (spaced ws) = CHR '' ''"
proof (induction ws)
  case (Cons w ws)
  then show ?case by (cases "ws = []") auto
qed simp

lemma blank_last_command_line: "ws \<noteq> [] \<Longrightarrow> blank_last (command_line ws) = spaced ws"
  using spaced_last [of ws] append_butlast_last_id [of "spaced ws"]
  by (simp add: blank_last_def command_line_def)

lemma skip_spaced:
  assumes "quote_char \<notin> \<Union> (set ` set ws)"
  shows "skip_spaces (spaced ws) = spaced ws"
proof (cases ws)
  case (Cons w vs)
  then show ?thesis
    by (cases w) (auto simp: skip_spaces_def quote_arg_def needs_quotes_def)
qed (simp add: skip_spaces_def)

lemma arg_end_spaced:
  assumes "quote_char \<notin> set w"
  shows "\<exists>rest. arg_end (spaced (w # ws)) = Some (w, rest) \<and> skip_spaces rest = skip_spaces (spaced ws)"
proof (cases "needs_quotes w")
  case True
  then show ?thesis
    using assms by (auto simp: arg_end_def quote_arg_def skip_spaces_def)
next
  case False
  then obtain c cs where w: "w = c # cs" "c \<noteq> quote_char" "CHR '' '' \<notin> set w"
    using assms by (cases w) (auto simp: needs_quotes_def)
  have s: "spaced (w # ws) = w @ CHR '' '' # spaced ws" using False by (simp add: quote_arg_def)
  have "arg_end (w @ CHR '' '' # spaced ws) = Some (w, spaced ws)"
    using w(2,3) strchr_append [OF w(3), of "spaced ws"] by (simp add: arg_end_def w(1) del: strchr_append)
  then show ?thesis unfolding s by auto
qed

lemma parse_args_spaced:
  assumes "quote_char \<notin> \<Union> (set ` set ws)"
  shows "parse_args n (spaced ws) = (if n + length ws < MAXARGS then Inr ws else Inl OutOfBounds)"
  using assms
proof (induction ws arbitrary: n)
  case Nil
  then show ?case by (subst parse_args.simps) (simp add: arg_end_def)
next
  case (Cons w ws)
  obtain rest where r: "arg_end (spaced (w # ws)) = Some (w, rest)" "skip_spaces rest = spaced ws"
    using arg_end_spaced [of w ws] skip_spaced [of ws] Cons.prems by auto
  have IH: "parse_args (Suc n) (spaced ws) =
      (if Suc n + length ws < MAXARGS then Inr ws else Inl OutOfBounds)"
    using Cons by simp
  show ?case
    using r IH by (subst parse_args.simps) (auto simp del: spaced.simps)
qed

lemma parseline_command_line:
  assumes "ws \<noteq> []" and "quote_char \<notin> \<Union> (set ` set ws)"
  shows "parseline (command_line ws) =
    (if length ws < MAXARGS
     then Inr (if char_at (last ws) 0 = CHR ''&'' then (True, butlast ws) else (False, ws))
     else Inl OutOfBounds)"
proof -
  have "command_line ws \<noteq> []" by (simp add: command_line_def)
  then show ?thesis
    using assms blank_last_command_line [of ws] skip_spaced [of ws] parse_args_spaced [of ws 0]
    by (auto simp: parseline_def)
qed

text \<open>
  C24: \<open>parseline\<close> inverts printing: from fewer than 128 arguments without single quotes, written with
  one space between them and quoted where they are empty or contain a space, it gives back
  exactly these arguments, for the foreground, or without a last argument that starts with
  an ampersand, for the background.
\<close>
theorem parseline_roundtrip:
  assumes "ws \<noteq> []" and "quote_char \<notin> \<Union> (set ` set ws)" and "length ws < MAXARGS"
  shows "parseline (command_line ws) =
    Inr (if char_at (last ws) 0 = CHR ''&'' then (True, butlast ws) else (False, ws))"
  using parseline_command_line [OF assms(1,2)] assms(3) by simp

lemma parseline_roundtrip_witness:
  "command_line [''echo'', ''a b'', ''c'', ''&''] = ''echo '' @ [quote_char] @ ''a b'' @ [quote_char] @ '' c &'' @ [newline] \<and>
   parseline (command_line [''echo'', ''a b'', ''c'', ''&'']) = Inr (True, [''echo'', ''a b'', ''c''])"
  using parseline_roundtrip [of "[''echo'', ''a b'', ''c'', ''&'']"]
  by (simp add: command_line_def quote_arg_def needs_quotes_def char_at_def MAXARGS_def)

text \<open>
  \<open>parseline\<close> does not count its arguments: a line of 128 or more of them, which fits
  in the 1024 characters of a command line, is stored beyond the end of \<open>argv\<close>.
\<close>
theorem parseline_overflow:
  assumes "quote_char \<notin> \<Union> (set ` set ws)" and "MAXARGS \<le> length ws"
  shows "parseline (command_line ws) = Inl OutOfBounds"
proof -
  have "ws \<noteq> []" using assms(2) by (auto simp: MAXARGS_def)
  then show ?thesis using parseline_command_line [OF _ assms(1)] assms(2) by simp
qed

lemma parseline_overflow_witness:
  "length (command_line (replicate 128 ''a'')) < MAXLINE \<and>
   parseline (command_line (replicate 128 ''a'')) = Inl OutOfBounds"
proof
  have "length (spaced (replicate n ''a'')) = 2 * n" for n
    by (induction n) (simp_all add: quote_arg_def needs_quotes_def)
  then show "length (command_line (replicate 128 ''a'')) < MAXLINE"
    by (simp add: command_line_def MAXLINE_def)
  show "parseline (command_line (replicate 128 ''a'')) = Inl OutOfBounds"
    by (rule parseline_overflow) (auto simp: MAXARGS_def)
qed

section \<open>Printing numbers\<close>

lemma back_loop_rev:
  assumes "length as = length bs"
  shows "back_loop (as @ ms @ bs) (length as) (length as + length ms) = as @ rev ms @ bs"
  using assms
proof (induction "length ms" arbitrary: as bs ms rule: less_induct)
  case less
  show ?case
  proof (cases "length ms < 2")
    case True
    then have "rev ms = ms" by (cases ms) auto
    with True show ?thesis by (subst back_loop.simps) simp
  next
    case False
    then obtain x ns y where ms: "ms = x # ns @ [y]"
      by (metis One_nat_def Suc_1 append_butlast_last_id length_Cons less_2_cases_iff list.exhaust list.size(3) lessI)
    let ?s = "as @ ms @ bs"
    have n: "?s ! length as = x" "?s ! (length as + length ms - 1) = y"
      by (simp_all add: ms nth_append)
    have "?s[length as := y, length as + length ms - 1 := x] = (as @ [y]) @ ns @ ([x] @ bs)"
      by (simp add: ms list_update_append)
    then have "back_loop ?s (length as) (length as + length ms) =
        back_loop ((as @ [y]) @ ns @ ([x] @ bs)) (length (as @ [y])) (length (as @ [y]) + length ns)"
      using n by (subst back_loop.simps) (simp add: ms)
    also have "\<dots> = (as @ [y]) @ rev ns @ ([x] @ bs)"
      using less.prems by (intro less.hyps) (simp_all add: ms)
    finally show ?thesis by (simp add: ms)
  qed
qed

lemma reverse_in_place_rev: "reverse_in_place s = rev s"
  using back_loop_rev [of "[]" "[]" s] by (simp add: reverse_in_place_def)

lemma push_loop_decimal:
  "length (show_nat n) \<le> room \<Longrightarrow> push_loop room (int n) 10 = Inr (rev (show_nat n))"
proof (induction n arbitrary: room rule: show_nat.induct)
  case (1 n)
  have pc: "push_char (int n mod 10) = digit_char (n mod 10)"
    by (simp add: push_char_def digit_char_def nat_add_distrib nat_mod_distrib add.commute)
  show ?case
  proof (cases "n < 10")
    case True
    then have "show_nat n = [digit_char n]" by (simp add: show_nat.simps [of n])
    with 1 True pc show ?thesis by (cases room) (simp_all add: Let_def)
  next
    case False
    then have s: "show_nat n = show_nat (n div 10) @ [digit_char (n mod 10)]" by (simp add: show_nat.simps [of n])
    with 1(2) obtain r where r: "room = Suc r" "length (show_nat (n div 10)) \<le> r" by (cases room) auto
    have "push_loop r (int (n div 10)) 10 = Inr (rev (show_nat (n div 10)))"
      by (rule 1(1) [OF False r(2)])
    moreover have "int n div 10 > 0" using False by simp
    ultimately show ?thesis using r(1) s pc by (simp add: Let_def zdiv_int)
  qed
qed

text \<open>
  C34: The shell's own number printing is right: for every \<open>long\<close> except the smallest,
  \<open>push\<close> leaves in the buffer of 130 bytes exactly the decimal text that \<open>printf\<close> would
  print, without overrunning it; and what it prints for a number in the range of \<open>int\<close>, such as a process or
  job id, \<open>atoi\<close> reads back.
\<close>
theorem push_decimal:
  assumes "\<bar>y\<bar> < 2 ^ 63"
  shows "push 130 y 10 = Inr (show_int y) \<and> (in_int y \<longrightarrow> map_sum id atoi (push 130 y 10) = Inr y)"
proof -
  have "nat \<bar>y\<bar> < 10 ^ Suc 18" using assms by simp
  then have l: "length (show_nat (nat \<bar>y\<bar>)) \<le> 19" using show_nat_length [of "nat \<bar>y\<bar>" 18] by simp
  then have "push_loop 130 \<bar>y\<bar> 10 = Inr (rev (show_nat (nat \<bar>y\<bar>)))"
    using push_loop_decimal [of "nat \<bar>y\<bar>" 130] by simp
  then have "push 130 y 10 = Inr (show_int y)"
    using l by (auto simp: push_def Let_def reverse_in_place_rev show_int_def)
  then show ?thesis by (simp add: atoi_show_int)
qed

lemma push_decimal_witness: "push 130 (- 307) 10 = Inr ''-307'' \<and> map_sum id atoi (push 130 (- 307) 10) = Inr (- 307)"
proof -
  have s: "show_int (- 307) = ''-307''" by code_simp
  have "\<bar>- 307 :: int\<bar> < 2 ^ 63" "in_int (- 307)" by (simp_all add: in_int_def)
  with push_decimal [of "- 307"] show ?thesis unfolding s by blast
qed

end
