(* ===== verification/Tsh_Programs.thy ===== *)
theory Tsh_Programs
  imports Tsh_Props Tsh_Text
begin

text \<open>
  The programs that come with the shell to try it out, lab2/myint.c, myspin.c, mysplit.c and
  mystop.c: what each prints and the calls of the system it makes, in order. \<open>statuses\<close> is what
  \<open>waitpid\<close> then reports of the process to its parent. One job, started in the foreground, stopped
  by itself and continued with \<open>fg\<close>, is followed through the shell.
\<close>

section \<open>The programs\<close>

datatype action =
    Sleeps nat
  | Kills int int       \<comment> \<open>the target and the signal\<close>
  | Forks "action list" \<comment> \<open>with what the child does\<close>
  | Waits
  | Exits int

definition usage_text :: "string \<Rightarrow> string" where
  "usage_text name = ''Usage: '' @ name @ '' <n>'' @ [newline]"

definition spin :: "string list \<Rightarrow> action list" where
  \<comment> \<open>\<open>secs = atoi (argv[1]); for (i = 0; i < secs; i++) sleep (1)\<close>\<close>
  "spin argv = replicate (nat (atoi (argv ! 1))) (Sleeps 1)"

definition myspin :: "string list \<Rightarrow> string \<times> action list" where
  "myspin argv =
     (if length argv \<noteq> 2 then (usage_text (argv ! 0), [Exits 0])
      else ([], spin argv @ [Exits 0]))"

definition myint :: "int \<Rightarrow> int \<Rightarrow> string list \<Rightarrow> string \<times> action list" where
  \<comment> \<open>from the process id and what \<open>kill\<close> returns\<close>
  "myint p rc argv =
     (if length argv \<noteq> 2 then (usage_text (argv ! 0), [Exits 0])
      else (if rc < 0 then ''kill (int) error'' else [], spin argv @ [Kills p SIGINT, Exits 0]))"

definition mystop :: "int \<Rightarrow> int \<Rightarrow> string list \<Rightarrow> string \<times> action list" where
  "mystop p rc argv =
     (if length argv \<noteq> 2 then (usage_text (argv ! 0), [Exits 0])
      else (if rc < 0 then ''kill (tstp) error'' else [], spin argv @ [Kills (- p) SIGTSTP, Exits 0]))"

definition mysplit :: "int \<Rightarrow> string list \<Rightarrow> string \<times> action list" where
  \<comment> \<open>from what \<open>fork\<close> returns: in the child the actions are those of the child\<close>
  "mysplit p argv =
     (if length argv \<noteq> 2 then (usage_text (argv ! 0), [Exits 0])
      else let forked = spin argv @ [Exits 0] in
        ([], if p = 0 then forked
             else (if p > 0 then [Forks forked] else []) @ [Waits, Exits 0]))"

section \<open>What the parent sees\<close>

fun statuses :: "int \<Rightarrow> action list \<Rightarrow> wait_status list" where
  \<comment> \<open>of process \<open>p\<close>, the leader of its group, with the default actions of the signals\<close>
  "statuses p [] = []"
| "statuses p (a # as) = (case a of
     Exits n \<Rightarrow> [Exited]
   | Kills q sig \<Rightarrow>
       if q = p \<or> q = - p then
         (if sig = SIGINT then [Signaled] else if sig = SIGTSTP then Stopped # statuses p as else statuses p as)
       else statuses p as
   | _ \<Rightarrow> statuses p as)"

lemma statuses_spin [simp]: "statuses p (spin argv @ as) = statuses p as"
proof -
  have "statuses p (replicate n (Sleeps 1) @ as) = statuses p as" for n by (induction n) auto
  then show ?thesis by (simp add: spin_def)
qed

lemma statuses_of_programs:
  assumes "length argv = 2"
  shows "statuses p (snd (myspin argv)) = [Exited]"
    and "statuses p (snd (myint p 0 argv)) = [Signaled]"
    and "statuses p (snd (mystop p 0 argv)) = [Stopped, Exited]"
    and "q \<noteq> 0 \<Longrightarrow> statuses p (snd (mysplit q argv)) = [Exited]"
  using assms by (simp_all add: myspin_def myint_def mystop_def mysplit_def SIGINT_def SIGTSTP_def Let_def)

section \<open>One job in the foreground\<close>

lemma getjobpid_cong: "map pid js = map pid ks \<Longrightarrow> getjobpid js p = getjobpid ks p"
proof -
  assume "map pid js = map pid ks"
  then have "find_job (\<lambda>j. pid j = p) js = find_job (\<lambda>j. pid j = p) ks"
  proof (induction js arbitrary: ks)
    case (Cons j js)
    then show ?case by (cases ks) auto
  qed simp
  then show ?thesis by (simp add: getjobpid_def)
qed

lemma job_of_set_state:
  assumes ok: "table_ok s" and i: "getjobpid (jobs s) p = Some i"
  shows "job_of (set_state i st s) = (job_of s)(p \<mapsto> (st, cmdline (jobs s ! i)))"
proof
  fix q
  have d: "distinct_pids (jobs s)" using ok by (simp add: table_ok_def wf_table_def)
  have il: "i < length (jobs s)" "pid (jobs s ! i) = p" using i by (simp_all add: getjobpid_iff [OF d])
  have g: "getjobpid (jobs (set_state i st s)) q = getjobpid (jobs s) q"
    using il by (intro getjobpid_cong) (simp add: set_state_def map_update_nth [of i _ pid] del: map_update)
  show "job_of (set_state i st s) q = ((job_of s)(p \<mapsto> (st, cmdline (jobs s ! i)))) q"
  proof (cases "getjobpid (jobs s) q")
    case None
    with i g show ?thesis by (auto simp: job_of_def)
  next
    case (Some k)
    then have "k < length (jobs s)" "pid (jobs s ! k) = q" by (simp_all add: getjobpid_iff [OF d])
    with il i g Some show ?thesis
      by (cases "q = p") (auto simp: job_of_def set_state_def nth_list_update)
  qed
qed

lemma no_longer_fg:
  assumes ok: "shell_ok (Some p) s" and "1 \<le> p" and "\<And>c. job_of s p \<noteq> Some (FG, c)"
  shows "shell_ok None s"
proof -
  have d: "distinct_pids (jobs s)" using ok by (simp add: shell_ok_def table_ok_def wf_table_def)
  have "state j \<noteq> FG" if "j \<in> set (jobs s)" for j
  proof
    assume fg: "state j = FG"
    obtain k where k: "k < length (jobs s)" "jobs s ! k = j" using \<open>j \<in> set (jobs s)\<close> by (auto simp: in_set_conv_nth)
    have "pid j = p" using ok that fg by (auto simp: shell_ok_def only_fg_def)
    then have "getjobpid (jobs s) p = Some k" using k assms(2) by (simp add: getjobpid_iff [OF d])
    with k fg assms(3) [of "cmdline j"] show False by (simp add: job_of_def)
  qed
  with ok show ?thesis by (auto simp: shell_ok_def only_fg_def)
qed

lemma fgpid_None: "shell_ok None s \<Longrightarrow> fgpid (jobs s) = 0"
  by (rule fgpid_zero) (auto simp: shell_ok_def only_fg_def)

lemma fgpid_Some:
  assumes "shell_ok (Some p) s" and "job_of s p = Some (FG, c)"
  shows "fgpid (jobs s) = p"
proof -
  obtain k where "find_job (\<lambda>j. pid j = p) (jobs s) = Some k" "state (jobs s ! k) = FG"
    using assms(2) by (auto simp: job_of_def getjobpid_def split: if_splits)
  then have "jobs s ! k \<in> set (jobs s)" "state (jobs s ! k) = FG"
    using find_job_Some by auto
  then obtain m where m: "find_job (\<lambda>j. state j = FG) (jobs s) = Some m"
    by (cases "find_job (\<lambda>j. state j = FG) (jobs s)") (auto simp: find_job_None)
  with assms(1) find_job_Some [OF m] show ?thesis by (auto simp: fgpid_def shell_ok_def only_fg_def)
qed

definition quiet :: "shell \<Rightarrow> bool" where
  \<comment> \<open>nothing is left to report, and the next calls of the system succeed\<close>
  "quiet s \<longleftrightarrow> zombies s = [] \<and> set_results s = [] \<and> kill_results s = []"

definition after_status :: "wait_status \<Rightarrow> string \<Rightarrow> (job_state \<times> string) option" where
  "after_status st c = (if st = Stopped then Some (ST, c) else None)"

lemma deletejob_rest [simp]:
  "zombies (snd (deletejob p s)) = zombies s" "set_results (snd (deletejob p s)) = set_results s"
  "kill_results (snd (deletejob p s)) = kill_results s" "pending (snd (deletejob p s)) = pending s"
  "forks (snd (deletejob p s)) = forks s" "sent (snd (deletejob p s)) = sent s"
  by (simp_all add: deletejob_def Let_def split: option.splits)

lemma set_state_rest [simp]:
  "zombies (set_state i st s) = zombies s" "set_results (set_state i st s) = set_results s"
  "kill_results (set_state i st s) = kill_results s" "pending (set_state i st s) = pending s"
  "forks (set_state i st s) = forks s" "sent (set_state i st s) = sent s"
  by (simp_all add: set_state_def)

lemma say_rest [simp]: "set_results (say t s) = set_results s" "job_of (say t s) = job_of s"
  by (simp_all add: say_def job_of_def fun_eq_iff)

lemma job_of_rest [simp]:
  "job_of (s\<lparr>zombies := z\<rparr>) = job_of s" "job_of (s\<lparr>pending := b\<rparr>) = job_of s"
  "job_of (s\<lparr>forks := f\<rparr>) = job_of s" "job_of (s\<lparr>sent := k, kill_results := r\<rparr>) = job_of s"
  by (simp_all add: job_of_def fun_eq_iff)

lemma sigchld_one:
  assumes ok: "shell_ok q s" and job: "job_of s p = Some (x, c)" and st: "st \<noteq> OtherStatus"
  shows "\<exists>t. reap [(p, st)] s = Inr t \<and> shell_ok q t \<and> job_of t = (job_of s)(p := after_status st c) \<and>
    zombies t = [] \<and> set_results t = set_results s \<and> kill_results t = kill_results s \<and>
    pending t = pending s \<and> forks t = forks s \<and> sent t = sent s"
proof -
  obtain i where i: "getjobpid (jobs s) p = Some i" "cmdline (jobs s ! i) = c"
    using job by (auto simp: job_of_def)
  have t: "table_ok s" using ok by (simp add: shell_ok_def)
  have il: "i < MAXJOBS" by (rule getjobpid_bound [OF ok i(1)])
  have ST: "shell_ok q (set_state i ST s)" by (rule set_state_ok [OF ok il]) simp_all
  show ?thesis
    using ST i st deletejob_shell_ok [OF ok] deletejob_ok(2) [OF t] job_of_set_state [OF t i(1)]
    by (cases st) (auto simp: after_status_def Let_def)
qed

lemma waitfg_one:
  assumes ok: "shell_ok (Some p) s" and p: "1 \<le> p" and job: "job_of s p = Some (FG, c)"
    and q: "quiet s" and ev: "pending s = [SIGCHLD_for [(p, st)]] # rest" and st: "st \<noteq> OtherStatus"
  shows "\<exists>t. waitfg p s = Inr t \<and> shell_ok None t \<and> job_of t = (job_of s)(p := after_status st c) \<and>
    quiet t \<and> pending t = rest \<and> forks t = forks s \<and> sent t = sent s"
proof -
  have "shell_ok (Some p) (s\<lparr>zombies := [(p, st)]\<rparr>)" using ok by simp
  from sigchld_one [OF this _ st, of p FG c] job obtain t where
    t: "reap [(p, st)] (s\<lparr>zombies := [(p, st)]\<rparr>) = Inr t" "shell_ok (Some p) t"
      "job_of t = (job_of s)(p := after_status st c)"
      "zombies t = []" "set_results t = set_results s" "kill_results t = kill_results s"
      "forks t = forks s" "sent t = sent s" by auto
  have N: "shell_ok None t" using no_longer_fg [OF t(2) p] t(3) by (auto simp: after_status_def)
  have f: "fgpid (jobs s) = p" "fgpid (jobs t) = 0" by (rule fgpid_Some [OF ok job], rule fgpid_None [OF N])
  have "handle (SIGCHLD_for [(p, st)]) s = Inr t"
    using t(1) q by (simp add: handle_def sigchld_handler_def quiet_def del: reap.simps)
  then have "waitfg_loop p (pending s) s = Inr (t\<lparr>pending := rest\<rparr>)"
    using f p ev by (cases rest) simp_all
  then show ?thesis using t N q by (simp add: waitfg_def wrapper_defs quiet_def)
qed

lemma parse_typed:
  assumes "ws \<noteq> []" "quote_char \<notin> \<Union> (set ` set ws)" "length ws < MAXARGS" "char_at (last ws) 0 \<noteq> CHR ''&''"
  shows "parseline (blank_last (command_line ws)) = Inr (False, ws)"
proof -
  have "blank_last (blank_last x) = blank_last x" for x by (simp add: blank_last_def)
  then have "parseline (blank_last (command_line ws)) = parseline (command_line ws)"
    by (simp add: parseline_def command_line_def) (simp add: blank_last_def)
  then show ?thesis using parseline_command_line [OF assms(1,2)] assms(3,4) by simp
qed

lemma foreground_job:
  assumes ok: "shell_ok None s" and q: "quiet s" and f: "forks s = p # ps" and p: "1 \<le> p"
    and room: "\<exists>j \<in> set (jobs s). pid j = 0"
    and cl: "cl \<noteq> []" "parseline (blank_last cl) = Inr (False, argv)" "argv \<noteq> []"
    and prog: "argv ! 0 \<notin> {''jobs'', ''quit'', ''&'', ''bg'', ''fg''}"
    and ev: "pending s = [] # [SIGCHLD_for [(p, st)]] # rest" and st: "st \<noteq> OtherStatus"
  shows "\<exists>t. eval cl s = Inr t \<and> shell_ok None t \<and> job_of t = (job_of s)(p := after_status st cl) \<and>
    quiet t \<and> pending t = rest \<and> forks t = ps \<and> sent t = sent s"
proof -
  let ?v = "s\<lparr>forks := ps\<rparr>"
  have fk: "fork s = (p, ?v)" using f by (simp add: fork_def)
  note v = fork_ok [OF ok fk]
  then have new: "getjobpid (jobs ?v) p = None" using p by (auto simp: getjobpid_None_iff)
  obtain i where "find_job (\<lambda>j. pid j = 0) (jobs s) = Some i"
    using room find_job_None [of "\<lambda>j. pid j = 0" "jobs s"] by fastforce
  then obtain w where w: "addjob p FG cl ?v = (True, w)" using p by (auto simp: addjob_def Let_def)
  have tv: "table_ok ?v" using v by (simp add: shell_ok_def)
  have jw: "job_of w = (job_of s)(p \<mapsto> (FG, cl))" using addjob_ok(2) [OF tv new w] by simp
  have okw: "shell_ok (Some p) w" using addjob_shell_ok [of ?v p FG cl] v w by simp
  have same: "pending w = pending s" "forks w = ps" "zombies w = zombies s"
    using addjob_slot [OF w] by auto
  moreover have "set_results w = set_results s" "kill_results w = kill_results s" "sent w = sent s"
    using w by (auto simp: addjob_def Let_def split: option.splits if_splits)
  ultimately have "quiet (w\<lparr>pending := tl (pending w)\<rparr>)" and sw: "set_results w = []" "sent w = sent s"
    using q by (simp_all add: quiet_def)
  with waitfg_one [OF _ p _ this(1), of cl st rest] okw jw ev same st obtain t where
    t: "waitfg p (w\<lparr>pending := tl (pending w)\<rparr>) = Inr t" "shell_ok None t"
      "job_of t = (job_of s)(p := after_status st cl)" "quiet t" "pending t = rest" "forks t = ps" "sent t = sent s"
    by auto
  have "launch False argv cl (blank_last cl) s = Inr t"
    using q fk p w sw same ev t(1) by (simp add: launch_def quiet_def wrapper_defs deliver_def)
  then have "eval cl s = Inr t" using cl prog by (simp add: eval_def builtin_cmd_def)
  with t show ?thesis by blast
qed

lemma show_int_typed:
  assumes "1 \<le> p"
  shows "isdigit (char_at (show_int p) 0)" "quote_char \<notin> set (show_int p)" "show_int p \<noteq> []"
proof -
  have s: "show_int p = show_nat (nat p)" using assms by (simp add: show_int_def)
  then show "show_int p \<noteq> []" by simp
  then show "isdigit (char_at (show_int p) 0)"
    using show_nat_digits [of "nat p"] s by (simp add: char_at_def)
  show "quote_char \<notin> set (show_int p)"
    using show_nat_digits [of "nat p"] s by (auto simp: isdigit_def)
qed

lemma fg_command:
  assumes ok: "shell_ok None s" and q: "quiet s" and p: "1 \<le> p" "p < 2 ^ 31" and job: "job_of s p = Some (x, c)"
    and ev: "pending s = [] # [SIGCHLD_for [(p, st)]] # rest" and st: "st \<noteq> OtherStatus"
  shows "\<exists>t. eval (command_line [''fg'', show_int p]) s = Inr t \<and> shell_ok None t \<and>
    job_of t = (job_of s)(p := after_status st c) \<and>
    quiet t \<and> pending t = rest \<and> forks t = forks s \<and> sent t = sent s @ [(- p, SIGCONT)]"
proof -
  obtain i where i: "getjobpid (jobs s) p = Some i" "cmdline (jobs s ! i) = c"
    using job by (auto simp: job_of_def)
  have tok: "table_ok s" using ok by (simp add: shell_ok_def)
  then have il: "i < length (jobs s)" "pid (jobs s ! i) = p"
    using i(1) by (simp_all add: table_ok_def wf_table_def getjobpid_iff)
  let ?u = "s\<lparr>sent := sent s @ [(- p, SIGCONT)], kill_results := []\<rparr>"
  let ?v = "?u\<lparr>pending := tl (pending s)\<rparr>"
  let ?w = "set_state i FG ?v"
  have okv: "shell_ok None ?v" using ok by simp
  have okw: "shell_ok (Some p) ?w"
    using il shell_ok_length [OF ok] by (intro set_state_ok [OF okv]) simp_all
  have tv: "table_ok ?v" using okv by (simp add: shell_ok_def)
  have jw: "job_of ?w = (job_of s)(p \<mapsto> (FG, c))"
    using job_of_set_state [OF tv, of p i FG] i by simp
  have "quiet ?w" using q by (simp add: quiet_def)
  with waitfg_one [OF okw p(1) _ this, of c st rest] jw ev st obtain t where
    t: "waitfg p ?w = Inr t" "shell_ok None t" "job_of t = (job_of s)(p := after_status st c)" "quiet t"
      "pending t = rest" "forks t = forks s" "sent t = sent s @ [(- p, SIGCONT)]"
    by auto
  have "pid (jobs ?w ! i) = p" using il by (simp add: set_state_def)
  then have r: "resume ''fg'' i s = Inr t"
    using q il ev t(1) by (simp add: resume_def Kill_def quiet_def deliver_def Let_def)
  note d = show_int_typed [OF p(1)]
  have np: "char_at (show_int p) 0 \<noteq> CHR ''%''" "char_at (show_int p) 0 \<noteq> CHR ''&''"
    using d(1) by (auto simp: isdigit_def)
  have pl: "parseline (blank_last (command_line [''fg'', show_int p])) = Inr (False, [''fg'', show_int p])"
    using d np by (intro parse_typed) (simp_all add: MAXARGS_def)
  have "eval (command_line [''fg'', show_int p]) s = Inr t"
    using pl r d np i(1) p
    by (simp add: eval_def builtin_cmd_def do_bgfg_def Let_def atoi_show_int in_int_def command_line_def del: spaced.simps)
  with t show ?thesis by blast
qed

definition script :: "int \<Rightarrow> wait_status list \<Rightarrow> signal_event list list" where
  \<comment> \<open>each change of state of a child arrives while the shell waits for it, and no other signal does\<close>
  "script p sts = concat (map (\<lambda>st. [[], [SIGCHLD_for [(p, st)]]]) sts)"

text \<open>
  C33: A job that stops itself, seen through the whole shell: typing the command line of mystop starts it in
  the foreground, the shell comes back to its prompt when the program has sent itself the stop
  signal and keeps it as a stopped job under its process id with its command line; \<open>fg\<close> with this
  id sends the continue signal to its group once, waits until it has exited, and leaves the
  job table with the jobs it had before. (There is a free slot, no other signals
  come, and process ids are in the range of \<open>pid_t\<close>, which is \<open>int\<close>.)
\<close>
theorem stopped_job_resumed:
  assumes ok: "shell_ok None s" "quiet s" and f: "forks s = p # ps" "1 \<le> p" "p < 2 ^ 31"
    and room: "\<exists>j \<in> set (jobs s). pid j = 0"
    and argv: "argv = [''./mystop'', show_nat n]"
    and ev: "pending s = script p (statuses p (snd (mystop p 0 argv)))"
  shows "\<exists>t u. eval (command_line argv) s = Inr t \<and>
    job_of t = (job_of s)(p \<mapsto> (ST, command_line argv)) \<and> sent t = sent s \<and>
    eval (command_line [''fg'', show_int p]) t = Inr u \<and>
    job_of u = job_of s \<and> sent u = sent s @ [(- p, SIGCONT)]"
proof -
  have len: "length argv = 2" by (simp add: argv)
  have ev': "pending s = [] # [SIGCHLD_for [(p, Stopped)]] # [] # [SIGCHLD_for [(p, Exited)]] # []"
    using ev statuses_of_programs(3) [OF len] by (simp add: script_def)
  have d: "\<forall>c \<in> set (show_nat n). isdigit c" by (rule show_nat_digits)
  then have "isdigit (show_nat n ! 0)" using nth_mem [of 0 "show_nat n"] by simp
  then have "char_at (show_nat n) 0 \<noteq> CHR ''&''" by (auto simp: char_at_def isdigit_def)
  with d have pl: "parseline (blank_last (command_line argv)) = Inr (False, argv)"
    by (intro parse_typed) (auto simp: argv MAXARGS_def isdigit_def)
  have "command_line argv \<noteq> []" by (simp add: command_line_def)
  from foreground_job [OF ok f(1,2) room this pl _ _ ev'] obtain t where
    t: "eval (command_line argv) s = Inr t" "shell_ok None t"
      "job_of t = (job_of s)(p \<mapsto> (ST, command_line argv))" "quiet t"
      "pending t = [] # [SIGCHLD_for [(p, Exited)]] # []" "sent t = sent s"
    by (auto simp: argv after_status_def)
  have "p \<notin> pid ` set (jobs s)" using ok(1) f by (simp add: shell_ok_def forks_ok_def)
  then have "job_of s p = None" by (simp add: job_of_def getjobpid_None_iff)
  moreover from t(3) have "job_of t p = Some (ST, command_line argv)" by simp
  note fg_command [OF t(2,4) f(2,3) this t(5)]
  ultimately show ?thesis using t by (fastforce simp: after_status_def fun_upd_idem_iff)
qed

theorem stopped_job_resumed_witness:
  "\<exists>t u. eval (command_line [''./mystop'', ''2'']) ((fresh_shell [41])\<lparr>pending :=
      [[], [SIGCHLD_for [(41, Stopped)]], [], [SIGCHLD_for [(41, Exited)]]]\<rparr>) = Inr t \<and>
    job_of t 41 = Some (ST, ''./mystop 2'' @ [newline]) \<and>
    eval (''fg 41'' @ [newline]) t = Inr u \<and> job_of u 41 = None \<and> sent u = [(- 41, SIGCONT)]"
proof -
  let ?s = "(fresh_shell [41])\<lparr>pending := [[], [SIGCHLD_for [(41, Stopped)]], [], [SIGCHLD_for [(41, Exited)]]]\<rparr>"
  have n: "show_nat 2 = ''2''" "show_int 41 = ''41''" by code_simp+
  have c: "command_line [''./mystop'', ''2''] = ''./mystop 2'' @ [newline]" "command_line [''fg'', ''41''] = ''fg 41'' @ [newline]"
    by (simp_all add: command_line_def quote_arg_def needs_quotes_def)
  have "shell_ok None ?s" using fresh_shell_ok [of "[41]"] by simp
  moreover have "quiet ?s" "\<exists>j \<in> set (jobs ?s). pid j = 0" "forks ?s = [41]"
    by (simp_all add: quiet_def fresh_shell_def MAXJOBS_def)
  moreover have "pending ?s = script 41 (statuses 41 (snd (mystop 41 0 [''./mystop'', show_nat 2])))"
    by (simp add: statuses_of_programs script_def)
  ultimately obtain t u where tu: "eval (command_line [''./mystop'', show_nat 2]) ?s = Inr t"
    "job_of t = (job_of ?s)(41 \<mapsto> (ST, command_line [''./mystop'', show_nat 2]))"
    "eval (command_line [''fg'', show_int 41]) t = Inr u" "job_of u = job_of ?s" "sent u = sent ?s @ [(- 41, SIGCONT)]"
    using stopped_job_resumed [of ?s 41 "[]" "[''./mystop'', show_nat 2]" 2] by auto
  have "job_of ?s 41 = None" "sent ?s = []" by (auto simp: job_of_def getjobpid_None_iff fresh_shell_def)
  then show ?thesis using tu unfolding n c by (intro exI [of _ t] exI [of _ u]) simp
qed

end
