(* ===== verification/Csapp.thy ===== *)
theory Csapp
  imports Prelude
begin

text \<open>
  lab5/csapp.c: the functions that end the process on an error and the wrappers of system functions.
  A wrapper takes what the system function returned (and \<open>errno\<close> where it is tested); a pointer
  is an option, with \<open>None\<close> for null. The wrappers that only pass the call on (\<open>Pause\<close>,
  \<open>Alarm\<close>, \<open>Getpgrp\<close>, \<open>Free\<close>, \<open>Freeaddrinfo\<close>, \<open>Pthread_exit\<close>, \<open>Pthread_self\<close>,
  \<open>Pthread_once\<close>) are left out.
\<close>

section \<open>Error functions\<close>

text \<open>Each prints a message and ends the process.\<close>

definition unix_exit :: "fault + 'a" where
  "unix_exit = Inl (Exit 0)"

definition posix_exit :: "fault + 'a" where
  "posix_exit = Inl (Exit 0)"

definition gai_exit :: "fault + 'a" where
  "gai_exit = Inl (Exit 0)"

definition app_exit :: "fault + 'a" where
  "app_exit = Inl (Exit 0)"

definition dns_exit :: "fault + 'a" where
  "dns_exit = Inl (Exit 0)"

section \<open>Processes and signals\<close>

definition Fork :: "int \<Rightarrow> fault + int" where
  "Fork pid = (if pid < 0 then unix_exit else Inr pid)"

definition Execve :: "int \<Rightarrow> fault + unit" where
  "Execve rc = (if rc < 0 then unix_exit else Inr ())"

definition Wait :: "int \<Rightarrow> fault + int" where
  "Wait pid = (if pid < 0 then unix_exit else Inr pid)"

definition Waitpid :: "int \<Rightarrow> fault + int" where
  "Waitpid retpid = (if retpid < 0 then unix_exit else Inr retpid)"

definition Kill :: "int \<Rightarrow> fault + unit" where
  "Kill rc = (if rc < 0 then unix_exit else Inr ())"

definition Sleep :: "u32 \<Rightarrow> fault + u32" where
  \<comment> \<open>the result is unsigned, so the test is never true\<close>
  "Sleep rc = (if rc < 0 then unix_exit else Inr rc)"

definition Setpgid :: "int \<Rightarrow> fault + unit" where
  "Setpgid rc = (if rc < 0 then unix_exit else Inr ())"

definition Signal :: "int \<Rightarrow> 'h \<Rightarrow> fault + 'h" where
  \<comment> \<open>returns the handler that was installed before\<close>
  "Signal rc old = (if rc < 0 then unix_exit else Inr old)"

definition Sigprocmask :: "int \<Rightarrow> fault + unit" where
  "Sigprocmask rc = (if rc < 0 then unix_exit else Inr ())"

definition Sigemptyset :: "int \<Rightarrow> fault + unit" where
  "Sigemptyset rc = (if rc < 0 then unix_exit else Inr ())"

definition Sigfillset :: "int \<Rightarrow> fault + unit" where
  "Sigfillset rc = (if rc < 0 then unix_exit else Inr ())"

definition Sigaddset :: "int \<Rightarrow> fault + unit" where
  "Sigaddset rc = (if rc < 0 then unix_exit else Inr ())"

definition Sigdelset :: "int \<Rightarrow> fault + unit" where
  "Sigdelset rc = (if rc < 0 then unix_exit else Inr ())"

definition Sigismember :: "int \<Rightarrow> fault + int" where
  "Sigismember rc = (if rc < 0 then unix_exit else Inr rc)"

definition Sigsuspend :: "bool \<Rightarrow> int \<Rightarrow> fault + int" where
  \<comment> \<open>whether \<open>errno\<close> is \<open>EINTR\<close>\<close>
  "Sigsuspend interrupted rc = (if interrupted then Inr rc else unix_exit)"

section \<open>Signal-safe output\<close>

text \<open>The argument is what \<open>write\<close> returned.\<close>

definition sio_exit :: "fault + 'a" where
  "sio_exit = Inl (Exit 1)"

definition Sio_putl :: "int \<Rightarrow> fault + int" where
  "Sio_putl n = (if n < 0 then sio_exit else Inr n)"

definition Sio_puts :: "int \<Rightarrow> fault + int" where
  "Sio_puts n = (if n < 0 then sio_exit else Inr n)"

section \<open>Files\<close>

definition Open :: "int \<Rightarrow> fault + int" where
  "Open rc = (if rc < 0 then unix_exit else Inr rc)"

definition Read :: "int \<Rightarrow> fault + int" where
  "Read rc = (if rc < 0 then unix_exit else Inr rc)"

definition Write :: "int \<Rightarrow> fault + int" where
  "Write rc = (if rc < 0 then unix_exit else Inr rc)"

definition Lseek :: "int \<Rightarrow> fault + int" where
  "Lseek rc = (if rc < 0 then unix_exit else Inr rc)"

definition Close :: "int \<Rightarrow> fault + unit" where
  "Close rc = (if rc < 0 then unix_exit else Inr ())"

definition Select :: "int \<Rightarrow> fault + int" where
  "Select rc = (if rc < 0 then unix_exit else Inr rc)"

definition Dup2 :: "int \<Rightarrow> fault + int" where
  "Dup2 rc = (if rc < 0 then unix_exit else Inr rc)"

definition Stat :: "int \<Rightarrow> fault + unit" where
  "Stat rc = (if rc < 0 then unix_exit else Inr ())"

definition Fstat :: "int \<Rightarrow> fault + unit" where
  "Fstat rc = (if rc < 0 then unix_exit else Inr ())"

definition Opendir :: "'p option \<Rightarrow> fault + 'p" where
  "Opendir p = (case p of None \<Rightarrow> unix_exit | Some a \<Rightarrow> Inr a)"

definition Readdir :: "'p option \<Rightarrow> int \<Rightarrow> fault + 'p option" where
  \<comment> \<open>the null pointer with no error is the end of the directory\<close>
  "Readdir dep errno = (if dep = None \<and> errno \<noteq> 0 then unix_exit else Inr dep)"

definition Closedir :: "int \<Rightarrow> fault + int" where
  "Closedir rc = (if rc < 0 then unix_exit else Inr rc)"

definition Mmap :: "int \<Rightarrow> fault + int" where
  "Mmap ptr = (if ptr = -1 then unix_exit else Inr ptr)"

definition Munmap :: "int \<Rightarrow> fault + unit" where
  "Munmap rc = (if rc < 0 then unix_exit else Inr ())"

definition Malloc :: "'p option \<Rightarrow> fault + 'p" where
  "Malloc p = (case p of None \<Rightarrow> unix_exit | Some a \<Rightarrow> Inr a)"

definition Realloc :: "'p option \<Rightarrow> fault + 'p" where
  "Realloc p = (case p of None \<Rightarrow> unix_exit | Some a \<Rightarrow> Inr a)"

definition Calloc :: "'p option \<Rightarrow> fault + 'p" where
  "Calloc p = (case p of None \<Rightarrow> unix_exit | Some a \<Rightarrow> Inr a)"

definition Fclose :: "int \<Rightarrow> fault + unit" where
  "Fclose rc = (if rc \<noteq> 0 then unix_exit else Inr ())"

definition Fdopen :: "'p option \<Rightarrow> fault + 'p" where
  "Fdopen p = (case p of None \<Rightarrow> unix_exit | Some a \<Rightarrow> Inr a)"

definition Fgets :: "'p option \<Rightarrow> bool \<Rightarrow> fault + 'p option" where
  \<comment> \<open>the null pointer without an error is the end of the file\<close>
  "Fgets rptr ferror = (if rptr = None \<and> ferror then app_exit else Inr rptr)"

definition Fopen :: "'p option \<Rightarrow> fault + 'p" where
  "Fopen p = (case p of None \<Rightarrow> unix_exit | Some a \<Rightarrow> Inr a)"

definition Fputs :: "int \<Rightarrow> fault + unit" where
  "Fputs rc = (if rc = -1 then unix_exit else Inr ())"

definition Fread :: "nat \<Rightarrow> nat \<Rightarrow> bool \<Rightarrow> fault + nat" where
  "Fread n nmemb ferror = (if n < nmemb \<and> ferror then unix_exit else Inr n)"

definition Fwrite :: "nat \<Rightarrow> nat \<Rightarrow> fault + unit" where
  "Fwrite n nmemb = (if n < nmemb then unix_exit else Inr ())"

section \<open>Sockets\<close>

definition Socket :: "int \<Rightarrow> fault + int" where
  "Socket rc = (if rc < 0 then unix_exit else Inr rc)"

definition Setsockopt :: "int \<Rightarrow> fault + unit" where
  "Setsockopt rc = (if rc < 0 then unix_exit else Inr ())"

definition Bind :: "int \<Rightarrow> fault + unit" where
  "Bind rc = (if rc < 0 then unix_exit else Inr ())"

definition Listen :: "int \<Rightarrow> fault + unit" where
  "Listen rc = (if rc < 0 then unix_exit else Inr ())"

definition Accept :: "int \<Rightarrow> fault + int" where
  "Accept rc = (if rc < 0 then unix_exit else Inr rc)"

definition Connect :: "int \<Rightarrow> fault + unit" where
  "Connect rc = (if rc < 0 then unix_exit else Inr ())"

definition Getaddrinfo :: "int \<Rightarrow> fault + unit" where
  "Getaddrinfo rc = (if rc \<noteq> 0 then gai_exit else Inr ())"

definition Getnameinfo :: "int \<Rightarrow> fault + unit" where
  "Getnameinfo rc = (if rc \<noteq> 0 then gai_exit else Inr ())"

definition Inet_ntop :: "'p option \<Rightarrow> fault + unit" where
  "Inet_ntop p = (if p = None then unix_exit else Inr ())"

definition Inet_pton :: "int \<Rightarrow> fault + unit" where
  "Inet_pton rc = (if rc = 0 then app_exit else if rc < 0 then unix_exit else Inr ())"

definition Gethostbyname :: "'p option \<Rightarrow> fault + 'p" where
  "Gethostbyname p = (case p of None \<Rightarrow> dns_exit | Some a \<Rightarrow> Inr a)"

definition Gethostbyaddr :: "'p option \<Rightarrow> fault + 'p" where
  "Gethostbyaddr p = (case p of None \<Rightarrow> dns_exit | Some a \<Rightarrow> Inr a)"

section \<open>Threads and semaphores\<close>

definition Pthread_create :: "int \<Rightarrow> fault + unit" where
  "Pthread_create rc = (if rc \<noteq> 0 then posix_exit else Inr ())"

definition Pthread_cancel :: "int \<Rightarrow> fault + unit" where
  "Pthread_cancel rc = (if rc \<noteq> 0 then posix_exit else Inr ())"

definition Pthread_join :: "int \<Rightarrow> fault + unit" where
  "Pthread_join rc = (if rc \<noteq> 0 then posix_exit else Inr ())"

definition Pthread_detach :: "int \<Rightarrow> fault + unit" where
  "Pthread_detach rc = (if rc \<noteq> 0 then posix_exit else Inr ())"

definition Sem_init :: "int \<Rightarrow> fault + unit" where
  "Sem_init rc = (if rc < 0 then unix_exit else Inr ())"

definition P_sem :: "int \<Rightarrow> fault + unit" where
  "P_sem rc = (if rc < 0 then unix_exit else Inr ())"

definition V_sem :: "int \<Rightarrow> fault + unit" where
  "V_sem rc = (if rc < 0 then unix_exit else Inr ())"

lemma Sleep_never_exits: "Sleep rc = Inr rc"
  by (simp add: Sleep_def)

end
