(* ===== verification/Rio.thy ===== *)
theory Rio
  imports CString Csapp
begin

text \<open>
  lab5/csapp.c: the robust I/O package, the signal-safe number printing, the helpers that open
  connections, and the wrappers that end the process on an error. (lab5/tiny/csapp.c is the same
  file but for \<open>sio_ltoa\<close>, which is modelled from both.) A descriptor is a script of what the
  kernel answers to successive calls of \<open>read\<close> or \<open>write\<close>; the end of a script
  of reads is the end of the file.
\<close>

definition MAXLINE :: nat where "MAXLINE = 8192"

section \<open>Descriptors\<close>

datatype read_event =
    Data string    \<comment> \<open>these bytes have arrived; the empty string is an end of file\<close>
  | Interrupted    \<comment> \<open>\<open>EINTR\<close>\<close>
  | Failed         \<comment> \<open>any other error\<close>

datatype read_result = Got string | Intr | Err

fun sys_read :: "nat \<Rightarrow> read_event list \<Rightarrow> read_result \<times> read_event list" where
  "sys_read n [] = (Got [], [])"
| "sys_read n (Interrupted # src) = (Intr, src)"
| "sys_read n (Failed # src) = (Err, src)"
| "sys_read n (Data bs # src) =
     (if length bs \<le> n then (Got bs, src) else (Got (take n bs), Data (drop n bs) # src))"

datatype write_event =
    Wrote nat      \<comment> \<open>takes at most this number of bytes and one more\<close>
  | WInterrupted
  | WFailed

section \<open>Unbuffered reading and writing\<close>

lemma sys_read_Got: "sys_read n src = (Got bs, rest) \<Longrightarrow> length bs \<le> n \<and> length rest \<le> length src"
  by (cases "(n, src)" rule: sys_read.cases) (auto split: if_splits)

lemma sys_read_Intr: "sys_read n src = (Intr, rest) \<Longrightarrow> length rest < length src"
  by (cases "(n, src)" rule: sys_read.cases) (auto split: if_splits)

function rio_readn_loop :: "nat \<Rightarrow> string \<Rightarrow> read_event list \<Rightarrow> string option \<times> read_event list" where
  \<comment> \<open>\<open>None\<close> is the result -1; the second argument is what has been read so far\<close>
  "rio_readn_loop nleft acc src =
     (if nleft = 0 then (Some acc, src)
      else case sys_read nleft src of
        (Intr, src) \<Rightarrow> rio_readn_loop nleft acc src
      | (Err, src) \<Rightarrow> (None, src)
      | (Got bs, src) \<Rightarrow>
          if bs = [] then (Some acc, src) else rio_readn_loop (nleft - length bs) (acc @ bs) src)"
  by pat_completeness auto
termination
  by (relation "measure (\<lambda>(nleft, acc, src). nleft + length src)")
     (auto dest!: sys_read_Intr [OF sym] sys_read_Got [OF sym] simp: neq_Nil_conv)

declare rio_readn_loop.simps [simp del]

definition rio_readn :: "read_event list \<Rightarrow> nat \<Rightarrow> string option \<times> read_event list" where
  "rio_readn src n = rio_readn_loop n [] src"

fun rio_writen :: "write_event list \<Rightarrow> string \<Rightarrow> bool \<times> string list \<times> write_event list" where
  \<comment> \<open>whether all was written, the pieces written, and the rest of the script\<close>
  "rio_writen snk [] = (True, [], snk)"
| "rio_writen [] bs = (True, [bs], [])"
| "rio_writen (WInterrupted # snk) bs = rio_writen snk bs"
| "rio_writen (WFailed # snk) bs = (False, [], snk)"
| "rio_writen (Wrote k # snk) bs =
     (case rio_writen snk (drop (Suc k) bs) of (ok, ps, snk) \<Rightarrow> (ok, take (Suc k) bs # ps, snk))"

section \<open>Buffered reading\<close>

definition RIO_BUFSIZE :: nat where "RIO_BUFSIZE = 8192"

record rio_t =
  rio_fd :: "read_event list"
  rio_buf :: string \<comment> \<open>the \<open>rio_cnt\<close> unread bytes at \<open>rio_bufptr\<close>\<close>

definition rio_readinitb :: "read_event list \<Rightarrow> rio_t" where
  "rio_readinitb src = \<lparr>rio_fd = src, rio_buf = []\<rparr>"

function refill :: "rio_t \<Rightarrow> string option \<times> rio_t" where
  \<comment> \<open>the loop of \<open>rio_read\<close>; \<open>Some []\<close> is the end of the file\<close>
  "refill rp =
     (if rio_buf rp \<noteq> [] then (Some (rio_buf rp), rp)
      else case sys_read RIO_BUFSIZE (rio_fd rp) of
        (Intr, src) \<Rightarrow> refill (rp\<lparr>rio_fd := src\<rparr>)
      | (Err, src) \<Rightarrow> (None, rp\<lparr>rio_fd := src\<rparr>)
      | (Got bs, src) \<Rightarrow> (Some bs, rp\<lparr>rio_fd := src, rio_buf := bs\<rparr>))"
  by pat_completeness auto
termination
  by (relation "measure (\<lambda>rp. length (rio_fd rp))") (auto dest: sys_read_Intr [OF sym])

declare refill.simps [simp del]

definition rio_read :: "nat \<Rightarrow> rio_t \<Rightarrow> string option \<times> rio_t" where
  "rio_read n rp =
     (case refill rp of
        (None, rp) \<Rightarrow> (None, rp)
      | (Some bs, rp) \<Rightarrow> if bs = [] then (Some [], rp) else (Some (take n bs), rp\<lparr>rio_buf := drop n bs\<rparr>))"

fun rio_readnb_loop :: "nat \<Rightarrow> nat \<Rightarrow> string \<Rightarrow> rio_t \<Rightarrow> string option \<times> rio_t" where
  \<comment> \<open>every round reads at least one byte, so \<open>n\<close> rounds are enough: the first argument\<close>
  "rio_readnb_loop 0 nleft acc rp = (Some acc, rp)"
| "rio_readnb_loop (Suc k) nleft acc rp =
     (if nleft = 0 then (Some acc, rp)
      else case rio_read nleft rp of
        (None, rp) \<Rightarrow> (None, rp)
      | (Some bs, rp) \<Rightarrow>
          if bs = [] then (Some acc, rp) else rio_readnb_loop k (nleft - length bs) (acc @ bs) rp)"

definition rio_readnb :: "rio_t \<Rightarrow> nat \<Rightarrow> string option \<times> rio_t" where
  "rio_readnb rp n = rio_readnb_loop n n [] rp"

datatype line = Line string | Eof | Error
  \<comment> \<open>\<open>Eof\<close>: returns 0 and leaves the caller's buffer as it was\<close>

fun readline_loop :: "nat \<Rightarrow> string \<Rightarrow> rio_t \<Rightarrow> line \<times> rio_t" where
  \<comment> \<open>the first argument is \<open>maxlen - n\<close>\<close>
  "readline_loop 0 acc rp = (Line acc, rp)"
| "readline_loop (Suc k) acc rp =
     (case rio_read 1 rp of
        (None, rp) \<Rightarrow> (Error, rp)
      | (Some [], rp) \<Rightarrow> (if acc = [] then Eof else Line acc, rp)
      | (Some (c # _), rp) \<Rightarrow>
          if c = newline then (Line (acc @ [c]), rp) else readline_loop k (acc @ [c]) rp)"

definition rio_readlineb :: "rio_t \<Rightarrow> nat \<Rightarrow> line \<times> rio_t" where
  "rio_readlineb rp maxlen = readline_loop (maxlen - 1) [] rp"

section \<open>Wrappers that end the process\<close>

definition Rio_readn :: "read_event list \<Rightarrow> nat \<Rightarrow> fault + string \<times> read_event list" where
  "Rio_readn src n = (case rio_readn src n of (None, src) \<Rightarrow> unix_exit | (Some bs, src) \<Rightarrow> Inr (bs, src))"

definition Rio_writen :: "write_event list \<Rightarrow> string \<Rightarrow> fault + string list \<times> write_event list" where
  "Rio_writen snk bs = (case rio_writen snk bs of (ok, ps, snk) \<Rightarrow> if ok then Inr (ps, snk) else unix_exit)"

definition Rio_readnb :: "rio_t \<Rightarrow> nat \<Rightarrow> fault + string \<times> rio_t" where
  "Rio_readnb rp n = (case rio_readnb rp n of (None, rp) \<Rightarrow> unix_exit | (Some bs, rp) \<Rightarrow> Inr (bs, rp))"

definition Rio_readlineb :: "rio_t \<Rightarrow> nat \<Rightarrow> string \<Rightarrow> fault + nat \<times> string \<times> rio_t" where
  \<comment> \<open>the third argument is the old content of the buffer; returns the count and the new one\<close>
  "Rio_readlineb rp maxlen buf = (case rio_readlineb rp maxlen of
     (Error, rp) \<Rightarrow> unix_exit
   | (Eof, rp) \<Rightarrow> Inr (0, buf, rp)
   | (Line l, rp) \<Rightarrow> Inr (length l, l, rp))"

section \<open>Opening connections\<close>

text \<open>
  One address that \<open>getaddrinfo\<close> returned: the descriptor that \<open>socket\<close> gives for it
  (negative on error), and whether \<open>connect\<close> (or \<open>bind\<close>) and, after a failure,
  \<open>close\<close> succeed. The functions return their result and the descriptors left open.
\<close>

record attempt =
  sock :: int
  succeeds :: bool
  closes :: bool

fun try_addresses :: "attempt list \<Rightarrow> int list \<Rightarrow> (int \<Rightarrow> int list \<Rightarrow> int \<times> int list) \<Rightarrow> int \<times> int list" where
  \<comment> \<open>the loop over the addresses; the last argument is what is done with the socket that worked\<close>
  "try_addresses [] opened k = (-1, opened)"
| "try_addresses (p # ps) opened k =
     (if sock p < 0 then try_addresses ps opened k
      else if succeeds p then k (sock p) (sock p # opened)
      else if \<not> closes p then (-1, sock p # opened)
      else try_addresses ps opened k)"

definition open_clientfd :: "attempt list option \<Rightarrow> int \<times> int list" where
  \<comment> \<open>\<open>None\<close>: \<open>getaddrinfo\<close> fails\<close>
  "open_clientfd addrs = (case addrs of None \<Rightarrow> (-2, [])
     | Some ps \<Rightarrow> try_addresses ps [] (\<lambda>fd opened. (fd, opened)))"

definition open_listenfd :: "attempt list option \<Rightarrow> bool \<Rightarrow> int \<times> int list" where
  \<comment> \<open>the second argument is whether \<open>listen\<close> succeeds\<close>
  "open_listenfd addrs listens = (case addrs of None \<Rightarrow> (-2, [])
     | Some ps \<Rightarrow> try_addresses ps []
         (\<lambda>fd opened. if listens then (fd, opened) else (-1, remove1 fd opened)))"

definition Open_clientfd :: "attempt list option \<Rightarrow> fault + int" where
  "Open_clientfd addrs = (let rc = fst (open_clientfd addrs) in if rc < 0 then unix_exit else Inr rc)"

definition Open_listenfd :: "attempt list option \<Rightarrow> bool \<Rightarrow> fault + int" where
  "Open_listenfd addrs listens =
     (let rc = fst (open_listenfd addrs listens) in if rc < 0 then unix_exit else Inr rc)"

section \<open>Signal-safe number printing\<close>

definition c_div :: "int \<Rightarrow> int \<Rightarrow> int" where
  \<comment> \<open>C division rounds towards zero\<close>
  "c_div a b = sgn a * sgn b * (\<bar>a\<bar> div \<bar>b\<bar>)"

definition c_mod :: "int \<Rightarrow> int \<Rightarrow> int" where
  "c_mod a b = a - b * c_div a b"

definition ltoa_char :: "int \<Rightarrow> char" where
  "ltoa_char c = char_of (nat ((if c < 10 then c + 48 else c - 10 + 97) mod 256))"

fun ltoa_loop :: "nat \<Rightarrow> int \<Rightarrow> int \<Rightarrow> fault + string" where
  \<comment> \<open>the first argument is the room left in the buffer\<close>
  "ltoa_loop 0 v b = Inl OutOfBounds"
| "ltoa_loop (Suc room) v b =
     (if b = 0 then Inl DivByZero
      else let c = c_mod v b; v' = c_div v b in
           if v' > 0 then bindE (ltoa_loop room v' b) (\<lambda>cs. Inr (ltoa_char c # cs))
           else Inr [ltoa_char c])"

fun sio_reverse_loop :: "nat \<Rightarrow> string \<Rightarrow> nat \<Rightarrow> string" where
  \<comment> \<open>the first argument counts the swaps, half the length of the string\<close>
  "sio_reverse_loop 0 s i = s"
| "sio_reverse_loop (Suc k) s i =
     (let j = length s - 1 - i in sio_reverse_loop k (s[i := s ! j, j := s ! i]) (Suc i))"

definition sio_reverse :: "string \<Rightarrow> string" where
  "sio_reverse s = sio_reverse_loop (length s div 2) s 0"

definition sio_ltoa :: "nat \<Rightarrow> int \<Rightarrow> int \<Rightarrow> fault + string" where
  \<comment> \<open>lab5/csapp.c: \<open>sio_ltoa (v, s, b)\<close> with a buffer of \<open>room\<close> bytes\<close>
  "sio_ltoa room v b = bindE (ltoa_loop room v b) (\<lambda>cs.
     if length cs < room then Inr (sio_reverse cs) else Inl OutOfBounds)"

definition sio_ltoa_tiny :: "nat \<Rightarrow> int \<Rightarrow> int \<Rightarrow> fault + string" where
  \<comment> \<open>lab5/tiny/csapp.c, which covers negative numbers\<close>
  "sio_ltoa_tiny room v b = bindE (ltoa_loop room \<bar>v\<bar> b) (\<lambda>cs.
     let cs = (if v < 0 then cs @ ''-'' else cs) in
     if length cs < room then Inr (sio_reverse cs) else Inl OutOfBounds)"

fun sio_strlen :: "string \<Rightarrow> nat" where
  "sio_strlen [] = 0"
| "sio_strlen (c # cs) = (if c = CHR 0x00 then 0 else Suc (sio_strlen cs))"

definition sio_putl :: "int \<Rightarrow> fault + string" where
  \<comment> \<open>what \<open>sio_putl\<close> writes\<close>
  "sio_putl v = bindE (sio_ltoa 128 v 10) (\<lambda>s. Inr (take (sio_strlen s) s))"

end
