(* ===== verification/Rio_Props.thy ===== *)
theory Rio_Props
  imports Rio
begin

text \<open>
  What the robust I/O package of lab5/csapp.c promises: however the kernel cuts the data up and
  however often it interrupts, \<open>rio_readn\<close>, \<open>rio_readnb\<close> and \<open>rio_readlineb\<close> see one
  stream of bytes. The two buffered readers are proved over the interface \<open>byte_reader\<close>,
  which \<open>rio_read\<close> provides.
\<close>

section \<open>The stream behind a descriptor\<close>

fun content :: "read_event list \<Rightarrow> string" where
  "content [] = []"
| "content (Data bs # src) = bs @ content src"
| "content (e # src) = content src"

definition clean :: "read_event list \<Rightarrow> bool" where
  \<comment> \<open>no errors, and the end of the file only at the end\<close>
  "clean src \<longleftrightarrow> Failed \<notin> set src \<and> Data [] \<notin> set src"

lemma clean_simps [simp]:
  "clean []" "clean (Data bs # src) \<longleftrightarrow> bs \<noteq> [] \<and> clean src" "clean (Interrupted # src) \<longleftrightarrow> clean src"
  "\<not> clean (Failed # src)"
  by (auto simp: clean_def)

lemma sys_read_clean:
  assumes "clean src" and "0 < n"
  obtains (got) bs rest where "sys_read n src = (Got bs, rest)" "clean rest"
      "content src = bs @ content rest" "length bs \<le> n" "bs = [] \<Longrightarrow> content src = []"
    | (intr) rest where "sys_read n src = (Intr, rest)" "clean rest" "content rest = content src"
proof (cases "(n, src)" rule: sys_read.cases)
  case (1 m)
  then show thesis using got [of "[]" "[]"] by simp
next
  case (2 m src')
  then show thesis using intr [of src'] assms by simp
next
  case (3 m src')
  then show thesis using assms by simp
next
  case (4 m bs src')
  show thesis
  proof (cases "length bs \<le> n")
    case True
    then show thesis using got [of bs src'] 4 assms by simp
  next
    case False
    then show thesis using got [of "take n bs" "Data (drop n bs) # src'"] 4 assms
      by (auto simp flip: append_assoc)
  qed
qed

section \<open>Unbuffered\<close>

lemma rio_readn_loop_clean:
  "clean src \<Longrightarrow> \<exists>rest. rio_readn_loop n acc src = (Some (acc @ take n (content src)), rest) \<and>
     clean rest \<and> content rest = drop n (content src)"
proof (induction n acc src rule: rio_readn_loop.induct)
  case (1 n acc src)
  show ?case
  proof (cases "n = 0")
    case True
    then show ?thesis using "1.prems" by (simp add: rio_readn_loop.simps)
  next
    case False
    then have "0 < n" by simp
    from "1.prems" this show ?thesis
    proof (cases rule: sys_read_clean)
      case (got bs rest)
      show ?thesis
      proof (cases "bs = []")
        case True
        with got False show ?thesis by (simp add: rio_readn_loop.simps [of n])
      next
        case nonempty: False
        from "1.IH"(1) [OF False got(1)[symmetric] refl nonempty got(2)] got False nonempty
        show ?thesis by (auto simp: rio_readn_loop.simps [of n acc src])
      qed
    next
      case (intr rest)
      from "1.IH"(2) [OF False intr(1)[symmetric] refl intr(2)] intr False
      show ?thesis by (auto simp: rio_readn_loop.simps [of n acc src])
    qed
  qed
qed

lemma rio_writen_concat:
  assumes "WFailed \<notin> set snk"
  shows "\<exists>ps rest. rio_writen snk bs = (True, ps, rest) \<and> concat ps = bs \<and> [] \<notin> set ps"
  using assms
proof (induction snk bs rule: rio_writen.induct)
  case (5 k snk c cs)
  then obtain ps rest where "rio_writen snk (drop (Suc k) (c # cs)) = (True, ps, rest)"
    "concat ps = drop (Suc k) (c # cs)" "[] \<notin> set ps" by auto
  then show ?case by simp
qed auto

text \<open>
  \<open>rio_readn\<close> is immune to short counts and interrupted calls: if the descriptor never
  fails, it returns the first \<open>n\<close> bytes of the stream, or all of them if there are fewer,
  wherever \<open>read\<close> cuts the stream, and leaves exactly the rest.
\<close>
theorem rio_readn_stream:
  assumes "clean src"
  shows "\<exists>rest. rio_readn src n = (Some (take n (content src)), rest) \<and> clean rest \<and>
    content rest = drop n (content src)"
  using rio_readn_loop_clean [OF assms, of n "[]"] by (simp add: rio_readn_def)

lemma rio_readn_stream_witness:
  "\<exists>rest. rio_readn [Data ''ab'', Interrupted, Data ''cde'', Data ''f''] 4 = (Some ''abcd'', rest) \<and>
    content rest = ''ef''"
proof -
  have "clean [Data ''ab'', Interrupted, Data ''cde'', Data ''f'']" by simp
  from rio_readn_stream [OF this, of 4] show ?thesis by (auto simp: numeral_eq_Suc)
qed

text \<open>
  C26: What \<open>rio_writen\<close> sends arrives: if \<open>write\<close> never fails, however few bytes it takes at a time
  and however often it is interrupted, all the bytes are written in order; and \<open>rio_readn\<close> on
  the other side, which may see them cut up in any other way, gets the same bytes back.
\<close>
theorem rio_transfer:
  assumes "WFailed \<notin> set snk" and "clean src"
    and "\<And>ps rest. rio_writen snk bs = (True, ps, rest) \<Longrightarrow> content src = concat ps"
  shows "\<exists>ps rest src'. rio_writen snk bs = (True, ps, rest) \<and>
    rio_readn src (length bs) = (Some bs, src') \<and> content src' = []"
proof -
  obtain ps rest where "rio_writen snk bs = (True, ps, rest)" "concat ps = bs"
    using rio_writen_concat [OF assms(1)] by blast
  then show ?thesis
    using rio_readn_loop_clean [OF assms(2), of "length bs" "[]"] assms(3)
    by (auto simp: rio_readn_def)
qed

lemma rio_transfer_witness:
  "rio_writen [Wrote 0, WInterrupted, Wrote 2] ''hello'' = (True, [''h'', ''ell'', ''o''], []) \<and>
   (\<exists>src'. rio_readn [Data ''he'', Data ''llo''] 5 = (Some ''hello'', src') \<and> content src' = [])"
proof -
  have w: "rio_writen [Wrote 0, WInterrupted, Wrote 2] ''hello'' = (True, [''h'', ''ell'', ''o''], [])"
    by (simp add: numeral_eq_Suc)
  have c: "clean [Data ''he'', Data ''llo'']" by simp
  have "\<exists>ps rest src'. rio_writen [Wrote 0, WInterrupted, Wrote 2] ''hello'' = (True, ps, rest) \<and>
    rio_readn [Data ''he'', Data ''llo''] (length ''hello'') = (Some ''hello'', src') \<and> content src' = []"
    by (rule rio_transfer [OF _ c]) (auto simp: w)
  with w show ?thesis by (simp add: numeral_eq_Suc)
qed

section \<open>The interface of the buffered readers\<close>

locale byte_reader =
  fixes rd :: "nat \<Rightarrow> 's \<Rightarrow> string option \<times> 's"
    and stream :: "'s \<Rightarrow> string"
    and ok :: "'s \<Rightarrow> bool"
  assumes rd_law: "ok s \<Longrightarrow> 0 < n \<Longrightarrow> \<exists>bs t. rd n s = (Some bs, t) \<and> ok t \<and>
      stream s = bs @ stream t \<and> length bs \<le> n \<and> (bs = [] \<longrightarrow> stream s = [])"
begin

fun take_loop :: "nat \<Rightarrow> nat \<Rightarrow> string \<Rightarrow> 's \<Rightarrow> string option \<times> 's" where
  "take_loop 0 nleft acc s = (Some acc, s)"
| "take_loop (Suc k) nleft acc s =
     (if nleft = 0 then (Some acc, s)
      else case rd nleft s of
        (None, s) \<Rightarrow> (None, s)
      | (Some bs, s) \<Rightarrow> if bs = [] then (Some acc, s) else take_loop k (nleft - length bs) (acc @ bs) s)"

fun line_loop :: "nat \<Rightarrow> string \<Rightarrow> 's \<Rightarrow> line \<times> 's" where
  "line_loop 0 acc s = (Line acc, s)"
| "line_loop (Suc k) acc s =
     (case rd 1 s of
        (None, s) \<Rightarrow> (Error, s)
      | (Some [], s) \<Rightarrow> (if acc = [] then Eof else Line acc, s)
      | (Some (c # _), s) \<Rightarrow>
          if c = newline then (Line (acc @ [c]), s) else line_loop k (acc @ [c]) s)"

lemma take_loop_stream:
  "ok s \<Longrightarrow> nleft \<le> k \<Longrightarrow> \<exists>t. take_loop k nleft acc s = (Some (acc @ take nleft (stream s)), t) \<and>
     ok t \<and> stream t = drop nleft (stream s)"
proof (induction k arbitrary: nleft acc s)
  case 0
  then show ?case by simp
next
  case (Suc k)
  show ?case
  proof (cases "nleft = 0")
    case True
    with Suc.prems show ?thesis by simp
  next
    case False
    then obtain bs t where t: "rd nleft s = (Some bs, t)" "ok t" "stream s = bs @ stream t"
      "length bs \<le> nleft" "bs = [] \<longrightarrow> stream s = []"
      using rd_law [OF Suc.prems(1), of nleft] by auto
    show ?thesis
    proof (cases "bs = []")
      case True
      with t False show ?thesis by simp
    next
      case nonempty: False
      then have "nleft - length bs \<le> k" using Suc.prems(2) by (cases bs) auto
      from Suc.IH [OF t(2) this, of "acc @ bs"] t nonempty False show ?thesis by auto
    qed
  qed
qed

lemma line_loop_fgets:
  "ok s \<Longrightarrow> fgets_chars k (stream s) = (l, r) \<Longrightarrow>
   \<exists>t. line_loop k acc s = (if acc @ l = [] \<and> 0 < k then Eof else Line (acc @ l), t) \<and>
     ok t \<and> stream t = r"
proof (induction k arbitrary: acc s l r)
  case 0
  then show ?case by simp
next
  case (Suc k)
  obtain bs t where t: "rd 1 s = (Some bs, t)" "ok t" "stream s = bs @ stream t" "length bs \<le> 1"
    "bs = [] \<longrightarrow> stream s = []"
    using rd_law [OF Suc.prems(1), of 1] by auto
  show ?case
  proof (cases bs)
    case Nil
    with t Suc.prems(2) show ?thesis by auto
  next
    case (Cons c cs)
    then have cs: "cs = []" "stream s = c # stream t" using t by auto
    show ?thesis
    proof (cases "c = newline")
      case True
      with t Cons cs Suc.prems(2) show ?thesis by auto
    next
      case False
      obtain l' r' where l': "fgets_chars k (stream t) = (l', r')" by fastforce
      then have l: "l = c # l'" "r = r'" using Suc.prems(2) cs False by auto
      from Suc.IH [OF t(2) l', of "acc @ [c]"] show ?thesis using t Cons cs False l by auto
    qed
  qed
qed

end

definition stream :: "rio_t \<Rightarrow> string" where
  "stream rp = rio_buf rp @ content (rio_fd rp)"

definition rio_ok :: "rio_t \<Rightarrow> bool" where
  "rio_ok rp \<longleftrightarrow> clean (rio_fd rp)"

lemma refill_clean:
  assumes "rio_ok rp"
  shows "\<exists>bs t. refill rp = (Some bs, t) \<and> rio_ok t \<and> rio_buf t = bs \<and> stream t = stream rp \<and>
    (bs = [] \<longrightarrow> stream rp = [])"
  using assms
proof (induction rp rule: refill.induct)
  case (1 rp)
  show ?case
  proof (cases "rio_buf rp = []")
    case False
    then show ?thesis using "1.prems" by (simp add: refill.simps [of rp])
  next
    case True
    have "clean (rio_fd rp)" "0 < RIO_BUFSIZE" using "1.prems" by (simp_all add: rio_ok_def RIO_BUFSIZE_def)
    then show ?thesis
    proof (cases rule: sys_read_clean)
      case (got bs rest)
      then show ?thesis using True by (simp add: refill.simps [of rp] rio_ok_def stream_def)
    next
      case (intr rest)
      from "1.IH" [OF _ intr(1)[symmetric] refl] intr True show ?thesis
        by (simp add: refill.simps [of rp] rio_ok_def stream_def)
    qed
  qed
qed

interpretation rr: byte_reader rio_read stream rio_ok
proof unfold_locales
  fix s :: rio_t and n :: nat
  assume "rio_ok s" and n: "0 < n"
  then obtain bs t where t: "refill s = (Some bs, t)" "rio_ok t" "rio_buf t = bs" "stream t = stream s"
    "bs = [] \<longrightarrow> stream s = []"
    using refill_clean by blast
  then show "\<exists>bs t. rio_read n s = (Some bs, t) \<and> rio_ok t \<and> stream s = bs @ stream t \<and>
      length bs \<le> n \<and> (bs = [] \<longrightarrow> stream s = [])"
    using n append_take_drop_id [of n bs]
    by (auto simp: rio_read_def rio_ok_def stream_def simp flip: append_assoc)
qed

lemma readnb_loop_eq: "rio_readnb_loop k n acc rp = rr.take_loop k n acc rp"
  by (induction k arbitrary: n acc rp) (simp_all split: prod.splits option.splits)

lemma readline_loop_eq: "readline_loop k acc rp = rr.line_loop k acc rp"
  by (induction k arbitrary: acc rp) (simp_all split: prod.splits option.splits list.splits)

lemma rio_readlineb_stream:
  assumes "rio_ok rp" and "2 \<le> maxlen"
  shows "\<exists>t. rio_ok t \<and> (case fgets maxlen (stream rp) of
      None \<Rightarrow> rio_readlineb rp maxlen = (Eof, t) \<and> stream t = []
    | Some (l, r) \<Rightarrow> rio_readlineb rp maxlen = (Line l, t) \<and> stream t = r)"
proof -
  obtain l r where l: "fgets_chars (maxlen - 1) (stream rp) = (l, r)" by fastforce
  obtain t where t: "rio_readlineb rp maxlen = (if l = [] then Eof else Line l, t)" "rio_ok t" "stream t = r"
    using rr.line_loop_fgets [OF assms(1) l, of "[]"] assms(2)
    by (auto simp: rio_readlineb_def readline_loop_eq)
  have "maxlen - 1 = Suc (maxlen - 2)" using assms(2) by simp
  then have "l = [] \<longleftrightarrow> stream rp = []"
    using l by (cases "stream rp") (auto split: if_splits prod.splits)
  moreover have "stream rp = [] \<Longrightarrow> r = []" using fgets_chars_append [OF l] by simp
  ultimately show ?thesis using t l by (auto simp: fgets_def split: if_splits)
qed

text \<open>
  C20: \<open>rio_readlineb\<close> reads lines exactly as \<open>fgets\<close> does from the same stream, whatever is
  left in its buffer, however the data arrives and wherever the internal buffer of 8192 bytes
  ends: the same line, cut at the same length, and the same rest of the stream.
\<close>
theorem rio_readlineb_fgets:
  assumes "rio_ok rp" and "2 \<le> maxlen"
  shows "\<exists>t. rio_ok t \<and> (case fgets maxlen (stream rp) of
      None \<Rightarrow> rio_readlineb rp maxlen = (Eof, t) \<and> stream t = []
    | Some (l, r) \<Rightarrow> rio_readlineb rp maxlen = (Line l, t) \<and> stream t = r)"
  by (rule rio_readlineb_stream [OF assms])

lemma rio_readlineb_fgets_witness:
  "\<exists>t. rio_readlineb (rio_readinitb [Data ''GE'', Interrupted, Data (''T'' @ [newline] @ ''x'')]) 8192 =
    (Line (''GET'' @ [newline]), t) \<and> stream t = ''x''"
proof -
  let ?rp = "rio_readinitb [Data ''GE'', Interrupted, Data (''T'' @ [newline] @ ''x'')]"
  have ok: "rio_ok ?rp" by (simp add: rio_ok_def rio_readinitb_def)
  have "stream ?rp = ''GET'' @ newline # ''x''" by (simp add: stream_def rio_readinitb_def)
  then have "fgets 8192 (stream ?rp) = Some (''GET'' @ [newline], ''x'')"
    using fgets_line [of "''GET''" 8192 "''x''"] by simp
  with rio_readlineb_fgets [OF ok, of 8192] show ?thesis by auto
qed

text \<open>
  \<open>rio_readnb\<close> returns the first \<open>n\<close> bytes of the stream, or all that are left, through
  the internal buffer, and leaves exactly the rest to later calls of either buffered reader.
\<close>
theorem rio_readnb_stream:
  assumes "rio_ok rp"
  shows "\<exists>t. rio_readnb rp n = (Some (take n (stream rp)), t) \<and> rio_ok t \<and> stream t = drop n (stream rp)"
  using rr.take_loop_stream [OF assms order_refl, of n "[]"] by (simp add: rio_readnb_def readnb_loop_eq)

lemma rio_readnb_stream_witness:
  "\<exists>t. rio_readnb \<lparr>rio_fd = [Interrupted, Data ''cd''], rio_buf = ''ab''\<rparr> 3 = (Some ''abc'', t) \<and> stream t = ''d''"
  using rio_readnb_stream [of "\<lparr>rio_fd = [Interrupted, Data ''cd''], rio_buf = ''ab''\<rparr>" 3]
  by (auto simp: rio_ok_def stream_def numeral_eq_Suc)

text \<open>What the callers of \<open>Rio_readlineb\<close> use.\<close>

lemma Rio_readlineb_line:
  assumes "rio_ok rp" "stream rp = l @ newline # r" "newline \<notin> set l" "Suc (length l) < maxlen"
  obtains t where "Rio_readlineb rp maxlen buf = Inr (Suc (length l), l @ [newline], t)"
    "rio_ok t" "stream t = r"
  using rio_readlineb_stream [OF assms(1), of maxlen] fgets_line [OF assms(3,4), of r] assms(2,4) that
  by (auto simp: Rio_readlineb_def)

lemma Rio_readlineb_next:
  assumes "rio_ok rp" "2 \<le> maxlen" "stream rp \<noteq> []"
  obtains l t where "Rio_readlineb rp maxlen buf = Inr (length l, l, t)" "rio_ok t" "l \<noteq> []"
    "stream rp = l @ stream t"
proof -
  obtain l r where l: "fgets_chars (maxlen - 1) (stream rp) = (l, r)" by fastforce
  have m: "maxlen - 1 = Suc (maxlen - 2)" using assms(2) by simp
  have "length r < length (stream rp)"
    using fgets_chars_shrinks [OF assms(3), of "maxlen - 2"] l m by simp
  moreover have lr: "l @ r = stream rp" by (rule fgets_chars_append [OF l])
  ultimately have "l \<noteq> []" by auto
  moreover have "fgets maxlen (stream rp) = Some (l, r)" using assms(3) l by (simp add: fgets_def)
  ultimately show thesis
    using rio_readlineb_stream [OF assms(1,2)] lr that by (auto simp: Rio_readlineb_def)
qed

lemma Rio_readlineb_end:
  assumes "rio_ok rp" "2 \<le> maxlen" "stream rp = []"
  obtains t where "Rio_readlineb rp maxlen buf = Inr (0, buf, t)" "rio_ok t" "stream t = []"
  using rio_readlineb_stream [OF assms(1,2)] assms(3) that by (auto simp: Rio_readlineb_def fgets_def)

lemma Rio_writen_all:
  assumes "WFailed \<notin> set snk"
  obtains ps rest where "Rio_writen snk bs = Inr (ps, rest)" "concat ps = bs" "WFailed \<notin> set rest"
proof -
  have "\<exists>ps rest. rio_writen snk bs = (True, ps, rest) \<and> concat ps = bs \<and> WFailed \<notin> set rest"
    using assms
  proof (induction snk bs rule: rio_writen.induct)
    case (5 k snk c cs)
    then obtain ps rest where "rio_writen snk (drop (Suc k) (c # cs)) = (True, ps, rest)"
      "concat ps = drop (Suc k) (c # cs)" "WFailed \<notin> set rest" by auto
    then show ?case by simp
  qed auto
  then show thesis using that by (auto simp: Rio_writen_def)
qed

lemma rio_readinitb_stream [simp]:
  "stream (rio_readinitb fd) = content fd" "rio_ok (rio_readinitb fd) = clean fd"
  by (simp_all add: rio_readinitb_def stream_def rio_ok_def)

text \<open>The first line of a request is read whole, and consists of three words.\<close>

lemma read_request_line:
  assumes "clean fd" "content fd = a @ '' '' @ b @ '' '' @ c @ crlf @ rest"
    and "word a" "word b" "word c" "length (a @ b @ c) + 4 < MAXLINE"
  obtains l t where "Rio_readlineb (rio_readinitb fd) MAXLINE [] = Inr (Suc (length l), l @ [newline], t)"
    "rio_ok t" "stream t = rest" "scan_words (c_string (l @ [newline])) = [a, b, c]"
proof -
  let ?l = "a @ '' '' @ b @ '' '' @ c @ [carriage_return]"
  have s: "stream (rio_readinitb fd) = ?l @ newline # rest" using assms(2) by simp
  have w: "newline \<notin> set ?l" "CHR 0x00 \<notin> set (?l @ [newline])"
    using assms(3-5) [THEN word_chars] by auto
  obtain t where t: "Rio_readlineb (rio_readinitb fd) MAXLINE [] = Inr (Suc (length ?l), ?l @ [newline], t)"
    "rio_ok t" "stream t = rest"
    by (rule Rio_readlineb_line [OF _ s w(1), of MAXLINE "[]"]) (use assms(1,6) in auto)
  have "scan_words (c_string (?l @ [newline])) = [a, b, c]"
    unfolding c_string_id [OF w(2)] using scan_three_words [OF assms(3-5)] by simp
  with t show thesis by (rule that)
qed

section \<open>Connections\<close>

lemma try_addresses_clean:
  "\<forall>p \<in> set ps. closes p \<Longrightarrow> try_addresses ps [] k =
   (case List.find (\<lambda>p. 0 \<le> sock p \<and> succeeds p) ps of None \<Rightarrow> (-1, []) | Some p \<Rightarrow> k (sock p) [sock p])"
  by (induction ps) auto

text \<open>
  \<open>open_clientfd\<close> connects to the first address that works and leaks no descriptor: if \<open>close\<close>
  does not fail, the only descriptor left open is the one it returns, and none when it
  returns an error.
\<close>
theorem open_clientfd_first:
  assumes "\<forall>p \<in> set ps. closes p"
  shows "open_clientfd (Some ps) =
    (case List.find (\<lambda>p. 0 \<le> sock p \<and> succeeds p) ps of None \<Rightarrow> (-1, []) | Some p \<Rightarrow> (sock p, [sock p]))"
  by (simp add: open_clientfd_def try_addresses_clean [OF assms])

lemma open_clientfd_first_witness:
  "open_clientfd (Some [\<lparr>sock = 3, succeeds = False, closes = True\<rparr>,
     \<lparr>sock = -1, succeeds = True, closes = True\<rparr>, \<lparr>sock = 4, succeeds = True, closes = True\<rparr>]) = (4, [4])"
  by (subst open_clientfd_first) simp_all

section \<open>Numbers\<close>

lemma sio_reverse_loop_rev:
  assumes "length as = length bs"
  shows "sio_reverse_loop (length ms div 2) (as @ ms @ bs) (length as) = as @ rev ms @ bs"
  using assms
proof (induction "length ms" arbitrary: as bs ms rule: less_induct)
  case less
  show ?case
  proof (cases "length ms < 2")
    case True
    then have "rev ms = ms" by (cases ms) auto
    with True show ?thesis by simp
  next
    case False
    then obtain x ns y where ms: "ms = x # ns @ [y]"
      by (metis One_nat_def Suc_1 append_butlast_last_id length_Cons less_2_cases_iff list.exhaust list.size(3) lessI)
    let ?s = "as @ ms @ bs" and ?j = "length (as @ ms @ bs) - 1 - length as"
    have n: "?s ! length as = x" "?s ! ?j = y" "?j = length as + Suc (length ns)"
      using less.prems by (simp_all add: ms nth_append)
    have "?s[length as := y, length as + Suc (length ns) := x] = (as @ [y]) @ ns @ ([x] @ bs)"
      by (simp add: ms list_update_append)
    then have "sio_reverse_loop (length ms div 2) ?s (length as) =
        sio_reverse_loop (length ns div 2) ((as @ [y]) @ ns @ ([x] @ bs)) (length (as @ [y]))"
      using n by (simp add: ms Let_def add.commute [of "length ns"])
    also have "\<dots> = (as @ [y]) @ rev ns @ ([x] @ bs)"
      using less.prems by (intro less.hyps) (simp_all add: ms)
    finally show ?thesis by (simp add: ms)
  qed
qed

lemma sio_reverse_rev: "sio_reverse s = rev s"
  using sio_reverse_loop_rev [of "[]" "[]" s] by (simp add: sio_reverse_def)

lemma ltoa_loop_decimal:
  "length (show_nat n) \<le> room \<Longrightarrow> ltoa_loop room (int n) 10 = Inr (rev (show_nat n))"
proof (induction n arbitrary: room rule: show_nat.induct)
  case (1 n)
  have d: "c_div (int n) 10 = int (n div 10)" "c_mod (int n) 10 = int (n mod 10)"
    by (simp_all add: c_mod_def c_div_def sgn_if zdiv_int minus_mult_div_eq_mod [symmetric] of_nat_mod)
  have pc: "ltoa_char (int (n mod 10)) = digit_char (n mod 10)"
    by (simp add: ltoa_char_def digit_char_def nat_add_distrib nat_mod_distrib add.commute)
  show ?case
  proof (cases "n < 10")
    case True
    then have "show_nat n = [digit_char n]" by (simp add: show_nat.simps [of n])
    with 1 True pc d show ?thesis by (cases room) (simp_all add: Let_def)
  next
    case False
    then have s: "show_nat n = show_nat (n div 10) @ [digit_char (n mod 10)]" by (simp add: show_nat.simps [of n])
    with 1(2) obtain r where r: "room = Suc r" "length (show_nat (n div 10)) \<le> r" by (cases room) auto
    have "ltoa_loop r (int (n div 10)) 10 = Inr (rev (show_nat (n div 10)))"
      by (rule 1(1) [OF False r(2)])
    moreover have "0 < n div 10" using False by simp
    ultimately show ?thesis using r(1) s pc d by (simp add: Let_def del: of_nat_div)
  qed
qed

text \<open>
  Of the two copies of \<open>sio_ltoa\<close>, the one of the tiny server prints every \<open>long\<close> but the
  smallest in decimal within its 128 bytes. The one of the proxy does so for the others only: a negative
  number comes out as a single character, \<open>'0'\<close> minus the last digit.
\<close>
theorem sio_ltoa_copies:
  assumes "\<bar>v\<bar> < 2 ^ 63"
  shows "sio_ltoa_tiny 128 v 10 = Inr (show_int v) \<and>
    sio_ltoa 128 v 10 = Inr (if 0 \<le> v then show_int v else [char_of (nat (48 - \<bar>v\<bar> mod 10))])"
proof
  have "nat \<bar>v\<bar> < 10 ^ Suc 18" using assms by simp
  then have l: "length (show_nat (nat \<bar>v\<bar>)) \<le> 19" using show_nat_length [of "nat \<bar>v\<bar>" 18] by simp
  then have loop: "ltoa_loop 128 \<bar>v\<bar> 10 = Inr (rev (show_nat (nat \<bar>v\<bar>)))"
    using ltoa_loop_decimal [of "nat \<bar>v\<bar>" 128] by simp
  then show "sio_ltoa_tiny 128 v 10 = Inr (show_int v)"
    using l by (auto simp: sio_ltoa_tiny_def Let_def sio_reverse_rev show_int_def)
  show "sio_ltoa 128 v 10 = Inr (if 0 \<le> v then show_int v else [char_of (nat (48 - \<bar>v\<bar> mod 10))])"
  proof (cases "0 \<le> v")
    case True
    then show ?thesis using loop l by (simp add: sio_ltoa_def sio_reverse_rev show_int_def)
  next
    case False
    then have "c_div v 10 \<le> 0" by (simp add: c_div_def sgn_if)
    then have "ltoa_loop (Suc 127) v 10 = Inr [ltoa_char (c_mod v 10)]"
      by (subst ltoa_loop.simps) (simp add: Let_def)
    moreover have m: "c_mod v 10 = - (\<bar>v\<bar> mod 10)"
      using False by (simp add: c_mod_def c_div_def sgn_if minus_mult_div_eq_mod [symmetric])
    moreover have "ltoa_char (- (\<bar>v\<bar> mod 10)) = char_of (nat (48 - \<bar>v\<bar> mod 10))"
    proof -
      have "0 \<le> \<bar>v\<bar> mod 10" "\<bar>v\<bar> mod 10 < 10" by simp_all
      then show ?thesis by (simp add: ltoa_char_def)
    qed
    ultimately show ?thesis using False by (simp add: sio_ltoa_def sio_reverse_rev)
  qed
qed

lemma sio_ltoa_copies_witness:
  "sio_ltoa_tiny 128 (- 307) 10 = Inr ''-307'' \<and> sio_ltoa 128 (- 307) 10 = Inr '')''"
proof -
  have "show_int (- 307) = ''-307''" "char_of (nat (48 - \<bar>- 307\<bar> mod 10)) = CHR '')''" by code_simp+
  with sio_ltoa_copies [of "- 307"] show ?thesis by simp
qed

end
