(* ===== verification/Kmlab.thy ===== *)
theory Kmlab
  imports CString
begin

text \<open>
  lab4/kmlab.c, a kernel module that keeps the processor time of registered processes behind
  /proc/kmlab/status, with lab4/kmlab_given.h and the test program lab4/userapp.c. The
  kernel's list is a HOL list in the order of \<open>list_for_each_entry\<close>; a write to or a free
  of a buffer that is already freed is the fault \<open>NullDeref\<close>. What the kernel provides is
  an argument: whether \<open>kmalloc\<close> and the copies to and from user space succeed, the
  processor time of a live task, and \<open>kstrtoul\<close>. Log messages are left out.
\<close>

section \<open>State\<close>

record registration_block =
  bpid :: int
  used_time :: u64

record kmod =
  registration_list :: "registration_block list"
  mallocs :: "bool list" \<comment> \<open>whether the next calls of \<open>kmalloc\<close> succeed, then they all do\<close>
  queued :: nat \<comment> \<open>work items in the queue\<close>
  five_sec :: u64
  update_timer :: "u64 option" \<comment> \<open>the time in jiffies at which it fires, if it is armed\<close>
  wq :: bool \<comment> \<open>whether there is a work queue\<close>
  kmlab_stat :: bool \<comment> \<open>whether the status file is there\<close>

definition MAX_BUF_SIZE :: nat where "MAX_BUF_SIZE = 4096"
definition EFAULT :: int where "EFAULT = 14"
definition ENOMEM :: int where "ENOMEM = 12"

definition kmalloc :: "kmod \<Rightarrow> bool \<times> kmod" where
  "kmalloc s = (case mallocs s of [] \<Rightarrow> (True, s) | b # bs \<Rightarrow> (b, s\<lparr>mallocs := bs\<rparr>))"

definition get_cpu_use :: "(int \<Rightarrow> u64 option) \<Rightarrow> int \<Rightarrow> u64 \<Rightarrow> int \<times> u64" where
  \<comment> \<open>from the \<open>utime\<close> of the task with a given id; the third argument is the old value of the result\<close>
  "get_cpu_use task p old = (case task p of Some t \<Rightarrow> (0, t) | None \<Rightarrow> (-1, old))"

section \<open>Buffers\<close>

record kbuf =
  text_of :: string \<comment> \<open>the characters before the first NUL\<close>
  freed :: bool

definition kfree :: "kbuf \<Rightarrow> fault + kbuf" where
  "kfree b = (if freed b then Inl NullDeref else Inr (b\<lparr>freed := True\<rparr>))"

definition buf_sprintf :: "kbuf \<Rightarrow> nat \<Rightarrow> string \<Rightarrow> fault + kbuf" where
  \<comment> \<open>\<open>sprintf (kern_buf + at, ...)\<close> for text \<open>t\<close>: the text and its NUL must fit\<close>
  "buf_sprintf b at t =
     (if freed b then Inl NullDeref
      else if at + length t < MAX_BUF_SIZE then Inr (b\<lparr>text_of := take at (text_of b) @ t\<rparr>)
      else Inl OutOfBounds)"

section \<open>Registration\<close>

definition register_block :: "int \<Rightarrow> u64 \<Rightarrow> kmod \<Rightarrow> fault + int \<times> kmod" where
  \<comment> \<open>\<open>__register_pid\<close>\<close>
  "register_block pid_val used s =
     (if \<exists>cur \<in> set (registration_list s). bpid cur = pid_val then Inr (- EFAULT, s)
      else let (ok, s) = kmalloc s in
        if \<not> ok then Inl NullDeref
        else Inr (0, s\<lparr>registration_list := \<lparr>bpid = pid_val, used_time = used\<rparr> # registration_list s\<rparr>))"

definition register_pid ::
  "(int \<Rightarrow> u64 option) \<Rightarrow> (string \<Rightarrow> nat option) \<Rightarrow> string option \<Rightarrow> nat \<Rightarrow> nat \<Rightarrow> kmod \<Rightarrow>
   fault + int \<times> kmod" where
  \<comment> \<open>\<open>usr_buf\<close> is what \<open>copy_from_user\<close> copies, \<open>None\<close> if it fails\<close>
  "register_pid task kstrtoul usr_buf n ppos s =
     (let (ok, s) = kmalloc s in
      if \<not> ok then Inr (- ENOMEM, s)
      else if n > MAX_BUF_SIZE \<or> ppos > 0 then Inr (- EFAULT, s)
      else case usr_buf of None \<Rightarrow> Inr (- EFAULT, s)
      | Some bytes \<Rightarrow>
        if n \<ge> MAX_BUF_SIZE then Inl OutOfBounds
        else case kstrtoul (c_string (take n bytes)) of None \<Rightarrow> Inr (- EFAULT, s)
        | Some pid_val \<Rightarrow>
          if pid_val \<ge> 2 ^ 16 - 1 then Inr (- EFAULT, s)
          else let (ret, used) = get_cpu_use task (int pid_val) 0 in
            if ret \<noteq> 0 then Inr (- EFAULT, s)
            else bindE (register_block (int pid_val) used s) (\<lambda>(ret, s).
              Inr (if ret \<noteq> 0 then - EFAULT else int n, s)))"

section \<open>Status\<close>

definition status_line :: "registration_block \<Rightarrow> string" where
  "status_line cur = ''PID['' @ show_int (bpid cur) @ '']: '' @ show_nat (unat (used_time cur)) @ [newline]"

definition status_text :: "registration_block list \<Rightarrow> fault + kbuf \<Rightarrow> fault + kbuf" where
  \<comment> \<open>\<open>__get_status\<close>: one \<open>sprintf\<close> per entry, each after the text so far\<close>
  "status_text bs m = foldl (\<lambda>m cur. bindE m (\<lambda>b. buf_sprintf b (length (text_of b)) (status_line cur))) m bs"

definition get_status :: "nat \<Rightarrow> nat \<Rightarrow> bool \<Rightarrow> kmod \<Rightarrow> fault + int \<times> string \<times> nat \<times> kmod" where
  \<comment> \<open>the result, what was copied to the user, and the new file position\<close>
  "get_status n ppos copy_ok s =
     (let (ok, s) = kmalloc s in
      if \<not> ok then Inr (- ENOMEM, [], ppos, s)
      else let b = \<lparr>text_of = [], freed = False\<rparr> in
      if n < MAX_BUF_SIZE \<or> ppos > 0 then bindE (kfree b) (\<lambda>b. Inr (0, [], ppos, s))
      else
        bindE (status_text (registration_list s) (Inr b)) (\<lambda>b.
        bindE (if text_of b = []
               then bindE (kfree b) (\<lambda>b. buf_sprintf b 0 (''No PID registered'' @ [newline]))
               else Inr b) (\<lambda>b.
        if length (text_of b) \<ge> MAX_BUF_SIZE then Inl OutOfBounds
        else bindE (kfree b) (\<lambda>b'.
          if \<not> copy_ok then Inr (- EFAULT, [], ppos, s)
          else Inr (int (length (text_of b)), text_of b, length (text_of b), s)))))"

section \<open>Periodic update\<close>

definition timer_handler :: "u64 \<Rightarrow> kmod \<Rightarrow> fault + kmod" where
  "timer_handler jiffies s = (let (ok, s) = kmalloc s in
     if \<not> ok then Inl NullDeref
     else if \<not> wq s then Inl NullDeref
     else Inr (s\<lparr>queued := queued s + 1, update_timer := Some (jiffies + five_sec s)\<rparr>))"

fun refresh :: "(int \<Rightarrow> u64 option) \<Rightarrow> registration_block list \<Rightarrow> registration_block list" where
  \<comment> \<open>\<open>__work_handler\<close>: the safe iteration may delete the current entry\<close>
  "refresh task [] = []"
| "refresh task (cur # rest) =
     (let (ret, t) = get_cpu_use task (bpid cur) (used_time cur) in
      if ret \<noteq> 0 then refresh task rest else cur\<lparr>used_time := t\<rparr> # refresh task rest)"

definition work_handler :: "(int \<Rightarrow> u64 option) \<Rightarrow> kmod \<Rightarrow> kmod" where
  "work_handler task s = s\<lparr>registration_list := refresh task (registration_list s), queued := queued s - 1\<rparr>"

section \<open>Loading and unloading\<close>

definition kmlab_init :: "u64 \<Rightarrow> u64 \<Rightarrow> bool \<Rightarrow> bool \<Rightarrow> bool list \<Rightarrow> kmod" where
  \<comment> \<open>\<open>five\<close> is what \<open>msecs_to_jiffies (5000)\<close> gives; \<open>created\<close> and \<open>wq_ok\<close> are whether
      \<open>proc_create\<close> and \<open>alloc_workqueue\<close> succeed, which is not tested\<close>
  "kmlab_init jiffies five created wq_ok ms =
     \<lparr>registration_list = [], mallocs = ms, queued = 0, five_sec = five,
      update_timer = Some (jiffies + five), wq = wq_ok, kmlab_stat = created\<rparr>"

definition kmlab_exit :: "(int \<Rightarrow> u64 option) \<Rightarrow> kmod \<Rightarrow> kmod" where
  \<comment> \<open>flushing the work queue runs what is queued; then the list is emptied\<close>
  "kmlab_exit task s =
     (let s = s\<lparr>kmlab_stat := False, update_timer := None\<rparr>;
          s = (if wq s then ((work_handler task ^^ queued s) s)\<lparr>wq := False\<rparr> else s)
      in s\<lparr>registration_list := []\<rparr>)"

section \<open>The test program\<close>

text \<open>
  lab4/userapp.c registers itself, prints factorials for a while, and then prints the status. Its
  two accesses to the status file are a write and a read at position 0 of a file just opened.
  Whether \<open>malloc\<close> and \<open>open\<close> succeed are arguments.
\<close>

definition pid_register ::
  "(int \<Rightarrow> u64 option) \<Rightarrow> (string \<Rightarrow> nat option) \<Rightarrow> bool \<Rightarrow> bool \<Rightarrow> int \<Rightarrow> kmod \<Rightarrow> fault + string \<times> kmod" where
  \<comment> \<open>what \<open>write\<close> returns is not looked at\<close>
  "pid_register task kstrtoul malloc_ok open_ok pid s =
     (if \<not> malloc_ok then Inl NullDeref
      else let buf = show_int pid; len = length buf; out = ''PID['' @ show_int pid @ '']'' in
        if open_ok \<and> kmlab_stat s
        then bindE (register_pid task kstrtoul (Some buf) len 0 s) (\<lambda>(_, s). Inr (out, s))
        else Inr (out, s))"

definition pid_list :: "bool \<Rightarrow> bool \<Rightarrow> kmod \<Rightarrow> fault + string \<times> kmod" where
  "pid_list malloc_ok open_ok s =
     (if \<not> malloc_ok then Inl NullDeref
      else if open_ok \<and> kmlab_stat s
      then bindE (get_status MAX_BUF_SIZE 0 True s) (\<lambda>(_, buf, _, s). Inr (buf, s))
      else Inr ([], s))"

fun factor :: "nat \<Rightarrow> u64" where
  "factor n = (if n \<le> 1 then 1 else factor (n - 1) * of_nat n)"

declare factor.simps [simp del]

definition user_line :: "nat \<Rightarrow> string" where
  "user_line j = '' '' @ show_nat j @ '': '' @ show_nat (unat (factor j)) @ [newline]"

definition user_table :: string where
  "user_table = concat (map user_line [1..<16])"

definition main_userapp ::
  "(int \<Rightarrow> u64 option) \<Rightarrow> (string \<Rightarrow> nat option) \<Rightarrow> int \<Rightarrow> (kmod \<Rightarrow> fault + kmod) \<Rightarrow> kmod \<Rightarrow> fault + string \<times> kmod" where
  \<comment> \<open>\<open>meanwhile\<close> is what happens in the module while the program computes\<close>
  "main_userapp task kstrtoul pid meanwhile s =
     bindE (pid_register task kstrtoul True True pid s) (\<lambda>(out1, s).
     bindE (meanwhile s) (\<lambda>s.
     bindE (pid_list True True s) (\<lambda>(out2, s).
     Inr (out1 @ concat (replicate 199999 user_table) @ out2, s))))"

section \<open>Correctness\<close>

definition registered :: "kmod \<Rightarrow> bool" where
  "registered s \<longleftrightarrow> distinct (map bpid (registration_list s)) \<and>
     (\<forall>b \<in> set (registration_list s). 0 \<le> bpid b \<and> bpid b < 2 ^ 16 - 1)"

lemma kmalloc_list: "kmalloc s = (ok, t) \<Longrightarrow> registration_list t = registration_list s"
  by (auto simp: kmalloc_def split: list.splits)

lemma refresh_filter:
  "refresh task bs =
   map (\<lambda>b. b\<lparr>used_time := the (task (bpid b))\<rparr>) (filter (\<lambda>b. task (bpid b) \<noteq> None) bs)"
  by (induction bs) (auto simp: get_cpu_use_def split: option.splits)

inductive kmlab_step :: "kmod \<Rightarrow> kmod \<Rightarrow> bool" where
  write_status: "kmlab_stat s \<Longrightarrow> register_pid task kstr usr n ppos s = Inr (r, t) \<Longrightarrow> kmlab_step s t"
| read_status: "kmlab_stat s \<Longrightarrow> get_status n ppos ok s = Inr (r, x, q, t) \<Longrightarrow> kmlab_step s t"
| timer: "update_timer s = Some e \<Longrightarrow> timer_handler jiffies (s\<lparr>update_timer := None\<rparr>) = Inr t \<Longrightarrow> kmlab_step s t"
| work: "queued s > 0 \<Longrightarrow> kmlab_step s (work_handler task s)"
| unload: "kmlab_step s (kmlab_exit task s)"

lemma register_pid_done:
  assumes u: "kmalloc s = (ok, u)" and reg: "register_pid task kstr usr n ppos s = Inr (r, t)" and "t \<noteq> u"
  obtains p used r' where "p < 2 ^ 16 - 1" "register_block (int p) used u = Inr (r', t)"
proof -
  have ok: "ok" "\<not> (n > MAX_BUF_SIZE \<or> ppos > 0)" using assms by (auto simp: register_pid_def split: if_splits)
  then obtain bytes where usr: "usr = Some bytes" using assms by (cases usr) (auto simp: register_pid_def)
  then have n: "\<not> n \<ge> MAX_BUF_SIZE" using u reg ok by (auto simp: register_pid_def)
  then obtain p where p: "kstr (c_string (take n bytes)) = Some p"
    using assms ok usr by (cases "kstr (c_string (take n bytes))") (auto simp: register_pid_def)
  obtain ret used where g: "get_cpu_use task (int p) 0 = (ret, used)" by fastforce
  have "\<not> p \<ge> 2 ^ 16 - 1" "ret = 0"
    using assms ok usr n p g by (auto simp: register_pid_def split: if_splits)
  moreover from this have "bindE (register_block (int p) used u)
      (\<lambda>(ret, s). Inr (if ret \<noteq> 0 then - EFAULT else int n, s)) = Inr (r, t)"
    using u reg ok usr n p g by (simp add: register_pid_def)
  then obtain r' where "register_block (int p) used u = Inr (r', t)"
    by (cases "register_block (int p) used u") auto
  ultimately show thesis using that [of p used r'] by simp
qed

lemma register_block_registered:
  "registered s \<Longrightarrow> register_block (int p) used s = Inr (r, t) \<Longrightarrow> p < 2 ^ 16 - 1 \<Longrightarrow> registered t"
  by (auto simp: register_block_def registered_def Ball_def kmalloc_def split: if_splits prod.splits list.splits)
     metis+

lemma register_pid_registered:
  assumes "registered s" and "register_pid task kstr usr n ppos s = Inr (r, t)"
  shows "registered t"
proof -
  obtain ok u where u: "kmalloc s = (ok, u)" by (cases "kmalloc s")
  then have ru: "registered u" using assms(1) by (simp add: registered_def kmalloc_list)
  show ?thesis
  proof (cases "t = u")
    case False
    obtain p used r' where "p < 2 ^ 16 - 1" "register_block (int p) used u = Inr (r', t)"
      by (rule register_pid_done [OF u assms(2) False])
    then show ?thesis using register_block_registered [OF ru] by simp
  qed (use ru in simp)
qed

lemma get_status_state:
  "get_status n ppos ok s = Inr (r, x, q, t) \<Longrightarrow> registration_list t = registration_list s"
  by (auto simp: get_status_def Let_def bindE_eq_Inr_iff dest: kmalloc_list split: if_splits prod.splits)

lemma work_handler_registered: "registered s \<Longrightarrow> registered (work_handler task s)"
  by (auto simp: registered_def work_handler_def refresh_filter comp_def distinct_map_filter)

lemma timer_handler_list: "timer_handler j s = Inr t \<Longrightarrow> registration_list t = registration_list s"
  by (auto simp: timer_handler_def Let_def dest: kmalloc_list split: prod.splits if_splits)

interpretation kmlab: step_system "\<lambda>s. \<exists>j five c w ms. s = kmlab_init j five c w ms" kmlab_step registered
proof unfold_locales
  fix s :: kmod
  assume "\<exists>j five c w ms. s = kmlab_init j five c w ms"
  then show "registered s" by (auto simp: registered_def kmlab_init_def)
next
  fix s t
  assume "registered s" and "kmlab_step s t"
  from this(2,1) show "registered t"
  proof cases
    case write_status
    then show ?thesis using \<open>registered s\<close> register_pid_registered by blast
  next
    case read_status
    then show ?thesis using \<open>registered s\<close> get_status_state by (metis registered_def)
  next
    case timer
    then show ?thesis using \<open>registered s\<close> timer_handler_list by (fastforce simp: registered_def)
  next
    case work
    then show ?thesis using \<open>registered s\<close> work_handler_registered by blast
  next
    case unload
    then show ?thesis by (simp add: kmlab_exit_def registered_def Let_def)
  qed
qed

end
