(* ===== verification/Kmlab_Props.thy ===== *)
theory Kmlab_Props
  imports Kmlab
begin

text \<open>
  Properties of lab4/kmlab.c: what is registered stays unique and in range in every reachable
  state, a registered process shows up in the status, the periodic update keeps exactly the
  live processes; and two ways in which reading the status goes wrong.
\<close>

section \<open>The status text\<close>

lemma status_text_Inl [simp]: "status_text bs (Inl e) = Inl e"
  by (induction bs) (simp_all add: status_text_def)

lemma status_text_Cons:
  "status_text (c # bs) (Inr b) = status_text bs (buf_sprintf b (length (text_of b)) (status_line c))"
  by (simp add: status_text_def)

lemma status_text_Nil [simp]: "status_text [] m = m"
  by (simp add: status_text_def)

lemma status_text_eq:
  assumes "\<not> freed b" and "length (text_of b) < MAX_BUF_SIZE"
  shows "status_text bs (Inr b) =
    (let t = text_of b @ concat (map status_line bs) in
     if length t < MAX_BUF_SIZE then Inr (b\<lparr>text_of := t\<rparr>) else Inl OutOfBounds)"
  using assms
proof (induction bs arbitrary: b)
  case Nil
  then show ?case by simp
next
  case (Cons c bs)
  let ?b = "b\<lparr>text_of := text_of b @ status_line c\<rparr>"
  show ?case
  proof (cases "length (text_of b) + length (status_line c) < MAX_BUF_SIZE")
    case True
    then have "buf_sprintf b (length (text_of b)) (status_line c) = Inr ?b"
      using Cons.prems by (simp add: buf_sprintf_def)
    then show ?thesis using Cons.IH [of ?b] Cons.prems True by (simp add: status_text_Cons Let_def)
  next
    case False
    then show ?thesis using Cons.prems by (simp add: status_text_Cons buf_sprintf_def Let_def)
  qed
qed

lemma get_status_text:
  assumes "mallocs s = []" and "MAX_BUF_SIZE \<le> n"
  defines "t \<equiv> concat (map status_line (registration_list s))"
  shows "get_status n 0 True s =
    (if MAX_BUF_SIZE \<le> length t then Inl OutOfBounds else if t = [] then Inl NullDeref
     else Inr (int (length t), t, length t, s))"
proof -
  have k: "kmalloc s = (True, s)" using assms(1) by (simp add: kmalloc_def)
  have "0 < MAX_BUF_SIZE" by (simp add: MAX_BUF_SIZE_def)
  then show ?thesis
    using assms(2) k
    by (simp add: get_status_def status_text_eq t_def [symmetric] Let_def kfree_def buf_sprintf_def)
qed

lemma c_string_show_nat: "c_string (show_nat p) = show_nat p"
proof -
  have "\<not> isdigit (CHR 0x00)" by (simp add: isdigit_def)
  then have "CHR 0x00 \<notin> set (show_nat p)" using show_nat_digits [of p] by blast
  then show ?thesis by (rule c_string_id)
qed

section \<open>Properties\<close>

text \<open>
  C27: In every state the module reaches by writes and reads of the status file, timer ticks and
  runs of the work queue, whatever is written and whichever allocations fail, no process is
  registered twice and every registered id is below 65535.
\<close>
theorem registered_unique:
  assumes "kmlab_step\<^sup>*\<^sup>* (kmlab_init j five created wq_ok ms) t"
  shows "distinct (map bpid (registration_list t)) \<and>
    (\<forall>b \<in> set (registration_list t). 0 \<le> bpid b \<and> bpid b < 2 ^ 16 - 1)"
proof -
  have "\<exists>j' five' c w ms'. kmlab_init j five created wq_ok ms = kmlab_init j' five' c w ms'" by blast
  from kmlab.inv_reachable [OF this assms] show ?thesis by (auto simp: registered_def)
qed

definition sample_task :: "int \<Rightarrow> u64 option" where
  "sample_task p = (if p = 7 then Some 30 else None)"

definition loaded :: kmod where
  "loaded = kmlab_init 100 1250 True True []"

lemma loaded_simps [simp]:
  "registration_list loaded = []" "mallocs loaded = []" "queued loaded = 0" "kmlab_stat loaded" "wq loaded"
  by (simp_all add: loaded_def kmlab_init_def)

definition decimal :: "string \<Rightarrow> nat option" where
  \<comment> \<open>an instance of \<open>kstrtoul\<close>, for the witnesses\<close>
  "decimal t = (if t \<noteq> [] \<and> list_all isdigit t \<and> digits_value 0 t < 2 ^ 64 then Some (digits_value 0 t) else None)"

lemma decimal_show_nat: "n < 2 ^ 64 \<Longrightarrow> decimal (show_nat n) = Some n"
  using show_nat_digits [of n] by (simp add: decimal_def digits_value_show_nat list_all_iff)

lemma show_seven: "show_nat 7 = ''7''"
  by code_simp

lemma register_seven:
  "register_pid sample_task decimal (Some ''7'') 1 0 loaded =
   Inr (1, loaded\<lparr>registration_list := [\<lparr>bpid = 7, used_time = 30\<rparr>]\<rparr>)"
  using decimal_show_nat [of 7] c_string_show_nat [of 7]
  by (simp add: register_pid_def register_block_def kmalloc_def MAX_BUF_SIZE_def
      show_seven get_cpu_use_def sample_task_def)

lemma registered_unique_witness:
  "\<exists>t. kmlab_step\<^sup>*\<^sup>* loaded t \<and> map bpid (registration_list t) = [7] \<and>
    (\<forall>b \<in> set (registration_list t). bpid b < 2 ^ 16 - 1)"
proof -
  let ?t = "loaded\<lparr>registration_list := [\<lparr>bpid = 7, used_time = 30\<rparr>]\<rparr>"
  have "kmlab_step\<^sup>*\<^sup>* loaded ?t" using kmlab_step.write_status [OF loaded_simps(4) register_seven] by (rule r_into_rtranclp)
  with registered_unique [of 100 1250 True True "[]" ?t, folded loaded_def] show ?thesis by (intro exI [of _ ?t]) simp
qed

text \<open>
  Writing the number of a live process that is not registered yet, as \<open>kstrtoul\<close> reads decimal
  numbers, returns the number of bytes written and puts the process at the head of the list.
\<close>
lemma register_written:
  assumes kstr: "\<And>m. m < 2 ^ 64 \<Longrightarrow> kstrtoul (show_nat m) = Some m"
    and p: "task (int p) = Some use" "p < 2 ^ 16 - 1" "int p \<notin> bpid ` set (registration_list s)"
    and m: "mallocs s = []"
  shows "register_pid task kstrtoul (Some (show_nat p)) (length (show_nat p)) 0 s =
    Inr (int (length (show_nat p)), s\<lparr>registration_list := \<lparr>bpid = int p, used_time = use\<rparr> # registration_list s\<rparr>)"
proof -
  have k: "kmalloc s = (True, s)" using m by (simp add: kmalloc_def)
  have "p < 10 ^ Suc 4" using p(2) by simp
  then have "length (show_nat p) \<le> 5" using show_nat_length [of p 4] by simp
  then have l: "length (show_nat p) < MAX_BUF_SIZE" by (simp add: MAX_BUF_SIZE_def)
  have "p < 2 ^ 64" using p(2) by simp
  then have "kstrtoul (show_nat p) = Some p" by (rule kstr)
  moreover have "\<not> (\<exists>cur \<in> set (registration_list s). bpid cur = int p)" using p(3) by force
  then have "register_block (int p) use s =
      Inr (0, s\<lparr>registration_list := \<lparr>bpid = int p, used_time = use\<rparr> # registration_list s\<rparr>)"
    using k by (simp add: register_block_def)
  ultimately show ?thesis using p(1,2) k l by (simp add: register_pid_def c_string_show_nat get_cpu_use_def)
qed

section \<open>The module and its test program\<close>

text \<open>
  The periodic update keeps exactly the registered processes that are still alive, in their
  order, each with its current processor time.
\<close>
lemma work_handler_live:
  "registration_list (work_handler task s) =
   map (\<lambda>b. b\<lparr>used_time := the (task (bpid b))\<rparr>) (filter (\<lambda>b. task (bpid b) \<noteq> None) (registration_list s))"
  by (simp add: work_handler_def refresh_filter)

definition update_round :: "u64 \<times> (int \<Rightarrow> u64 option) \<Rightarrow> kmod \<Rightarrow> fault + kmod" where
  \<comment> \<open>the armed timer fires at the given time, and the work queue runs with the given tasks\<close>
  "update_round r s = (case update_timer s of None \<Rightarrow> Inr s
     | Some e \<Rightarrow> bindE (timer_handler (fst r) (s\<lparr>update_timer := None\<rparr>)) (\<lambda>s. Inr (work_handler (snd r) s)))"

definition ready :: "kmod \<Rightarrow> bool" where
  \<comment> \<open>loaded, with enough memory\<close>
  "ready s \<longleftrightarrow> mallocs s = [] \<and> wq s \<and> kmlab_stat s \<and> update_timer s \<noteq> None"

lemma update_round_ready:
  assumes "ready s"
  shows "\<exists>t. update_round r s = Inr t \<and> ready t \<and> registration_list t = refresh (snd r) (registration_list s)"
  using assms by (auto simp: update_round_def ready_def timer_handler_def kmalloc_def work_handler_def)

lemma refresh_registered:
  "registered s \<Longrightarrow> registration_list t = refresh task (registration_list s) \<Longrightarrow> registered t"
  using work_handler_registered [of s task] by (simp add: registered_def work_handler_def)

lemma ticks_ready:
  assumes "ready s" "registered s" "registration_list s = \<lparr>bpid = p, used_time = u\<rparr> # bs"
    and "\<forall>r \<in> set rs. snd r p \<noteq> None"
  shows "\<exists>t cs. foldE update_round rs s = Inr t \<and> ready t \<and> registered t \<and> length cs \<le> length bs \<and>
    registration_list t = \<lparr>bpid = p, used_time = (if rs = [] then u else the (snd (last rs) p))\<rparr> # cs"
  using assms
proof (induction rs arbitrary: s u bs)
  case Nil
  then show ?case by auto
next
  case (Cons r rs)
  obtain s' where s': "update_round r s = Inr s'" "ready s'" "registration_list s' = refresh (snd r) (registration_list s)"
    using update_round_ready [OF Cons.prems(1)] by blast
  have reg: "registered s'" by (rule refresh_registered [OF Cons.prems(2) s'(3)])
  have l: "registration_list s' = \<lparr>bpid = p, used_time = the (snd r p)\<rparr> # refresh (snd r) bs"
    using s'(3) Cons.prems(3,4) by (auto simp: get_cpu_use_def)
  have len: "length (refresh (snd r) bs) \<le> length bs" by (simp add: refresh_filter)
  from Cons.IH [OF s'(2) reg l] Cons.prems(4) obtain t cs where
    t: "foldE update_round rs s' = Inr t" "ready t" "registered t" "length cs \<le> length (refresh (snd r) bs)"
      "registration_list t =
       \<lparr>bpid = p, used_time = (if rs = [] then the (snd r p) else the (snd (last rs) p))\<rparr> # cs"
    by auto
  then show ?case using s'(1) len by (auto intro!: exI [of _ t] exI [of _ cs])
qed

lemma status_line_length:
  assumes "0 \<le> bpid b" "bpid b < 2 ^ 16 - 1"
  shows "length (status_line b) \<le> 33"
proof -
  have "nat (bpid b) < 10 ^ Suc 4" using assms by simp
  then have "length (show_int (bpid b)) \<le> 5"
    using show_nat_length [of "nat (bpid b)" 4] assms(1) by (simp add: show_int_def)
  moreover have "unat (used_time b) < 2 ^ 64" using unsigned_less [of "used_time b"] by simp
  then have "unat (used_time b) < 10 ^ Suc 19" by simp
  then have "length (show_nat (unat (used_time b))) \<le> 20" using show_nat_length [of _ 19] by simp
  ultimately show ?thesis by (simp add: status_line_def)
qed

lemma status_fits:
  assumes "\<forall>b \<in> set bs. 0 \<le> bpid b \<and> bpid b < 2 ^ 16 - 1"
  shows "length (concat (map status_line bs)) \<le> 33 * length bs"
  using assms
proof (induction bs)
  case (Cons b bs)
  then show ?case using status_line_length [of b] by simp
qed simp

text \<open>
  C32: The module and its test program together: a process with a valid id that is not registered yet runs
  userapp while the timer fires any number of times. The program prints its id, its table,
  and then the status, whose first line is its own: its id with the processor time that the last
  update found. The other lines are those of the processes still registered. With at most 123
  processes registered before, the text always fits the buffer.
\<close>
theorem userapp_sees_itself:
  assumes kstr: "\<And>m. m < 2 ^ 64 \<Longrightarrow> kstrtoul (show_nat m) = Some m"
    and p: "task (int p) = Some use" "p < 2 ^ 16 - 1" "int p \<notin> bpid ` set (registration_list s)"
    and s: "ready s" "registered s" "length (registration_list s) \<le> 123"
    and alive: "\<forall>r \<in> set rounds. snd r (int p) \<noteq> None"
  defines "line \<equiv> status_line \<lparr>bpid = int p, used_time = (if rounds = [] then use else the (snd (last rounds) (int p)))\<rparr>"
  shows "\<exists>t cs. main_userapp task kstrtoul (int p) (foldE update_round rounds) s =
      Inr (''PID['' @ show_nat p @ '']'' @ concat (replicate 199999 user_table) @ line @ concat (map status_line cs), t) \<and>
    tl (registration_list t) = cs \<and> length cs \<le> length (registration_list s)"
proof -
  let ?b = "\<lparr>bpid = int p, used_time = use\<rparr>"
  let ?u = "s\<lparr>registration_list := ?b # registration_list s\<rparr>"
  have sp: "show_int (int p) = show_nat p" by (simp add: show_int_def)
  have reg: "registered ?u" using s(2) p(2,3) by (auto simp: registered_def)
  have fits: "length (concat (map status_line bs)) < MAX_BUF_SIZE"
    if "registered v" "registration_list v = bs" "length bs \<le> 124" for v bs
    using status_fits [of bs] that by (simp add: registered_def MAX_BUF_SIZE_def)
  have m: "mallocs s = []" "kmlab_stat s" using s(1) by (simp_all add: ready_def)
  have "register_pid task kstrtoul (Some (show_nat p)) (length (show_nat p)) 0 s =
      Inr (int (length (show_nat p)), ?u)"
    by (rule register_written) (use kstr p m(1) in auto)
  then have w: "pid_register task kstrtoul True True (int p) s = Inr (''PID['' @ show_nat p @ '']'', ?u)"
    using m by (auto simp: pid_register_def sp Let_def)
  have "ready ?u" using s(1) by (simp add: ready_def)
  from ticks_ready [OF this reg _ alive, of use "registration_list s"] obtain t cs where
    t: "foldE update_round rounds ?u = Inr t" "ready t" "registered t" "length cs \<le> length (registration_list s)"
      "registration_list t =
       \<lparr>bpid = int p, used_time = (if rounds = [] then use else the (snd (last rounds) (int p)))\<rparr> # cs"
    by auto
  have ne: "line \<noteq> []" by (simp add: line_def status_line_def)
  have body: "concat (map status_line (registration_list t)) = line @ concat (map status_line cs)"
    by (simp add: t(5) line_def)
  have "length (registration_list t) \<le> 124" using t(4,5) s(3) by simp
  from fits [OF t(3) refl this] have "length (line @ concat (map status_line cs)) < MAX_BUF_SIZE"
    unfolding body .
  then have "pid_list True True t = Inr (line @ concat (map status_line cs), t)"
    using get_status_text [of t MAX_BUF_SIZE] t(2) body ne by (simp add: pid_list_def ready_def)
  then show ?thesis using w t(1,4,5) by (auto simp: main_userapp_def)
qed

definition later_task :: "int \<Rightarrow> u64 option" where
  "later_task p = (if p = 7 then Some 35 else None)"

theorem userapp_sees_itself_witness:
  "\<exists>t. main_userapp sample_task decimal 7 (foldE update_round [(1350, later_task)]) loaded =
     Inr (''PID[7]'' @ concat (replicate 199999 user_table) @ ''PID[7]: 35'' @ [newline], t)"
proof -
  have line: "status_line \<lparr>bpid = 7, used_time = 35\<rparr> = ''PID[7]: 35'' @ [newline]" by code_simp
  have "ready loaded" "registered loaded"
    by (simp_all add: ready_def registered_def) (simp add: loaded_def kmlab_init_def)
  with userapp_sees_itself [of decimal sample_task 7 30 loaded "[(1350, later_task)]"] line show_seven
  show ?thesis by (auto simp: decimal_show_nat sample_task_def later_task_def)
qed

section \<open>What goes wrong\<close>

text \<open>
  Reading the status while no process is registered always fails: the message for this case is
  printed into the buffer after it has been freed.
\<close>
theorem empty_status_fault:
  assumes "registration_list s = []" and "mallocs s = []" and "MAX_BUF_SIZE \<le> n"
  shows "get_status n 0 ok s = Inl NullDeref"
  using assms
  by (simp add: get_status_def Let_def kmalloc_def kfree_def buf_sprintf_def)

lemma empty_status_fault_witness: "get_status 4096 0 True loaded = Inl NullDeref"
  by (rule empty_status_fault) (simp_all add: MAX_BUF_SIZE_def)

text \<open>
  C39: The status buffer is not bounds-checked: once the lines of the registered processes are 4096
  characters or more together, reading the status writes beyond the buffer.
\<close>
theorem status_overflow:
  assumes "MAX_BUF_SIZE \<le> length (concat (map status_line (registration_list s)))"
    and "mallocs s = []" and "MAX_BUF_SIZE \<le> n"
  shows "get_status n 0 True s = Inl OutOfBounds"
  using get_status_text [OF assms(2,3)] assms(1) by simp

lemma status_overflow_witness:
  "get_status 4096 0 True
     (loaded\<lparr>registration_list := map (\<lambda>i. \<lparr>bpid = int i, used_time = 0\<rparr>) [0..<600]\<rparr>) = Inl OutOfBounds"
proof (rule status_overflow)
  have len: "7 \<le> length (status_line b)" for b by (simp add: status_line_def)
  have "7 * length bs \<le> length (concat (map status_line bs))" for bs
  proof (induction bs)
    case (Cons b bs)
    then show ?case using len [of b] by simp
  qed simp
  from this [of "map (\<lambda>i. \<lparr>bpid = int i, used_time = 0\<rparr>) [0..<600]"]
  show "MAX_BUF_SIZE \<le> length (concat (map status_line (registration_list
      (loaded\<lparr>registration_list := map (\<lambda>i. \<lparr>bpid = int i, used_time = 0\<rparr>) [0..<600]\<rparr>))))"
    by (simp add: MAX_BUF_SIZE_def)
qed (simp_all add: MAX_BUF_SIZE_def)

end
