(* ===== verification/Proxy.thy ===== *)
theory Proxy
  imports Rio
begin

text \<open>
  lab5/proxy.c: parsing of requests, the request sent on to the server, the cache of ten lines
  with least-recently-used replacement, one connection from request to answer, and the
  semaphore protocol between the threads that read and write the cache. \<open>exit (0)\<close> ends the
  whole proxy, and is the stop \<open>Exit 0\<close>. What a buffer on the stack or from \<open>malloc\<close>
  holds before it is written is an argument.
\<close>

definition MAX_OBJECT_SIZE :: nat where "MAX_OBJECT_SIZE = 102400"
definition NUM_CACHE_LINE :: nat where "NUM_CACHE_LINE = 10"
definition MAX_HOSTNAME_LEN :: nat where "MAX_HOSTNAME_LEN = 64"
definition MAX_PORT_LEN :: nat where "MAX_PORT_LEN = 20"
definition MAX_HEADERNAME_LEN :: nat where "MAX_HEADERNAME_LEN = 32"
definition MAX_HEADER_LEN :: nat where "MAX_HEADER_LEN = 64"

section \<open>Requests\<close>

record request_line =
  hostname :: string
  port :: string
  path :: string

record header_line =
  headername :: string
  header :: string

definition parse_uri :: "string \<Rightarrow> fault + request_line" where
  "parse_uri uri =
     (if strstr uri ''http://'' \<noteq> Some 0 then Inl (Exit 0)
      else let uri = drop (length ''http://'') uri in
      case strstr uri '':'' of None \<Rightarrow> Inl NullDeref
      | Some i \<Rightarrow>
        bindE (copy_to MAX_HOSTNAME_LEN (take i uri)) (\<lambda>h.
        let uri = drop (Suc i) uri in
        case strstr uri ''/'' of None \<Rightarrow> Inl NullDeref
        | Some j \<Rightarrow>
          bindE (copy_to MAX_PORT_LEN (take j uri)) (\<lambda>p.
          bindE (copy_to MAXLINE (drop j uri)) (\<lambda>q.
          Inr \<lparr>hostname = h, port = p, path = q\<rparr>))))"

definition parse_header :: "string \<Rightarrow> fault + header_line \<times> string" where
  \<comment> \<open>also returns the buffer, which is cut off at the separator\<close>
  "parse_header buf =
     (case strstr buf '': '' of None \<Rightarrow> Inl (Exit 0)
      | Some i \<Rightarrow>
        bindE (copy_to MAX_HEADERNAME_LEN (take i buf)) (\<lambda>n.
        bindE (copy_to MAX_HEADER_LEN (drop (i + 2) buf)) (\<lambda>h.
        Inr (\<lparr>headername = n, header = h\<rparr>, take i buf))))"

fun read_headers :: "nat \<Rightarrow> string \<Rightarrow> rio_t \<Rightarrow> fault + header_line list \<times> rio_t" where
  \<comment> \<open>the loop of \<open>parse_request\<close>; the first argument is the room left in \<open>headers\<close>\<close>
  "read_headers 0 buf rio =
     (if c_string buf = crlf then Inr ([], rio)
      else bindE (parse_header (c_string buf)) (\<lambda>x. Inl OutOfBounds))"
| "read_headers (Suc room) buf rio =
     (if c_string buf = crlf then Inr ([], rio)
      else bindE (parse_header (c_string buf)) (\<lambda>(h, buf).
           bindE (Rio_readlineb rio MAXLINE buf) (\<lambda>(n, buf, rio).
           bindE (read_headers room buf rio) (\<lambda>(hs, rio). Inr (h # hs, rio)))))"

definition parse_request :: "read_event list \<Rightarrow> fault + request_line \<times> header_line list" where
  \<comment> \<open>with no request line the caller goes on with uninitialised variables\<close>
  "parse_request fd =
     bindE (Rio_readlineb (rio_readinitb fd) MAXLINE []) (\<lambda>(n, buf, rio).
     if n = 0 then Inl Uninitialised
     else case scan_words (c_string buf) of
       method # uri # rest \<Rightarrow>
         bindE (parse_uri uri) (\<lambda>linep.
         bindE (Rio_readlineb rio MAXLINE buf) (\<lambda>(n, buf, rio).
         bindE (read_headers 20 buf rio) (\<lambda>(headers, rio). Inr (linep, headers))))
     | _ \<Rightarrow> Inl Uninitialised)"

definition request_text :: "request_line \<Rightarrow> header_line list \<Rightarrow> string" where
  "request_text linep headers =
     ''GET '' @ path linep @ '' HTTP/1.0'' @ crlf @
     concat (map (\<lambda>h. headername h @ '': '' @ header h) headers) @ crlf"

definition send_to_server ::
  "attempt list option \<Rightarrow> write_event list \<Rightarrow> string \<Rightarrow> request_line \<Rightarrow> header_line list \<Rightarrow> fault + string list" where
  \<comment> \<open>what is sent: always \<open>MAXLINE\<close> bytes, the rest of the buffer being \<open>junk\<close>\<close>
  "send_to_server addrs snk junk linep headers =
     bindE (Open_clientfd addrs) (\<lambda>clientfd.
     bindE (copy_to MAXLINE (request_text linep headers)) (\<lambda>t.
     let buf = t @ CHR 0x00 # drop (Suc (length t)) junk in
     bindE (Rio_writen snk buf) (\<lambda>(ps, snk). Inr ps)))"

section \<open>The cache\<close>

record cache_line =
  name :: string
  payload :: string \<comment> \<open>all bytes of the buffer\<close>
  timestamp :: u64

record cache_state =
  cache :: "cache_line list"
  usedcnt :: nat
  gtime :: u64

definition initialize_cache :: "string \<Rightarrow> cache_state" where
  \<comment> \<open>from what \<open>malloc\<close> leaves in a payload; \<open>malloc\<close> and \<open>sem_init\<close> succeed\<close>
  "initialize_cache junk = \<lparr>cache = replicate NUM_CACHE_LINE \<lparr>name = [], payload = junk, timestamp = -1\<rparr>,
     usedcnt = 0, gtime = 0\<rparr>"

fun find_name :: "nat \<Rightarrow> string \<Rightarrow> cache_line list \<Rightarrow> nat option" where
  \<comment> \<open>the loop of \<open>reader\<close> over the first lines\<close>
  "find_name 0 uri cs = None"
| "find_name (Suc n) uri [] = None"
| "find_name (Suc n) uri (c # cs) = (if name c = uri then Some 0 else map_option Suc (find_name n uri cs))"

definition reader :: "string \<Rightarrow> cache_state \<Rightarrow> (nat \<times> string) option" where
  \<comment> \<open>the line found, with the bytes that are sent to the client\<close>
  "reader uri s = map_option (\<lambda>i. (i, payload (cache s ! i))) (find_name (usedcnt s) uri (cache s))"

definition store_at :: "nat \<Rightarrow> string \<Rightarrow> string \<Rightarrow> fault + string" where
  \<comment> \<open>\<open>strcpy (buf + off, t)\<close>\<close>
  "store_at off t buf =
     (if off + length t < length buf then Inr (take off buf @ t @ CHR 0x00 # drop (Suc (off + length t)) buf)
      else Inl OutOfBounds)"

fun oldest :: "nat \<Rightarrow> u64 \<Rightarrow> nat \<Rightarrow> cache_line list \<Rightarrow> nat" where
  \<comment> \<open>the search for the least timestamp: \<open>lru_i\<close>, \<open>lru_t\<close>, and the lines from index \<open>i\<close> on\<close>
  "oldest lru_i lru_t i [] = lru_i"
| "oldest lru_i lru_t i (c # cs) =
     (if timestamp c < lru_t then oldest i (timestamp c) (Suc i) cs else oldest lru_i lru_t (Suc i) cs)"

definition fill_line :: "nat \<Rightarrow> string \<Rightarrow> string \<Rightarrow> cache_state \<Rightarrow> fault + cache_state" where
  "fill_line i uri buf s =
     bindE (store_at 0 (c_string buf) (payload (cache s ! i))) (\<lambda>p.
     Inr (s\<lparr>cache := (cache s)[i := \<lparr>name = uri, payload = p, timestamp = gtime s\<rparr>]\<rparr>))"

definition writer :: "string \<Rightarrow> string \<Rightarrow> nat option \<Rightarrow> cache_state \<Rightarrow> fault + cache_state" where
  \<comment> \<open>\<open>cache_i = None\<close> is the index -1\<close>
  "writer uri buf cache_i s =
     bindE (case cache_i of
         Some i \<Rightarrow> Inr (s\<lparr>cache := (cache s)[i := (cache s ! i)\<lparr>timestamp := gtime s\<rparr>]\<rparr>)
       | None \<Rightarrow>
          if usedcnt s < NUM_CACHE_LINE
          then bindE (fill_line (usedcnt s) uri buf s) (\<lambda>s. Inr (s\<lparr>usedcnt := usedcnt s + 1\<rparr>))
          else fill_line (oldest 0 (timestamp (cache s ! 0)) 1 (tl (cache s))) uri buf s) (\<lambda>s.
     Inr (s\<lparr>gtime := gtime s + 1\<rparr>))"

section \<open>One connection\<close>

function fetch :: "rio_t \<Rightarrow> write_event list \<Rightarrow> string \<Rightarrow> string \<Rightarrow> nat \<Rightarrow> string list \<Rightarrow>
    fault + string \<times> nat \<times> string list" where
  \<comment> \<open>the loop of \<open>doit\<close>: copies the answer to the client and into \<open>object_buf\<close>\<close>
  "fetch rio snk buf object_buf total_size sent =
     bindE (Rio_readlineb rio MAXLINE buf) (\<lambda>(n, buf, rio).
     if n = 0 then Inr (object_buf, total_size, sent)
     else bindE (Rio_writen snk buf) (\<lambda>(ps, snk).
          bindE (store_at total_size (c_string buf) object_buf) (\<lambda>object_buf.
          fetch rio snk buf object_buf (total_size + n) (sent @ ps))))"
  by pat_completeness auto
termination
  by (relation "measure (\<lambda>(rio, snk, buf, ob, total, sent). length ob - total)")
     (auto simp: store_at_def split: if_splits)

declare fetch.simps [simp del]

definition cache_key :: "request_line \<Rightarrow> fault + string" where
  \<comment> \<open>the two \<open>strcpy\<close> into \<open>uri\<close>\<close>
  "cache_key line = copy_to MAXLINE (hostname line @ path line)"

definition doit ::
  "read_event list \<Rightarrow> write_event list \<Rightarrow> attempt list option \<Rightarrow> write_event list \<Rightarrow> read_event list \<Rightarrow> int \<Rightarrow>
   string \<Rightarrow> string \<Rightarrow> cache_state \<Rightarrow> fault + string list \<times> cache_state" where
  \<comment> \<open>client's request and what its socket takes, the server's addresses, what its socket takes and answers
      and what \<open>close\<close> returns for it; the initial bytes of \<open>buf\<close> and \<open>object_buf\<close>. Returns what the client is sent.\<close>
  "doit client csnk addrs ssnk answer cl junk object_junk s =
     bindE (parse_request client) (\<lambda>(line, headers).
     bindE (cache_key line) (\<lambda>uri.
     case reader uri s of
       Some (i, bytes) \<Rightarrow>
         bindE (Rio_writen csnk bytes) (\<lambda>(ps, csnk).
         bindE (writer uri object_junk (Some i) s) (\<lambda>s. Inr (ps, s)))
     | None \<Rightarrow>
         bindE (send_to_server addrs ssnk junk line headers) (\<lambda>req.
         bindE (fetch (rio_readinitb answer) csnk [] object_junk 0 []) (\<lambda>(object_buf, total_size, ps).
         bindE (if total_size < MAX_OBJECT_SIZE then writer uri object_buf None s else Inr s) (\<lambda>s.
         bindE (Close cl) (\<lambda>_. Inr (ps, s)))))))"

section \<open>The semaphores\<close>

text \<open>
  The threads between the start of \<open>reader\<close> and the end of \<open>writer\<close>. A program point
  is named after the call or statement that comes next and carries the local variables of the
  thread that are still used: \<open>uri\<close>, the loop counter or \<open>cache_i\<close>, and \<open>object_buf\<close>.
  The reader's loop is one step per cache line. What the holder of a semaphore does to the
  variables that the semaphore protects (\<open>readcnt\<close> with the test on it, or the cache in
  \<open>writer\<close>) is one step.
\<close>

datatype point =
    R_lock string                      \<comment> \<open>\<open>P (&mutex)\<close> at the start of \<open>reader\<close>\<close>
  | R_count string                     \<comment> \<open>\<open>readcnt++\<close> and the test\<close>
  | R_wait string                      \<comment> \<open>\<open>P (&w)\<close> of the first reader\<close>
  | R_unlock string                    \<comment> \<open>\<open>V (&mutex)\<close>\<close>
  | R_search string nat                \<comment> \<open>the loop over the cache, at this line\<close>
  | R_lock2 string "nat option"        \<comment> \<open>\<open>P (&mutex)\<close>\<close>
  | R_leave string "nat option"        \<comment> \<open>\<open>readcnt--\<close>, and \<open>V (&w)\<close> of the last reader\<close>
  | R_unlock2 string "nat option"      \<comment> \<open>\<open>V (&mutex)\<close>\<close>
  | Fetching string                    \<comment> \<open>in \<open>doit\<close>, after a miss\<close>
  | W_wait string string "nat option"  \<comment> \<open>\<open>P (&w)\<close> of \<open>writer\<close>\<close>
  | W_update string string "nat option" \<comment> \<open>the update of the cache\<close>
  | W_signal                           \<comment> \<open>\<open>V (&w)\<close>\<close>
  | Idle                               \<comment> \<open>before or after\<close>

record threads =
  points :: "point list"
  mutex :: nat
  sem_w :: nat
  readcnt :: nat
  shared :: cache_state

definition at_point :: "nat \<Rightarrow> point \<Rightarrow> threads \<Rightarrow> bool" where
  "at_point i p s \<longleftrightarrow> i < length (points s) \<and> points s ! i = p"

definition goto :: "nat \<Rightarrow> point \<Rightarrow> threads \<Rightarrow> threads" where
  "goto i p s = s\<lparr>points := (points s)[i := p]\<rparr>"

definition search_next :: "string \<Rightarrow> nat \<Rightarrow> cache_state \<Rightarrow> point" where
  \<comment> \<open>one round of the loop in \<open>reader\<close>\<close>
  "search_next uri k c =
     (if k < usedcnt c then if name (cache c ! k) = uri then R_lock2 uri (Some k) else R_search uri (Suc k)
      else R_lock2 uri None)"

inductive thread_step :: "threads \<Rightarrow> threads \<Rightarrow> bool" where
  enter: "at_point i Idle s \<Longrightarrow> thread_step s (goto i (R_lock uri) s)"
| lock: "at_point i (R_lock uri) s \<Longrightarrow> mutex s > 0 \<Longrightarrow>
    thread_step s (goto i (R_count uri) (s\<lparr>mutex := mutex s - 1\<rparr>))"
| count: "at_point i (R_count uri) s \<Longrightarrow>
    thread_step s (goto i (if readcnt s + 1 = 1 then R_wait uri else R_unlock uri)
      (s\<lparr>readcnt := readcnt s + 1\<rparr>))"
| wait_w: "at_point i (R_wait uri) s \<Longrightarrow> sem_w s > 0 \<Longrightarrow>
    thread_step s (goto i (R_unlock uri) (s\<lparr>sem_w := sem_w s - 1\<rparr>))"
| unlock: "at_point i (R_unlock uri) s \<Longrightarrow>
    thread_step s (goto i (R_search uri 0) (s\<lparr>mutex := mutex s + 1\<rparr>))"
| search: "at_point i (R_search uri k) s \<Longrightarrow> thread_step s (goto i (search_next uri k (shared s)) s)"
| lock2: "at_point i (R_lock2 uri ci) s \<Longrightarrow> mutex s > 0 \<Longrightarrow>
    thread_step s (goto i (R_leave uri ci) (s\<lparr>mutex := mutex s - 1\<rparr>))"
| leave: "at_point i (R_leave uri ci) s \<Longrightarrow>
    thread_step s (goto i (R_unlock2 uri ci)
      (s\<lparr>readcnt := readcnt s - 1, sem_w := (if readcnt s - 1 = 0 then sem_w s + 1 else sem_w s)\<rparr>))"
| unlock2: "at_point i (R_unlock2 uri ci) s \<Longrightarrow>
    thread_step s (goto i (if ci = None then Fetching uri else W_wait uri buf ci) (s\<lparr>mutex := mutex s + 1\<rparr>))"
| fetched: \<comment> \<open>\<open>total_size < MAX_OBJECT_SIZE\<close>, so the text in the buffer, which is no longer, is shorter than that\<close>
    "at_point i (Fetching uri) s \<Longrightarrow> length (c_string buf) < MAX_OBJECT_SIZE \<Longrightarrow>
    thread_step s (goto i (W_wait uri buf None) s)"
| too_large: "at_point i (Fetching uri) s \<Longrightarrow> thread_step s (goto i Idle s)"
| wait_writer: "at_point i (W_wait uri buf ci) s \<Longrightarrow> sem_w s > 0 \<Longrightarrow>
    thread_step s (goto i (W_update uri buf ci) (s\<lparr>sem_w := sem_w s - 1\<rparr>))"
| update: "at_point i (W_update uri buf ci) s \<Longrightarrow> writer uri buf ci (shared s) = Inr c \<Longrightarrow>
    thread_step s (goto i W_signal (s\<lparr>shared := c\<rparr>))"
| signal: "at_point i W_signal s \<Longrightarrow> thread_step s (goto i Idle (s\<lparr>sem_w := sem_w s + 1\<rparr>))"

inductive_cases thread_stepE: "thread_step s t"

definition threads_init :: "nat \<Rightarrow> string \<Rightarrow> threads" where
  \<comment> \<open>\<open>n\<close> threads after \<open>initialize_cache\<close>\<close>
  "threads_init n junk = \<lparr>points = replicate n Idle, mutex = 1, sem_w = 1, readcnt = 0,
     shared = initialize_cache junk\<rparr>"

section \<open>All connections at once\<close>

text \<open>
  The whole proxy: \<open>main\<close> accepts one connection after another and gives each a thread, and the threads run at the
  same time. Thread \<open>i\<close> serves connection \<open>i\<close>. What it does before it calls \<open>reader\<close> (parse the request), and
  between a miss and \<open>writer\<close> (send the request, copy the answer), touches no shared variable and is one step;
  in between it takes the steps of \<open>thread_step\<close>. A call that fails ends the whole process: there is no step then.
  What \<open>thread\<close> and \<open>doit\<close> do after \<open>writer\<close>, which is to close descriptors, is left out.
  A connection is given by what the system functions return for it and the scripts of its two sockets.
\<close>

record client =
  cell :: "nat option"     \<comment> \<open>\<open>malloc\<close>\<close>
  accepted :: int
  named :: int             \<comment> \<open>\<open>getnameinfo\<close>\<close>
  created :: int           \<comment> \<open>\<open>pthread_create\<close>\<close>
  detached :: int
  request :: "read_event list"
  takes :: "write_event list"
  addresses :: "attempt list option"
  server_takes :: "write_event list"
  reply :: "read_event list"
  stack :: string          \<comment> \<open>\<open>buf\<close> of \<open>send_to_server\<close> before it is written\<close>
  object_stack :: string   \<comment> \<open>\<open>object_buf\<close> before it is written\<close>

definition request_key :: "client \<Rightarrow> fault + string" where
  \<comment> \<open>\<open>uri\<close> in \<open>doit\<close>\<close>
  "request_key c = bindE (parse_request (request c)) (\<lambda>(line, headers). cache_key line)"

definition fetch_page :: "client \<Rightarrow> fault + string \<times> nat \<times> string list" where
  \<comment> \<open>from \<open>total_size = 0\<close> to the end of the loop\<close>
  "fetch_page c =
     bindE (parse_request (request c)) (\<lambda>(line, headers).
     bindE (send_to_server (addresses c) (server_takes c) (stack c) line headers) (\<lambda>req.
     fetch (rio_readinitb (reply c)) (takes c) [] (object_stack c) 0 []))"

record proxy_state =
  inside :: threads
  arrived :: nat         \<comment> \<open>connections accepted so far\<close>
  parsing :: "nat list"  \<comment> \<open>threads that have not called \<open>reader\<close> yet\<close>

inductive proxy_step :: "client list \<Rightarrow> proxy_state \<Rightarrow> proxy_state \<Rightarrow> bool" for cs where
  accept_one: "arrived s = i \<Longrightarrow> i < length cs \<Longrightarrow> Malloc (cell (cs ! i)) = Inr p \<Longrightarrow>
    Accept (accepted (cs ! i)) = Inr connfd \<Longrightarrow> Getnameinfo (named (cs ! i)) = Inr u \<Longrightarrow>
    Pthread_create (created (cs ! i)) = Inr v \<Longrightarrow>
    proxy_step cs s (s\<lparr>arrived := i + 1, parsing := i # parsing s\<rparr>)"
| look_up: "i \<in> set (parsing s) \<Longrightarrow> at_point i Idle (inside s) \<Longrightarrow> Pthread_detach (detached (cs ! i)) = Inr u \<Longrightarrow>
    request_key (cs ! i) = Inr uri \<Longrightarrow>
    proxy_step cs s (s\<lparr>inside := goto i (R_lock uri) (inside s), parsing := remove1 i (parsing s)\<rparr>)"
| page_fits: "at_point i (Fetching uri) (inside s) \<Longrightarrow> fetch_page (cs ! i) = Inr (object_buf, total_size, sent) \<Longrightarrow>
    total_size < MAX_OBJECT_SIZE \<Longrightarrow>
    proxy_step cs s (s\<lparr>inside := goto i (W_wait uri object_buf None) (inside s)\<rparr>)"
| page_large: "at_point i (Fetching uri) (inside s) \<Longrightarrow> fetch_page (cs ! i) = Inr (object_buf, total_size, sent) \<Longrightarrow>
    \<not> total_size < MAX_OBJECT_SIZE \<Longrightarrow> proxy_step cs s (s\<lparr>inside := goto i Idle (inside s)\<rparr>)"
| protocol: "thread_step (inside s) t \<Longrightarrow>
    \<forall>i p. at_point i p (inside s) \<and> (p = Idle \<or> (\<exists>uri. p = Fetching uri)) \<longrightarrow> at_point i p t \<Longrightarrow>
    proxy_step cs s (s\<lparr>inside := t\<rparr>)"

inductive_cases proxy_stepE: "proxy_step cs s t"

definition main :: "nat \<Rightarrow> attempt list option \<Rightarrow> bool \<Rightarrow> string \<Rightarrow> nat \<Rightarrow> fault + proxy_state" where
  \<comment> \<open>up to the loop; \<open>n\<close> connections will come\<close>
  "main argc addrs listens junk n =
     (if argc \<noteq> 2 then Inl (Exit 1)
      else bindE (Open_listenfd addrs listens) (\<lambda>listenfd.
        Inr \<lparr>inside = threads_init n junk, arrived = 0, parsing = []\<rparr>))"

end
