(* ===== verification/Proxy_Cache.thy ===== *)
theory Proxy_Cache
  imports Proxy
begin

text \<open>
  The cache of lab5/proxy.c as one thread sees it: what the search finds, that \<open>writer\<close> keeps
  the shape of the cache, and that it replaces the line that has gone unused for longest.
\<close>

section \<open>The search\<close>

lemma find_name_eq_Some:
  "n \<le> length cs \<Longrightarrow> find_name n uri cs = Some k \<longleftrightarrow>
     k < n \<and> name (cs ! k) = uri \<and> (\<forall>j<k. name (cs ! j) \<noteq> uri)"
proof (induction n uri cs arbitrary: k rule: find_name.induct)
  case (3 n uri c cs)
  then show ?case by (cases k) (auto simp: less_Suc_eq_0_disj)
qed auto

lemma find_name_eq_None:
  "n \<le> length cs \<Longrightarrow> find_name n uri cs = None \<longleftrightarrow> (\<forall>j<n. name (cs ! j) \<noteq> uri)"
  by (induction n uri cs rule: find_name.induct) (auto simp: less_Suc_eq_0_disj)

section \<open>The shape of the cache\<close>

definition cache_ok :: "cache_state \<Rightarrow> bool" where
  \<comment> \<open>ten lines with buffers of the size they were allocated with\<close>
  "cache_ok c \<longleftrightarrow> length (cache c) = NUM_CACHE_LINE \<and> usedcnt c \<le> NUM_CACHE_LINE \<and>
     (\<forall>l \<in> set (cache c). length (payload l) = MAX_OBJECT_SIZE)"

lemma cache_ok_init: "length junk = MAX_OBJECT_SIZE \<Longrightarrow> cache_ok (initialize_cache junk)"
  by (simp add: cache_ok_def initialize_cache_def)

text \<open>The line that is replaced has the least timestamp.\<close>

lemma oldest_least:
  assumes "b < length xs" and "\<forall>j<length xs. timestamp (xs ! b) \<le> timestamp (xs ! j)"
  shows "let r = oldest b (timestamp (xs ! b)) (length xs) cs in r < length (xs @ cs) \<and>
    (\<forall>j<length (xs @ cs). timestamp ((xs @ cs) ! r) \<le> timestamp ((xs @ cs) ! j))"
  using assms
proof (induction cs arbitrary: b xs)
  case Nil
  then show ?case by simp
next
  case (Cons c cs)
  show ?case
  proof (cases "timestamp c < timestamp (xs ! b)")
    case True
    with Cons.prems have "\<forall>j<length (xs @ [c]). timestamp ((xs @ [c]) ! length xs) \<le> timestamp ((xs @ [c]) ! j)"
      by (fastforce simp: nth_append less_Suc_eq)
    with Cons.IH [of "length xs" "xs @ [c]"] True show ?thesis by simp
  next
    case False
    with Cons.prems have "\<forall>j<length (xs @ [c]). timestamp ((xs @ [c]) ! b) \<le> timestamp ((xs @ [c]) ! j)"
      by (auto simp: nth_append less_Suc_eq not_less)
    with Cons.IH [of b "xs @ [c]"] Cons.prems False show ?thesis by (simp add: nth_append)
  qed
qed

definition lru_line :: "cache_line list \<Rightarrow> nat" where
  "lru_line cs = oldest 0 (timestamp (cs ! 0)) 1 (tl cs)"

lemma lru_line_least:
  assumes "cs \<noteq> []"
  shows "lru_line cs < length cs" "j < length cs \<Longrightarrow> timestamp (cs ! lru_line cs) \<le> timestamp (cs ! j)"
proof -
  obtain c t where "cs = c # t" using assms by (cases cs) auto
  with oldest_least [of 0 "[c]" t]
  show "lru_line cs < length cs" "j < length cs \<Longrightarrow> timestamp (cs ! lru_line cs) \<le> timestamp (cs ! j)"
    by (simp_all add: lru_line_def Let_def)
qed

section \<open>What writer does\<close>

lemma store_at_0:
  assumes "length t < length buf"
  shows "\<exists>p. store_at 0 t buf = Inr p \<and> length p = length buf \<and> (CHR 0x00 \<notin> set t \<longrightarrow> c_string p = t)"
  using assms by (auto simp: store_at_def c_string_def takeWhile_tail)

definition slot :: "nat option \<Rightarrow> cache_state \<Rightarrow> nat" where
  \<comment> \<open>the line that \<open>writer\<close> changes\<close>
  "slot ci s = (case ci of Some i \<Rightarrow> i
     | None \<Rightarrow> if usedcnt s < NUM_CACHE_LINE then usedcnt s else lru_line (cache s))"

definition in_use :: "nat option \<Rightarrow> cache_state \<Rightarrow> nat" where
  \<comment> \<open>how many lines are in use afterwards\<close>
  "in_use ci s = (if ci = None \<and> usedcnt s < NUM_CACHE_LINE then usedcnt s + 1 else usedcnt s)"

lemma slot_bound:
  assumes "cache_ok s" and "case ci of None \<Rightarrow> True | Some i \<Rightarrow> i < usedcnt s"
  shows "slot ci s < length (cache s)" "slot ci s < in_use ci s" "in_use ci s \<le> length (cache s)"
proof -
  have "cache s \<noteq> []" using assms(1) by (auto simp: cache_ok_def NUM_CACHE_LINE_def)
  from lru_line_least(1) [OF this] assms
  show "slot ci s < length (cache s)" "slot ci s < in_use ci s" "in_use ci s \<le> length (cache s)"
    by (auto simp: slot_def in_use_def cache_ok_def split: option.splits)
qed

lemma writer_result:
  assumes "cache_ok s" and "case ci of None \<Rightarrow> length (c_string buf) < MAX_OBJECT_SIZE | Some i \<Rightarrow> i < usedcnt s"
  obtains p where "length p = MAX_OBJECT_SIZE"
    "ci = None \<Longrightarrow> c_string p = c_string buf"
    "ci \<noteq> None \<Longrightarrow> p = payload (cache s ! slot ci s)"
    "writer uri buf ci s = Inr \<lparr>cache = (cache s)[slot ci s :=
        \<lparr>name = (if ci = None then uri else name (cache s ! slot ci s)), payload = p, timestamp = gtime s\<rparr>],
      usedcnt = in_use ci s, gtime = gtime s + 1\<rparr>"
proof (cases ci)
  case None
  have b: "slot None s < length (cache s)" using slot_bound(1) [OF assms(1), of None] by simp
  then have "length (payload (cache s ! slot None s)) = MAX_OBJECT_SIZE"
    using assms(1) by (simp add: cache_ok_def)
  with store_at_0 [of "c_string buf" "payload (cache s ! slot None s)"] assms(2) None
  obtain p where p: "store_at 0 (c_string buf) (payload (cache s ! slot None s)) = Inr p"
      "length p = MAX_OBJECT_SIZE" "c_string p = c_string buf"
    by (auto simp: c_string_def dest: set_takeWhileD)
  show thesis
  proof (rule that [of p])
    show "writer uri buf ci s = Inr \<lparr>cache = (cache s)[slot ci s :=
        \<lparr>name = (if ci = None then uri else name (cache s ! slot ci s)), payload = p, timestamp = gtime s\<rparr>],
      usedcnt = in_use ci s, gtime = gtime s + 1\<rparr>"
      using None p(1) by (auto simp: writer_def fill_line_def in_use_def slot_def lru_line_def)
  qed (use None p in auto)
next
  case (Some i)
  have "slot ci s < length (cache s)" using slot_bound(1) [OF assms(1), of ci] assms(2) Some by simp
  then have "length (payload (cache s ! slot ci s)) = MAX_OBJECT_SIZE"
    using assms(1) by (simp add: cache_ok_def)
  moreover have [simp]: "l\<lparr>timestamp := t\<rparr> = \<lparr>name = name l, payload = payload l, timestamp = t\<rparr>" for l t
    by (cases l) simp
  ultimately show thesis using Some
    by (intro that [of "payload (cache s ! slot ci s)"])
       (auto simp: writer_def slot_def in_use_def list_update_same_conv intro!: cache_state.equality)
qed

lemma writer_cache_ok:
  assumes "cache_ok s" and "case ci of None \<Rightarrow> length (c_string buf) < MAX_OBJECT_SIZE | Some i \<Rightarrow> i < usedcnt s"
  shows "\<exists>t. writer uri buf ci s = Inr t \<and> cache_ok t \<and> usedcnt s \<le> usedcnt t"
proof (rule writer_result [OF assms, of uri])
  fix p assume p: "length p = MAX_OBJECT_SIZE"
    and w: "writer uri buf ci s = Inr \<lparr>cache = (cache s)[slot ci s :=
        \<lparr>name = (if ci = None then uri else name (cache s ! slot ci s)), payload = p, timestamp = gtime s\<rparr>],
      usedcnt = in_use ci s, gtime = gtime s + 1\<rparr>"
  have "case ci of None \<Rightarrow> True | Some i \<Rightarrow> i < usedcnt s" using assms(2) by (auto split: option.splits)
  from slot_bound(3) [OF assms(1) this] p assms(1) show ?thesis
    unfolding w cache_ok_def by (auto simp: in_use_def dest!: set_update_subset_insert [THEN subsetD])
qed

section \<open>Least recently used\<close>

text \<open>
  The abstract cache: the lines in use from the least to the most recently used, and the pages
  they hold. It has no clock.
\<close>

type_synonym lru_state = "nat list \<times> (string \<times> string) list"

fun lru_access :: "nat option \<Rightarrow> string \<Rightarrow> string \<Rightarrow> lru_state \<Rightarrow> lru_state" where
  "lru_access (Some i) uri page (order, pages) = (remove1 i order @ [i], pages)"
| "lru_access None uri page (order, pages) =
     (if length pages < NUM_CACHE_LINE then (order @ [length pages], pages @ [(uri, page)])
      else (tl order @ [hd order], pages[hd order := (uri, page)]))"

definition recency :: "cache_state \<Rightarrow> nat list" where
  "recency s = sort_key (\<lambda>i. timestamp (cache s ! i)) [0..<usedcnt s]"

definition page_at :: "cache_state \<Rightarrow> nat \<Rightarrow> string \<times> string" where
  "page_at s i = (name (cache s ! i), c_string (payload (cache s ! i)))"

definition abs_cache :: "cache_state \<Rightarrow> lru_state" where
  "abs_cache s = (recency s, map (page_at s) [0..<usedcnt s])"

definition clock_ok :: "cache_state \<Rightarrow> bool" where
  \<comment> \<open>the lines in use carry different times, all past\<close>
  "clock_ok s \<longleftrightarrow> inj_on (\<lambda>i. timestamp (cache s ! i)) {0..<usedcnt s} \<and>
     (\<forall>i<usedcnt s. timestamp (cache s ! i) < gtime s)"

lemma sort_key_unique:
  assumes "set xs = set ys" "distinct xs" "distinct ys" "inj_on f (set ys)" "sorted (map f ys)"
  shows "sort_key f xs = ys"
  by (rule map_sorted_distinct_set_unique [of f])
     (use assms in \<open>auto simp: distinct_map\<close>)

lemma inj_on_newest:
  assumes "inj_on ts A" and "\<forall>i \<in> A. ts i < (g :: u64)"
  shows "inj_on (\<lambda>i. if i = k then g else ts i) (insert k A)"
proof (rule inj_onI)
  fix i j
  assume "i \<in> insert k A" "j \<in> insert k A" "(if i = k then g else ts i) = (if j = k then g else ts j)"
  then show "i = j" using assms(2) inj_onD [OF assms(1), of i j]
    by (auto split: if_splits)
qed

lemma recency_append:
  assumes "set base = {0..<n} - {k}" "distinct base" "sorted (map ts base)" "inj_on ts (set base)"
    and "k < n" and "\<forall>i \<in> set base. ts i < (g :: u64)"
  shows "sort_key (\<lambda>i. if i = k then g else ts i) [0..<n] = base @ [k]"
proof (rule sort_key_unique)
  have m: "map (\<lambda>i. if i = k then g else ts i) base = map ts base"
    using assms(1) by auto
  show "sorted (map (\<lambda>i. if i = k then g else ts i) (base @ [k]))"
    using assms(3,6) unfolding map_append m by (auto simp: sorted_append less_imp_le)
  show "inj_on (\<lambda>i. if i = k then g else ts i) (set (base @ [k]))"
    using inj_on_newest [OF assms(4,6), of k] by simp
  show "set [0..<n] = set (base @ [k])" using assms(5) by (auto simp: assms(1))
  show "distinct [0..<n]" by simp
  show "distinct (base @ [k])" using assms(2) by (simp add: assms(1))
qed

lemma lru_line_hd:
  assumes "cs \<noteq> []" and "inj_on (\<lambda>i. timestamp (cs ! i)) {0..<length cs}"
  shows "hd (sort_key (\<lambda>i. timestamp (cs ! i)) [0..<length cs]) = lru_line cs"
proof -
  let ?o = "sort_key (\<lambda>i. timestamp (cs ! i)) [0..<length cs]"
  obtain h r where o: "?o = h # r"
    using assms(1) by (cases ?o) (metis length_0_conv length_sort length_upt minus_nat.diff_0, blast)
  then have "set ?o = set (h # r)" by simp
  then have set: "insert h (set r) = {0..<length cs}" by simp
  have "sorted (map (\<lambda>i. timestamp (cs ! i)) ?o)" by (rule sorted_sort_key)
  then have least: "\<forall>j<length cs. timestamp (cs ! h) \<le> timestamp (cs ! j)"
    using set unfolding o by (force simp: set_eq_iff)
  have "lru_line cs < length cs" "h < length cs" using lru_line_least(1) [OF assms(1)] set by auto
  with least lru_line_least(2) [OF assms(1), of h] have "timestamp (cs ! h) = timestamp (cs ! lru_line cs)"
    by (auto intro: antisym)
  with \<open>h < length cs\<close> \<open>lru_line cs < length cs\<close> have "h = lru_line cs"
    using inj_onD [OF assms(2)] by simp
  then show ?thesis by (simp add: o)
qed

definition others :: "nat option \<Rightarrow> cache_state \<Rightarrow> nat list" where
  \<comment> \<open>the recency list without the line that \<open>writer\<close> changes\<close>
  "others ci s = (if ci = None \<and> \<not> usedcnt s < NUM_CACHE_LINE then tl (recency s)
     else remove1 (slot ci s) (recency s))"

lemma recency_facts [simp]:
  "set (recency s) = {0..<usedcnt s}" "distinct (recency s)" "length (recency s) = usedcnt s"
  "sorted (map (\<lambda>i. timestamp (cache s ! i)) (recency s))"
  by (simp_all add: recency_def)

lemma slot_full:
  assumes "cache_ok s" "clock_ok s" "\<not> usedcnt s < NUM_CACHE_LINE"
  shows "recency s = slot None s # tl (recency s)"
proof -
  have u: "usedcnt s = length (cache s)" "cache s \<noteq> []"
    using assms(1,3) by (auto simp: cache_ok_def NUM_CACHE_LINE_def)
  from lru_line_hd [OF u(2)] assms(2,3) have "hd (recency s) = slot None s"
    by (simp add: clock_ok_def recency_def slot_def u(1))
  moreover have "recency s \<noteq> []" using u recency_facts(3) [of s] by (metis length_0_conv)
  ultimately show ?thesis by (metis list.collapse)
qed

lemma others_facts:
  assumes "cache_ok s" "clock_ok s" "case ci of None \<Rightarrow> True | Some i \<Rightarrow> i < usedcnt s"
  shows "set (others ci s) = {0..<in_use ci s} - {slot ci s}" "distinct (others ci s)"
    "sorted (map (\<lambda>i. timestamp (cache s ! i)) (others ci s))"
proof -
  let ?ts = "\<lambda>i. timestamp (cache s ! i)"
  have "set (others ci s) = {0..<in_use ci s} - {slot ci s} \<and> distinct (others ci s) \<and>
    sorted (map ?ts (others ci s))"
  proof (cases "ci = None \<and> \<not> usedcnt s < NUM_CACHE_LINE")
    case True
    obtain k r where r: "recency s = k # r" "k = slot None s"
      using slot_full [OF assms(1,2)] True by metis
    then show ?thesis using recency_facts [of s] True
      by (auto simp: others_def in_use_def)
  next
    case False
    then have "others ci s = remove1 (slot ci s) (recency s)" by (auto simp: others_def)
    moreover have "{0..<usedcnt s} - {slot ci s} = {0..<in_use ci s} - {slot ci s}"
      using False by (auto simp: in_use_def slot_def)
    ultimately show ?thesis by (simp add: sorted_map_remove1)
  qed
  then show "set (others ci s) = {0..<in_use ci s} - {slot ci s}" "distinct (others ci s)"
    "sorted (map ?ts (others ci s))" by blast+
qed

lemma lru_access_abs:
  assumes "cache_ok s" "clock_ok s" "case ci of None \<Rightarrow> True | Some i \<Rightarrow> i < usedcnt s"
  shows "lru_access ci uri page (abs_cache s) = (others ci s @ [slot ci s],
      map (\<lambda>i. if i = slot ci s \<and> ci = None then (uri, page) else page_at s i) [0..<in_use ci s])"
proof (cases ci)
  case (Some i)
  then show ?thesis by (simp add: abs_cache_def others_def slot_def in_use_def)
next
  case None
  show ?thesis
  proof (cases "usedcnt s < NUM_CACHE_LINE")
    case True
    then show ?thesis using None
      by (simp add: abs_cache_def others_def slot_def in_use_def remove1_idem)
  next
    case False
    obtain k r where r: "recency s = k # r" "k = slot None s"
      using slot_full [OF assms(1,2) False] by metis
    have "k < usedcnt s" using recency_facts(1) [of s] r(1) by auto
    then have "(map (page_at s) [0..<usedcnt s])[k := (uri, page)] =
        map (\<lambda>i. if i = k then (uri, page) else page_at s i) [0..<usedcnt s]"
      by (intro nth_equalityI) (auto simp: nth_list_update)
    then show ?thesis using None False r by (simp add: abs_cache_def others_def in_use_def)
  qed
qed

lemma writer_refines:
  assumes "cache_ok s" and "clock_ok s" and "gtime s < gtime s + 1"
    and pre: "case ci of None \<Rightarrow> length (c_string buf) < MAX_OBJECT_SIZE | Some i \<Rightarrow> i < usedcnt s"
  shows "\<exists>t. writer uri buf ci s = Inr t \<and> cache_ok t \<and> clock_ok t \<and> gtime t = gtime s + 1 \<and>
     abs_cache t = lru_access ci uri (c_string buf) (abs_cache s)"
proof (rule writer_result [OF assms(1) pre, of uri])
  fix p
  let ?k = "slot ci s" and ?n = "in_use ci s" and ?ts = "\<lambda>i. timestamp (cache s ! i)"
  assume p: "ci = None \<Longrightarrow> c_string p = c_string buf" "ci \<noteq> None \<Longrightarrow> p = payload (cache s ! ?k)"
    and w: "writer uri buf ci s = Inr \<lparr>cache = (cache s)[?k :=
        \<lparr>name = (if ci = None then uri else name (cache s ! ?k)), payload = p, timestamp = gtime s\<rparr>],
      usedcnt = ?n, gtime = gtime s + 1\<rparr>" (is "_ = Inr ?t")
  have pre': "case ci of None \<Rightarrow> True | Some i \<Rightarrow> i < usedcnt s" using pre by (auto split: option.splits)
  note b = slot_bound [OF assms(1) pre'] and o = others_facts [OF assms(1,2) pre']
  have line: "timestamp (cache ?t ! i) = (if i = ?k then gtime s else ?ts i)"
      "page_at ?t i = (if i = ?k \<and> ci = None then (uri, c_string buf) else page_at s i)" for i
    using b(1) p by (auto simp: nth_list_update page_at_def)
  have old: "i < usedcnt s" if "i \<in> set (others ci s)" for i
    using that o(1) by (auto simp: in_use_def slot_def split: if_splits)
  then have sub: "inj_on ?ts (set (others ci s))" "\<forall>i \<in> set (others ci s). ?ts i < gtime s"
    using assms(2) by (auto simp: clock_ok_def intro: inj_on_subset)
  have r: "recency ?t = others ci s @ [?k]"
    using recency_append [OF o sub(1) b(2) sub(2)] by (simp only: recency_def line) simp
  obtain t where "writer uri buf ci s = Inr t" "cache_ok t" using writer_cache_ok [OF assms(1) pre] by blast
  with w have "cache_ok ?t" by simp
  moreover have "clock_ok ?t"
  proof -
    have "{0..<?n} = insert ?k (set (others ci s))" unfolding o(1) using b(2) by auto
    with inj_on_newest [OF sub, of ?k] have "inj_on (\<lambda>i. timestamp (cache ?t ! i)) {0..<?n}"
      unfolding line by simp
    moreover have "timestamp (cache ?t ! i) < gtime s + 1" if "i < ?n" for i
    proof (cases "i = ?k")
      case True
      then show ?thesis using assms(3) unfolding line by simp
    next
      case False
      then have "?ts i < gtime s" using that sub(2) o(1) by simp
      then show ?thesis using False less_trans [OF _ assms(3)] unfolding line by simp
    qed
    ultimately show ?thesis by (simp add: clock_ok_def)
  qed
  moreover have "abs_cache ?t = lru_access ci uri (c_string buf) (abs_cache s)"
    unfolding lru_access_abs [OF assms(1,2) pre'] by (simp add: abs_cache_def [of ?t] r line)
  ultimately show ?thesis using w by simp
qed

fun lru_valid :: "(nat option \<times> string \<times> string) list \<Rightarrow> lru_state \<Rightarrow> bool" where
  \<comment> \<open>pages fit into a line, and the index is one that a search has returned\<close>
  "lru_valid [] st = True"
| "lru_valid ((ci, uri, buf) # ops) st =
     ((case ci of None \<Rightarrow> length (c_string buf) < MAX_OBJECT_SIZE | Some i \<Rightarrow> i < length (snd st)) \<and>
      lru_valid ops (lru_access ci uri (c_string buf) st))"

definition lru_run :: "(nat option \<times> string \<times> string) list \<Rightarrow> lru_state \<Rightarrow> lru_state" where
  "lru_run ops st = fold (\<lambda>(ci, uri, buf). lru_access ci uri (c_string buf)) ops st"

lemma writer_run_refines:
  assumes "cache_ok s" "clock_ok s" "unat (gtime s) + length ops < 2 ^ 64" "lru_valid ops (abs_cache s)"
  shows "\<exists>t. foldE (\<lambda>(ci, uri, buf). writer uri buf ci) ops s = Inr t \<and> cache_ok t \<and>
     abs_cache t = lru_run ops (abs_cache s)"
  using assms
proof (induction ops arbitrary: s)
  case Nil
  then show ?case by (simp add: lru_run_def)
next
  case (Cons op ops)
  obtain ci uri buf where op: "op = (ci, uri, buf)" by (cases op)
  have pre: "case ci of None \<Rightarrow> length (c_string buf) < MAX_OBJECT_SIZE | Some i \<Rightarrow> i < usedcnt s"
    using Cons.prems(4) by (simp add: op abs_cache_def split: option.splits)
  have g: "unat (gtime s + 1) = unat (gtime s) + 1"
    using Cons.prems(3) by (simp add: unat_word_ariths)
  then have "gtime s < gtime s + 1" by (simp add: word_less_nat_alt)
  from writer_refines [OF Cons.prems(1,2) this pre, of uri] obtain t where
    t: "writer uri buf ci s = Inr t" "cache_ok t" "clock_ok t" "gtime t = gtime s + 1"
      "abs_cache t = lru_access ci uri (c_string buf) (abs_cache s)" by blast
  have "\<exists>u. foldE (\<lambda>(ci, uri, buf). writer uri buf ci) ops t = Inr u \<and> cache_ok u \<and>
     abs_cache u = lru_run ops (abs_cache t)"
    by (rule Cons.IH [OF t(2,3)]) (use Cons.prems t g in \<open>simp_all add: op\<close>)
  then show ?case by (simp add: op t(1,5) lru_run_def)
qed

section \<open>Property\<close>

text \<open>
  C13: from the empty cache, any sequence of fewer than \<open>2 ^ 64\<close> calls of \<open>writer\<close> succeeds and
  leaves the pages that a least-recently-used cache of ten pages without a clock holds, in the
  lines and in the order of recency of that cache: the timestamps implement the recency list.
\<close>
theorem cache_lru:
  assumes "length junk = MAX_OBJECT_SIZE" and "length ops < 2 ^ 64" and "lru_valid ops ([], [])"
  shows "\<exists>t. foldE (\<lambda>(ci, uri, buf). writer uri buf ci) ops (initialize_cache junk) = Inr t \<and>
     cache_ok t \<and> abs_cache t = lru_run ops ([], [])"
proof -
  have "abs_cache (initialize_cache junk) = ([], [])" "clock_ok (initialize_cache junk)"
    by (simp_all add: abs_cache_def recency_def initialize_cache_def clock_ok_def)
  with writer_run_refines [OF cache_ok_init [OF assms(1)]] assms(2,3) show ?thesis
    by (simp add: initialize_cache_def)
qed

theorem cache_lru_witness:
  "\<exists>t. foldE (\<lambda>(ci, uri, buf). writer uri buf ci)
     [(None, ''a'', ''x''), (None, ''b'', ''y''), (Some 0, ''a'', [])]
     (initialize_cache (replicate MAX_OBJECT_SIZE (CHR ''?''))) = Inr t \<and>
     cache_ok t \<and> abs_cache t = ([1, 0], [(''a'', ''x''), (''b'', ''y'')])"
  using cache_lru [of "replicate MAX_OBJECT_SIZE (CHR ''?'')"
      "[(None, ''a'', ''x''), (None, ''b'', ''y''), (Some 0, ''a'', [])]"]
  by (simp add: lru_run_def NUM_CACHE_LINE_def MAX_OBJECT_SIZE_def c_string_def)

end
