(* ===== verification/Proxy_Threads.thy ===== *)
theory Proxy_Threads
  imports Proxy_Cache
begin

text \<open>
  The semaphore protocol of lab5/proxy.c over all interleavings: readers exclude writers,
  writers exclude each other, the counters agree with the program points, and the search of a
  reader, which takes one step per cache line, finds what one atomic search would find.
\<close>

section \<open>Counting threads\<close>

definition cnt :: "(point \<Rightarrow> bool) \<Rightarrow> threads \<Rightarrow> nat" where
  "cnt P s = length (filter P (points s))"

fun in_count :: "point \<Rightarrow> bool" where
  "in_count (R_count uri) = True" | "in_count p = False"

fun in_wait :: "point \<Rightarrow> bool" where
  "in_wait (R_wait uri) = True" | "in_wait p = False"

fun in_unlock :: "point \<Rightarrow> bool" where
  "in_unlock (R_unlock uri) = True" | "in_unlock p = False"

fun in_search :: "point \<Rightarrow> bool" where
  "in_search (R_search uri k) = True" | "in_search (R_lock2 uri ci) = True" | "in_search p = False"

fun in_leave :: "point \<Rightarrow> bool" where
  "in_leave (R_leave uri ci) = True" | "in_leave p = False"

fun in_unlock2 :: "point \<Rightarrow> bool" where
  "in_unlock2 (R_unlock2 uri ci) = True" | "in_unlock2 p = False"

fun in_writer :: "point \<Rightarrow> bool" where
  "in_writer (W_update uri buf ci) = True" | "in_writer W_signal = True" | "in_writer p = False"

lemma cnt_goto:
  assumes "at_point i p s" and "points t = points s"
  shows "cnt P (goto i q t) + of_bool (P p) = cnt P s + of_bool (P q)"
  using assms length_filter_update [of i "points s" P q]
  by (auto simp: cnt_def goto_def at_point_def of_bool_def)

lemma cnt_pos: "at_point i p s \<Longrightarrow> P p \<Longrightarrow> cnt P s > 0"
  by (auto simp: cnt_def at_point_def filter_empty_conv dest: nth_mem)

lemma goto_simps [simp]:
  "mutex (goto i p s) = mutex s" "sem_w (goto i p s) = sem_w s" "readcnt (goto i p s) = readcnt s"
  "shared (goto i p s) = shared s" "length (points (goto i p s)) = length (points s)"
  by (simp_all add: goto_def)

section \<open>The counting invariant\<close>

definition balanced :: "nat \<Rightarrow> nat \<Rightarrow> nat \<Rightarrow> nat \<Rightarrow> nat \<Rightarrow> nat \<Rightarrow> nat \<Rightarrow> nat \<Rightarrow> nat \<Rightarrow> nat \<Rightarrow> bool" where
  \<comment> \<open>\<open>mutex\<close>, \<open>readcnt\<close>, \<open>w\<close>, and how many threads are at each kind of point\<close>
  "balanced m r w c wt u se l u2 wr \<longleftrightarrow>
     m + c + wt + u + l + u2 = 1 \<and> r = wt + u + se + l \<and>
     w + wr + (if u + se + l > 0 then 1 else 0) = 1 \<and> (wt = 0 \<or> u + se + l = 0)"

definition counts_ok :: "threads \<Rightarrow> bool" where
  "counts_ok s \<longleftrightarrow> balanced (mutex s) (readcnt s) (sem_w s) (cnt in_count s) (cnt in_wait s)
     (cnt in_unlock s) (cnt in_search s) (cnt in_leave s) (cnt in_unlock2 s) (cnt in_writer s)"

lemma counts_ok_goto:
  assumes "at_point i p s" and "points t = points s"
    and "\<And>c wt u se l u2 wr.
      \<lbrakk>c + of_bool (in_count p) = cnt in_count s + of_bool (in_count q);
       wt + of_bool (in_wait p) = cnt in_wait s + of_bool (in_wait q);
       u + of_bool (in_unlock p) = cnt in_unlock s + of_bool (in_unlock q);
       se + of_bool (in_search p) = cnt in_search s + of_bool (in_search q);
       l + of_bool (in_leave p) = cnt in_leave s + of_bool (in_leave q);
       u2 + of_bool (in_unlock2 p) = cnt in_unlock2 s + of_bool (in_unlock2 q);
       wr + of_bool (in_writer p) = cnt in_writer s + of_bool (in_writer q)\<rbrakk> \<Longrightarrow>
      balanced (mutex t) (readcnt t) (sem_w t) c wt u se l u2 wr"
  shows "counts_ok (goto i q t)"
  unfolding counts_ok_def goto_simps by (rule assms(3)) (rule cnt_goto [OF assms(1,2)])+

lemma in_search_next [simp]:
  "in_search (search_next uri k c)" "\<not> in_count (search_next uri k c)" "\<not> in_wait (search_next uri k c)"
  "\<not> in_unlock (search_next uri k c)" "\<not> in_leave (search_next uri k c)"
  "\<not> in_unlock2 (search_next uri k c)" "\<not> in_writer (search_next uri k c)"
  by (simp_all add: search_next_def)

lemma counts_ok_step:
  assumes "thread_step s t" and "counts_ok s"
  shows "counts_ok t"
proof -
  from assms(2) have b: "balanced (mutex s) (readcnt s) (sem_w s) (cnt in_count s) (cnt in_wait s)
     (cnt in_unlock s) (cnt in_search s) (cnt in_leave s) (cnt in_unlock2 s) (cnt in_writer s)"
    by (simp add: counts_ok_def)
  from assms(1) show ?thesis
    by cases (hypsubst, erule counts_ok_goto, (simp)[1], (insert b)[1],
        (auto simp: balanced_def of_bool_def split: if_splits)[1])+
qed

section \<open>The search of a reader\<close>

fun point_ok :: "cache_state \<Rightarrow> point \<Rightarrow> bool" where
  \<comment> \<open>what the locals of a thread say about the cache\<close>
  "point_ok c (R_search uri k) = (k \<le> usedcnt c \<and> (\<forall>j<k. name (cache c ! j) \<noteq> uri))"
| "point_ok c (R_lock2 uri ci) = (ci = map_option fst (reader uri c))"
| "point_ok c (R_leave uri ci) = (ci = map_option fst (reader uri c))"
| "point_ok c (R_unlock2 uri ci) = (case ci of None \<Rightarrow> True | Some k \<Rightarrow> k < usedcnt c)"
| "point_ok c (W_wait uri buf ci) =
     (case ci of None \<Rightarrow> length (c_string buf) < MAX_OBJECT_SIZE | Some k \<Rightarrow> k < usedcnt c)"
| "point_ok c (W_update uri buf ci) =
     (case ci of None \<Rightarrow> length (c_string buf) < MAX_OBJECT_SIZE | Some k \<Rightarrow> k < usedcnt c)"
| "point_ok c p = True"

definition threads_ok :: "threads \<Rightarrow> bool" where
  "threads_ok s \<longleftrightarrow> counts_ok s \<and> cache_ok (shared s) \<and> (\<forall>p \<in> set (points s). point_ok (shared s) p)"

lemma fst_reader: "map_option fst (reader uri c) = find_name (usedcnt c) uri (cache c)"
  by (simp add: reader_def option.map_comp comp_def option.map_ident)

lemma search_next_ok:
  assumes "cache_ok c" and "point_ok c (R_search uri k)"
  shows "point_ok c (search_next uri k c)"
proof -
  have u: "usedcnt c \<le> length (cache c)" using assms(1) by (simp add: cache_ok_def)
  from assms(2) show ?thesis
    using find_name_eq_Some [OF u, of uri k] find_name_eq_None [OF u, of uri]
    by (auto simp: search_next_def fst_reader less_Suc_eq)
qed

lemma found_in_use:
  assumes "cache_ok c" and "point_ok c (R_leave uri ci)"
  shows "point_ok c (R_unlock2 uri ci)"
proof -
  have u: "usedcnt c \<le> length (cache c)" using assms(1) by (simp add: cache_ok_def)
  from assms(2) find_name_eq_Some [OF u, of uri] show ?thesis
    by (auto simp: fst_reader split: option.splits dest: sym)
qed

lemma points_goto:
  assumes "points t = points s" and "\<forall>p \<in> set (points s). point_ok c p" and "point_ok c q"
  shows "\<forall>p \<in> set (points (goto i q t)). point_ok c p"
  using all_set_update [OF assms(2,3)] assms(1) by (simp add: goto_def)

lemma points_move:
  assumes "points t = points s" "shared t = shared s"
    and "cache_ok (shared s)" "\<forall>p \<in> set (points s). point_ok (shared s) p" "point_ok (shared s) q"
  shows "cache_ok (shared (goto i q t)) \<and>
    (\<forall>p \<in> set (points (goto i q t)). point_ok (shared (goto i q t)) p)"
  using points_goto [OF assms(1,4,5)] assms(2,3) by simp

lemma at_point_ok: "at_point i p s \<Longrightarrow> \<forall>p \<in> set (points s). point_ok c p \<Longrightarrow> point_ok c p"
  by (auto simp: at_point_def)

text \<open>A thread inside \<open>writer\<close> is alone: no thread is searching.\<close>

lemma writer_alone:
  assumes "counts_ok s" and "at_point i p s" and "in_writer p" and "q \<in> set (points s)"
  shows "\<not> in_search q \<and> \<not> in_leave q \<and> \<not> in_unlock q"
proof -
  have "cnt in_writer s > 0" using assms(2,3) by (rule cnt_pos)
  with assms(1) have "cnt in_unlock s = 0" "cnt in_search s = 0" "cnt in_leave s = 0"
    by (auto simp: counts_ok_def balanced_def split: if_splits)
  with assms(4) show ?thesis by (auto simp: cnt_def filter_empty_conv)
qed

lemma point_ok_grows:
  "point_ok c p \<Longrightarrow> \<not> in_search p \<Longrightarrow> \<not> in_leave p \<Longrightarrow> usedcnt c \<le> usedcnt d \<Longrightarrow> point_ok d p"
  by (cases p) (auto split: option.splits)

lemma threads_ok_step:
  assumes "thread_step s t" and "threads_ok s"
  shows "threads_ok t"
proof -
  from assms(2) have c: "counts_ok s" "cache_ok (shared s)" "\<forall>p \<in> set (points s). point_ok (shared s) p"
    by (simp_all add: threads_ok_def)
  have "cache_ok (shared t) \<and> (\<forall>p \<in> set (points t). point_ok (shared t) p)"
    using assms(1)
  proof cases
    case (search i uri k)
    from search_next_ok [OF c(2) at_point_ok [OF search(2) c(3)]]
    show ?thesis unfolding search(1) by (rule points_move [OF refl refl c(2,3)])
  next
    case (lock2 i uri ci)
    have "point_ok (shared s) (R_leave uri ci)" using at_point_ok [OF lock2(2) c(3)] by simp
    then show ?thesis unfolding lock2(1) by (rule points_move [OF _ _ c(2,3), rotated 2]) simp_all
  next
    case (leave i uri ci)
    from found_in_use [OF c(2) at_point_ok [OF leave(2) c(3)]]
    show ?thesis unfolding leave(1) by (rule points_move [OF _ _ c(2,3), rotated 2]) simp_all
  next
    case (unlock2 i uri ci buf)
    have "point_ok (shared s) (if ci = None then Fetching uri else W_wait uri buf ci)"
      using at_point_ok [OF unlock2(2) c(3)] by (cases ci) simp_all
    then show ?thesis unfolding unlock2(1) by (rule points_move [OF _ _ c(2,3), rotated 2]) simp_all
  next
    case (wait_writer i uri buf ci)
    have "point_ok (shared s) (W_update uri buf ci)" using at_point_ok [OF wait_writer(2) c(3)] by simp
    then show ?thesis unfolding wait_writer(1) by (rule points_move [OF _ _ c(2,3), rotated 2]) simp_all
  next
    case (update i uri buf ci d)
    have d: "cache_ok d" "usedcnt (shared s) \<le> usedcnt d"
      using writer_cache_ok [OF c(2), where ci = ci and buf = buf and uri = uri] at_point_ok [OF update(2) c(3)] update(3) by auto
    have "\<forall>p \<in> set (points s). point_ok d p"
    proof
      fix p assume p: "p \<in> set (points s)"
      have "point_ok (shared s) p" using c(3) p by blast
      from point_ok_grows [OF this _ _ d(2)] writer_alone [OF c(1) update(2) _ p]
      show "point_ok d p" by simp
    qed
    then have "\<forall>p \<in> set (points (goto i W_signal (s\<lparr>shared := d\<rparr>))). point_ok d p"
      by (intro points_goto [of _ s]) simp_all
    then show ?thesis unfolding update(1) using d(1) by simp
  qed (hypsubst, rule points_move [OF _ _ c(2,3)], (simp; fail), (simp; fail), (simp; fail))+
  with counts_ok_step [OF assms(1) c(1)] show ?thesis by (simp add: threads_ok_def)
qed

interpretation pool: step_system "\<lambda>s. \<exists>n junk. length junk = MAX_OBJECT_SIZE \<and> s = threads_init n junk"
  thread_step threads_ok
proof unfold_locales
  fix s assume "\<exists>n junk. length junk = MAX_OBJECT_SIZE \<and> s = threads_init n junk"
  then obtain n junk where s: "length junk = MAX_OBJECT_SIZE" "s = threads_init n junk" by blast
  then show "threads_ok s" using cache_ok_init [OF s(1)]
    by (auto simp: threads_ok_def threads_init_def counts_ok_def balanced_def cnt_def filter_replicate)
qed (rule threads_ok_step)

lemma reachable_ok:
  "length junk = MAX_OBJECT_SIZE \<Longrightarrow> thread_step\<^sup>*\<^sup>* (threads_init n junk) s \<Longrightarrow> threads_ok s"
  by (rule pool.inv_reachable) blast+

lemma at_point_unique:
  assumes "cnt P s \<le> 1" "at_point i p s" "P p" "at_point j q s" "P q"
  shows "i = j"
proof (rule ccontr)
  assume "i \<noteq> j"
  let ?f = "filter (\<lambda>i. P (points s ! i)) [0..<length (points s)]"
  have "{i, j} \<subseteq> set ?f" using assms(2-5) by (auto simp: at_point_def)
  then have "card {i, j} \<le> length ?f" by (meson List.finite_set card_length card_mono le_trans)
  then show False using assms(1) \<open>i \<noteq> j\<close> length_filter_nth [of P "points s"] by (simp add: cnt_def)
qed

section \<open>Which threads can move\<close>

fun enabled :: "threads \<Rightarrow> point \<Rightarrow> bool" where
  "enabled s (R_lock uri) = (mutex s > 0)"
| "enabled s (R_lock2 uri ci) = (mutex s > 0)"
| "enabled s (R_wait uri) = (sem_w s > 0)"
| "enabled s (W_wait uri buf ci) = (sem_w s > 0)"
| "enabled s Idle = False"
| "enabled s p = True"

lemma at_point_goto: "at_point j q s \<Longrightarrow> points t = points s \<Longrightarrow> at_point j q' (goto j q' t)"
  by (simp add: at_point_def goto_def)

lemma search_next_moves: "search_next uri k c \<noteq> R_search uri k"
  by (simp add: search_next_def)

lemma enabled_moves:
  assumes "threads_ok s" and at: "at_point j q s" and "enabled s q"
  shows "\<exists>q' t. thread_step s t \<and> at_point j q' t \<and> q \<noteq> q'"
proof -
  have move: ?thesis if "thread_step s (goto j q' t)" "points t = points s" "q \<noteq> q'" for q' t
    using that at_point_goto [OF at that(2)] by blast
  from assms(1) have ok: "cache_ok (shared s)" "point_ok (shared s) q"
    using at_point_ok [OF at] by (simp_all add: threads_ok_def)
  show ?thesis
  proof (cases q)
    case (R_search uri k)
    from move [OF search [OF at [unfolded R_search]]] search_next_moves [of uri k "shared s"]
    show ?thesis by (simp add: R_search)
  next
    case (W_update uri buf ci)
    then obtain d where "writer uri buf ci (shared s) = Inr d"
      using writer_cache_ok [OF ok(1), where ci = ci and buf = buf and uri = uri] ok(2) by auto
    from move [OF update [OF at [unfolded W_update] this]] show ?thesis by (simp add: W_update)
  next
    case (Fetching uri)
    from move [OF too_large [OF at [unfolded Fetching]]] show ?thesis by (simp add: Fetching)
  next
    case (R_lock uri)
    from move [OF lock [OF at [unfolded R_lock]]] show ?thesis using assms(3) by (simp add: R_lock)
  next
    case (R_count uri)
    from move [OF count [OF at [unfolded R_count]]] show ?thesis by (simp add: R_count)
  next
    case (R_wait uri)
    from move [OF wait_w [OF at [unfolded R_wait]]] show ?thesis using assms(3) by (simp add: R_wait)
  next
    case (R_unlock uri)
    from move [OF unlock [OF at [unfolded R_unlock]]] show ?thesis by (simp add: R_unlock)
  next
    case (R_lock2 uri ci)
    from move [OF lock2 [OF at [unfolded R_lock2]]] show ?thesis using assms(3) by (simp add: R_lock2)
  next
    case (R_leave uri ci)
    from move [OF leave [OF at [unfolded R_leave]]] show ?thesis by (simp add: R_leave)
  next
    case (R_unlock2 uri ci)
    from move [OF unlock2 [OF at [unfolded R_unlock2], of "[]"]] show ?thesis by (simp add: R_unlock2)
  next
    case (W_wait uri buf ci)
    from move [OF wait_writer [OF at [unfolded W_wait]]] show ?thesis using assms(3) by (simp add: W_wait)
  next
    case W_signal
    from move [OF signal [OF at [unfolded W_signal]]] show ?thesis by (simp add: W_signal)
  next
    case Idle
    then show ?thesis using assms(3) by simp
  qed
qed

lemma cnt_none: "(\<And>q. P q \<Longrightarrow> q \<notin> set (points s)) \<Longrightarrow> cnt P s = 0"
  by (auto simp: cnt_def filter_empty_conv)

lemma some_enabled:
  assumes "counts_ok s" and "p \<in> set (points s)" and "p \<noteq> Idle"
  shows "\<exists>q \<in> set (points s). enabled s q"
proof (rule ccontr)
  assume "\<not> ?thesis"
  then have stuck: "\<And>q. enabled s q \<Longrightarrow> q \<notin> set (points s)" by blast
  have none: "cnt P s = 0" if "\<And>q. P q \<Longrightarrow> enabled s q" for P
    by (rule cnt_none) (use that stuck in blast)
  have e: "in_count q \<Longrightarrow> enabled s q" "in_unlock q \<Longrightarrow> enabled s q" "in_leave q \<Longrightarrow> enabled s q"
      "in_unlock2 q \<Longrightarrow> enabled s q" "in_writer q \<Longrightarrow> enabled s q"
      "sem_w s > 0 \<Longrightarrow> in_wait q \<Longrightarrow> enabled s q" "mutex s > 0 \<Longrightarrow> in_search q \<Longrightarrow> enabled s q" for q
    by (cases q; simp)+
  have z: "cnt in_count s = 0" "cnt in_unlock s = 0" "cnt in_leave s = 0" "cnt in_unlock2 s = 0" "cnt in_writer s = 0"
    using none e by blast+
  from assms(1) z have c: "mutex s + cnt in_wait s = 1" "sem_w s + (if cnt in_search s > 0 then 1 else 0) = 1"
      "cnt in_wait s = 0 \<or> cnt in_search s = 0"
    by (simp_all add: counts_ok_def balanced_def)
  then have "cnt in_wait s = 0" using none [of in_wait] e(6) by (cases "cnt in_search s = 0") auto
  with c have m: "mutex s > 0" by simp
  then have "cnt in_search s = 0" using none [of in_search] e(7) by blast
  with c have w: "sem_w s > 0" by simp
  from assms(3) m w have "enabled s p" by (cases p) auto
  with stuck assms(2) show False by blast
qed

section \<open>Properties\<close>

text \<open>
  C14: in every reachable state of the threads, while one thread is inside the critical section of
  \<open>writer\<close> no other thread is, and no thread is inside \<open>reader\<close> between taking and giving back
  \<open>w\<close>: the cache is never read while it changes.
\<close>
theorem readers_writers_exclusive:
  assumes "length junk = MAX_OBJECT_SIZE" and "thread_step\<^sup>*\<^sup>* (threads_init n junk) s"
    and "at_point i p s" and "in_writer p" and "at_point j q s"
    and "in_writer q \<or> in_unlock q \<or> in_search q \<or> in_leave q"
  shows "i = j"
proof -
  have c: "counts_ok s" using reachable_ok [OF assms(1,2)] by (simp add: threads_ok_def)
  have "in_writer q" using writer_alone [OF c assms(3,4), of q] assms(5,6) by (auto simp: at_point_def)
  moreover have "cnt in_writer s \<le> 1" using c by (simp add: counts_ok_def balanced_def)
  ultimately show ?thesis using at_point_unique assms(3-5) by blast
qed

text \<open>
  C12: the search of a reader is atomic. It takes one step for each cache line, with steps of any
  other threads in between; but when it has ended, and until the reader gives \<open>w\<close> back, the
  index it found is the one that a single search of the present cache finds.
\<close>
theorem search_atomic:
  assumes "length junk = MAX_OBJECT_SIZE" and "thread_step\<^sup>*\<^sup>* (threads_init n junk) s"
    and "at_point i (R_lock2 uri ci) s \<or> at_point i (R_leave uri ci) s"
  shows "ci = map_option fst (reader uri (shared s))"
proof -
  have "\<forall>p \<in> set (points s). point_ok (shared s) p"
    using reachable_ok [OF assms(1,2)] by (simp add: threads_ok_def)
  with assms(3) at_point_ok [of i _ s] show ?thesis by fastforce
qed

text \<open>
  C15: the semaphores never deadlock. In every reachable state in which some thread is inside
  \<open>reader\<close> or \<open>writer\<close>, such a thread can take a step.
\<close>
theorem no_deadlock:
  assumes "length junk = MAX_OBJECT_SIZE" and "thread_step\<^sup>*\<^sup>* (threads_init n junk) s"
    and "at_point i p s" and "p \<noteq> Idle"
  shows "\<exists>j q q' t. at_point j q s \<and> q \<noteq> Idle \<and> thread_step s t \<and> at_point j q' t \<and> q \<noteq> q'"
proof -
  have ok: "threads_ok s" by (rule reachable_ok [OF assms(1,2)])
  have "p \<in> set (points s)" using assms(3) by (auto simp: at_point_def)
  with some_enabled [of s p] ok assms(4) obtain q where "q \<in> set (points s)" "enabled s q"
    by (auto simp: threads_ok_def)
  then obtain j where "at_point j q s" "enabled s q" "q \<noteq> Idle"
    unfolding at_point_def in_set_conv_nth by (metis enabled.simps(5))
  with enabled_moves [OF ok] show ?thesis by blast
qed

section \<open>Witnesses\<close>

definition blank :: string where "blank = replicate MAX_OBJECT_SIZE (CHR ''?'')"

definition pair :: "point \<Rightarrow> nat \<Rightarrow> nat \<Rightarrow> nat \<Rightarrow> threads" where
  \<comment> \<open>two threads, the second one idle, before anything has been stored\<close>
  "pair p m w r = \<lparr>points = [p, Idle], mutex = m, sem_w = w, readcnt = r, shared = initialize_cache blank\<rparr>"

lemma blank_length: "length blank = MAX_OBJECT_SIZE"
  by (simp add: blank_def)

lemma pair_init: "threads_init 2 blank = pair Idle 1 1 0"
  by (simp add: threads_init_def pair_def numeral_2_eq_2)

lemma pair_at: "at_point 0 q (pair p m w r) \<longleftrightarrow> p = q"
  by (auto simp: pair_def at_point_def)

lemma pair_step:
  "thread_step (pair Idle m w r) (pair (R_lock uri) m w r)"
  "thread_step (pair (R_lock uri) (Suc m) w r) (pair (R_count uri) m w r)"
  "thread_step (pair (R_count uri) m w 0) (pair (R_wait uri) m w 1)"
  "thread_step (pair (R_wait uri) m (Suc w) r) (pair (R_unlock uri) m w r)"
  "thread_step (pair (R_unlock uri) m w r) (pair (R_search uri 0) (Suc m) w r)"
  "thread_step (pair (R_search uri 0) m w r) (pair (R_lock2 uri None) m w r)"
  "thread_step (pair (R_lock2 uri ci) (Suc m) w r) (pair (R_leave uri ci) m w r)"
  "thread_step (pair (R_leave uri ci) m w 1) (pair (R_unlock2 uri ci) m (Suc w) 0)"
  "thread_step (pair (R_unlock2 uri None) m w r) (pair (Fetching uri) (Suc m) w r)"
  "length (c_string buf) < MAX_OBJECT_SIZE \<Longrightarrow> thread_step (pair (Fetching uri) m w r) (pair (W_wait uri buf None) m w r)"
  "thread_step (pair (W_wait uri buf ci) m (Suc w) r) (pair (W_update uri buf ci) m w r)"
  using enter [of 0 "pair Idle m w r" uri] lock [of 0 uri "pair (R_lock uri) (Suc m) w r"]
    count [of 0 uri "pair (R_count uri) m w 0"] wait_w [of 0 uri "pair (R_wait uri) m (Suc w) r"]
    unlock [of 0 uri "pair (R_unlock uri) m w r"] search [of 0 uri 0 "pair (R_search uri 0) m w r"]
    lock2 [of 0 uri ci "pair (R_lock2 uri ci) (Suc m) w r"] leave [of 0 uri ci "pair (R_leave uri ci) m w 1"]
    unlock2 [of 0 uri None "pair (R_unlock2 uri None) m w r"] fetched [of 0 uri "pair (Fetching uri) m w r" buf]
    wait_writer [of 0 uri buf ci "pair (W_wait uri buf ci) m (Suc w) r"]
  unfolding pair_at by (simp_all add: pair_def goto_def search_next_def initialize_cache_def)

lemmas pair_then = pair_step [unfolded One_nat_def, THEN converse_rtranclp_into_rtranclp [where r = thread_step]]

lemma pair_reader: "thread_step\<^sup>*\<^sup>* (threads_init 2 blank) (pair (R_leave ''u'' None) 0 0 1)"
  unfolding pair_init One_nat_def
  by (rule pair_then(1), rule pair_then(2), rule pair_then(3), rule pair_then(4), rule pair_then(5),
      rule pair_then(6), rule pair_then(7), rule rtranclp.rtrancl_refl)

lemma pair_writer: "thread_step\<^sup>*\<^sup>* (threads_init 2 blank) (pair (W_update ''u'' ''x'' None) 1 0 0)"
proof -
  have "length (c_string ''x'') < MAX_OBJECT_SIZE" by (simp add: c_string_def MAX_OBJECT_SIZE_def)
  then have "thread_step\<^sup>*\<^sup>* (pair (R_leave ''u'' None) 0 0 1) (pair (W_update ''u'' ''x'' None) 1 0 0)"
    unfolding One_nat_def
    by - (rule pair_then(8), rule pair_then(9), erule pair_then(10), rule pair_then(11), rule rtranclp.rtrancl_refl)
  with pair_reader show ?thesis by (rule rtranclp_trans)
qed

theorem readers_writers_exclusive_witness:
  "thread_step\<^sup>*\<^sup>* (threads_init 2 blank) (pair (W_update ''u'' ''x'' None) 1 0 0) \<and>
   {j. \<exists>q. at_point j q (pair (W_update ''u'' ''x'' None) 1 0 0) \<and>
      (in_writer q \<or> in_unlock q \<or> in_search q \<or> in_leave q)} = {0}"
proof -
  have w: "at_point 0 (W_update ''u'' ''x'' None) (pair (W_update ''u'' ''x'' None) 1 0 0)"
    by (simp add: pair_at)
  have "in_writer (W_update ''u'' ''x'' None)" by simp
  with w readers_writers_exclusive [OF blank_length pair_writer w] pair_writer show ?thesis by blast
qed

theorem search_atomic_witness:
  "thread_step\<^sup>*\<^sup>* (threads_init 2 blank) (pair (R_leave ''u'' None) 0 0 1) \<and>
   map_option fst (reader ''u'' (shared (pair (R_leave ''u'' None) 0 0 1))) = None"
  using search_atomic [OF blank_length pair_reader, of 0 "''u''" None] pair_reader
  by (simp add: pair_at)

theorem no_deadlock_witness:
  "\<exists>j q q' t. at_point j q (pair (W_update ''u'' ''x'' None) 1 0 0) \<and> q \<noteq> Idle \<and>
     thread_step (pair (W_update ''u'' ''x'' None) 1 0 0) t \<and> at_point j q' t \<and> q \<noteq> q'"
  by (rule no_deadlock [OF blank_length pair_writer, of 0 "W_update ''u'' ''x'' None"]) (simp_all add: pair_at)

end
