(* ===== verification/Proxy_Races.thy ===== *)
theory Proxy_Races
  imports Proxy_Threads
begin

text \<open>
  What the semaphores of lab5/proxy.c do not prevent: between the search of a thread and the moment at which it stores
  the page that it fetched, no semaphore is held, so two threads can store the same page.
\<close>

section \<open>One thread moves\<close>

definition conf :: "threads \<Rightarrow> nat \<Rightarrow> point \<Rightarrow> nat \<Rightarrow> nat \<Rightarrow> nat \<Rightarrow> threads" where
  \<comment> \<open>thread \<open>i\<close> is at this point, with these values of \<open>mutex\<close>, \<open>w\<close> and \<open>readcnt\<close>; all else is as in \<open>s\<close>\<close>
  "conf s i p m w r = s\<lparr>points := (points s)[i := p], mutex := m, sem_w := w, readcnt := r\<rparr>"

lemma conf_sel [simp]:
  "mutex (conf s i p m w r) = m" "sem_w (conf s i p m w r) = w" "readcnt (conf s i p m w r) = r"
  "shared (conf s i p m w r) = shared s"
  by (simp_all add: conf_def)

lemma conf_at: "i < length (points s) \<Longrightarrow> at_point i q (conf s i p m w r) \<longleftrightarrow> p = q"
  by (auto simp: conf_def at_point_def)

lemma conf_goto:
  "goto i q (conf s i p m w r) = conf s i q m w r"
  "goto i q ((conf s i p m w r)\<lparr>mutex := m'\<rparr>) = conf s i q m' w r"
  "goto i q ((conf s i p m w r)\<lparr>sem_w := w'\<rparr>) = conf s i q m w' r"
  "goto i q ((conf s i p m w r)\<lparr>readcnt := r'\<rparr>) = conf s i q m w r'"
  "goto i q ((conf s i p m w r)\<lparr>readcnt := r', sem_w := w'\<rparr>) = conf s i q m w' r'"
  "goto i q ((conf s i p m w r)\<lparr>shared := c\<rparr>) = conf (s\<lparr>shared := c\<rparr>) i q m w r"
  by (simp_all add: conf_def goto_def)

lemma conf_step:
  assumes "i < length (points s)"
  shows "thread_step (conf s i Idle m w r) (conf s i (R_lock uri) m w r)"
    and "thread_step (conf s i (R_lock uri) (Suc m) w r) (conf s i (R_count uri) m w r)"
    and "thread_step (conf s i (R_count uri) m w 0) (conf s i (R_wait uri) m w 1)"
    and "thread_step (conf s i (R_wait uri) m (Suc w) r) (conf s i (R_unlock uri) m w r)"
    and "thread_step (conf s i (R_unlock uri) m w r) (conf s i (R_search uri 0) (Suc m) w r)"
    and "thread_step (conf s i (R_search uri k) m w r) (conf s i (search_next uri k (shared s)) m w r)"
    and "thread_step (conf s i (R_lock2 uri ci) (Suc m) w r) (conf s i (R_leave uri ci) m w r)"
    and "thread_step (conf s i (R_leave uri ci) m w 1) (conf s i (R_unlock2 uri ci) m (Suc w) 0)"
    and "thread_step (conf s i (R_unlock2 uri None) m w r) (conf s i (Fetching uri) (Suc m) w r)"
    and "length (c_string buf) < MAX_OBJECT_SIZE \<Longrightarrow>
      thread_step (conf s i (Fetching uri) m w r) (conf s i (W_wait uri buf None) m w r)"
    and "thread_step (conf s i (W_wait uri buf ci) m (Suc w) r) (conf s i (W_update uri buf ci) m w r)"
    and "writer uri buf ci (shared s) = Inr c \<Longrightarrow>
      thread_step (conf s i (W_update uri buf ci) m w r) (conf (s\<lparr>shared := c\<rparr>) i W_signal m w r)"
    and "thread_step (conf s i W_signal m w r) (conf s i Idle m (Suc w) r)"
  using enter [of i "conf s i Idle m w r" uri] lock [of i uri "conf s i (R_lock uri) (Suc m) w r"]
    count [of i uri "conf s i (R_count uri) m w 0"] wait_w [of i uri "conf s i (R_wait uri) m (Suc w) r"]
    unlock [of i uri "conf s i (R_unlock uri) m w r"] search [of i uri k "conf s i (R_search uri k) m w r"]
    lock2 [of i uri ci "conf s i (R_lock2 uri ci) (Suc m) w r"] leave [of i uri ci "conf s i (R_leave uri ci) m w 1"]
    unlock2 [of i uri None "conf s i (R_unlock2 uri None) m w r"] fetched [of i uri "conf s i (Fetching uri) m w r" buf]
    wait_writer [of i uri buf ci "conf s i (W_wait uri buf ci) m (Suc w) r"]
    update [of i uri buf ci "conf s i (W_update uri buf ci) m w r" c] signal [of i "conf s i W_signal m w r"]
  unfolding conf_at [OF assms] by (simp_all add: conf_goto)

lemma search_steps:
  assumes "i < length (points s)" and "\<forall>j < usedcnt (shared s). name (cache (shared s) ! j) \<noteq> uri"
  shows "thread_step\<^sup>*\<^sup>* (conf s i (R_search uri k) m w r) (conf s i (R_lock2 uri None) m w r)"
proof (induction "usedcnt (shared s) - k" arbitrary: k)
  case 0
  then show ?case using conf_step(6) [OF assms(1), of uri k m w r] by (simp add: search_next_def r_into_rtranclp)
next
  case (Suc n)
  then have "search_next uri k (shared s) = R_search uri (Suc k)" using assms(2) by (simp add: search_next_def)
  with conf_step(6) [OF assms(1), of uri k m w r] have
    "thread_step (conf s i (R_search uri k) m w r) (conf s i (R_search uri (Suc k)) m w r)" by simp
  moreover have "thread_step\<^sup>*\<^sup>* (conf s i (R_search uri (Suc k)) m w r) (conf s i (R_lock2 uri None) m w r)"
    by (rule Suc.hyps(1)) (use Suc.hyps(2) in simp)
  ultimately show ?case by (rule converse_rtranclp_into_rtranclp)
qed

definition calm :: "threads \<Rightarrow> bool" where
  \<comment> \<open>no semaphore is held\<close>
  "calm s \<longleftrightarrow> mutex s = 1 \<and> sem_w s = 1 \<and> readcnt s = 0"

lemma calm_conf: "calm s \<Longrightarrow> at_point i p s \<Longrightarrow> s = conf s i p 1 1 0" "calm s \<Longrightarrow> goto i q s = conf s i q 1 1 0"
  by (auto simp: calm_def at_point_def conf_def goto_def)

lemma calm_goto [simp]: "calm (goto i p s) = calm s" "calm (s\<lparr>shared := c\<rparr>) = calm s"
  by (simp_all add: calm_def)

lemma miss_steps:
  assumes "calm s" "at_point i Idle s" "cache_ok (shared s)" "reader uri (shared s) = None"
  shows "thread_step\<^sup>*\<^sup>* s (goto i (Fetching uri) s)"
proof -
  have i: "i < length (points s)" using assms(2) by (simp add: at_point_def)
  note n = conf_step [OF i, unfolded One_nat_def, THEN converse_rtranclp_into_rtranclp [where r = thread_step]]
  have "find_name (usedcnt (shared s)) uri (cache (shared s)) = None" using assms(4) by (simp add: reader_def)
  then have none: "\<forall>j < usedcnt (shared s). name (cache (shared s) ! j) \<noteq> uri"
    using find_name_eq_None assms(3) by (simp add: cache_ok_def)
  have "thread_step\<^sup>*\<^sup>* (conf s i Idle 1 1 0) (conf s i (R_search uri 0) 1 0 1)"
    unfolding One_nat_def by (rule n(1), rule n(2), rule n(3), rule n(4), rule n(5), rule rtranclp.rtrancl_refl)
  also have "thread_step\<^sup>*\<^sup>* (conf s i (R_search uri 0) 1 0 1) (conf s i (R_lock2 uri None) 1 0 1)"
    by (rule search_steps [OF i none])
  also have "thread_step\<^sup>*\<^sup>* (conf s i (R_lock2 uri None) 1 0 1) (conf s i (Fetching uri) 1 1 0)"
    unfolding One_nat_def by (rule n(7), rule n(8), rule n(9), rule rtranclp.rtrancl_refl)
  finally show ?thesis using calm_conf(1) [OF assms(1,2)] calm_conf(2) [OF assms(1)] by metis
qed

lemma store_steps:
  assumes "calm s" "at_point i (Fetching uri) s" "length (c_string buf) < MAX_OBJECT_SIZE"
    and "writer uri buf None (shared s) = Inr c"
  shows "thread_step\<^sup>*\<^sup>* s (goto i Idle (s\<lparr>shared := c\<rparr>))"
proof -
  have i: "i < length (points s)" "i < length (points (s\<lparr>shared := c\<rparr>))" using assms(2) by (simp_all add: at_point_def)
  note n = conf_step [OF i(1), unfolded One_nat_def, THEN converse_rtranclp_into_rtranclp [where r = thread_step]]
  have "thread_step\<^sup>*\<^sup>* (conf s i (Fetching uri) 1 1 0) (conf (s\<lparr>shared := c\<rparr>) i W_signal 1 0 0)"
    unfolding One_nat_def
    by (rule n(10) [OF assms(3)], rule n(11), rule n(12) [OF assms(4)], rule rtranclp.rtrancl_refl)
  also have "thread_step (conf (s\<lparr>shared := c\<rparr>) i W_signal 1 0 0) (conf (s\<lparr>shared := c\<rparr>) i Idle 1 1 0)"
    using conf_step(13) [OF i(2), of 1 0 0] by simp
  finally show ?thesis
    using calm_conf(1) [OF assms(1,2)] calm_conf(2) [of "s\<lparr>shared := c\<rparr>"] assms(1) calm_goto(2) by metis
qed

section \<open>Two threads miss the same page\<close>

lemma store_page:
  assumes "cache_ok s" "usedcnt s < NUM_CACHE_LINE" "length (c_string buf) < MAX_OBJECT_SIZE"
  obtains t where "writer uri buf None s = Inr t" "cache_ok t" "usedcnt t = usedcnt s + 1"
    "page_at t (usedcnt s) = (uri, c_string buf)" "\<forall>k < usedcnt s. page_at t k = page_at s k"
proof (rule writer_result [OF assms(1), where ci = None and buf = buf and uri = uri])
  show "case None of None \<Rightarrow> length (c_string buf) < MAX_OBJECT_SIZE | Some i \<Rightarrow> i < usedcnt s"
    using assms(3) by simp
  fix p
  assume p: "None = None \<Longrightarrow> c_string p = c_string buf"
    and w: "writer uri buf None s = Inr \<lparr>cache = (cache s)[slot None s :=
        \<lparr>name = (if None = (None :: nat option) then uri else name (cache s ! slot None s)), payload = p, timestamp = gtime s\<rparr>],
      usedcnt = in_use None s, gtime = gtime s + 1\<rparr>" (is "_ = Inr ?t")
  have k: "slot None s = usedcnt s" "in_use None s = usedcnt s + 1" using assms(2) by (simp_all add: slot_def in_use_def)
  have "cache_ok ?t" using writer_cache_ok [OF assms(1), where ci = None and buf = buf and uri = uri] assms(3) w by auto
  moreover have "usedcnt s < length (cache s)" using assms(1,2) by (simp add: cache_ok_def)
  ultimately show thesis using that [OF w] p k by (simp add: page_at_def)
qed

text \<open>
  C36: No semaphore covers the time between a miss and the storing of the page, so a page can be stored
  twice: from any state with no semaphore held, two threads that are asked for the same page, which is not in the
  cache, can run so that both store it, in two lines of their own, each with its own text. A search finds the first
  of them only; the second line is wasted until it is the oldest.
\<close>
theorem page_stored_twice:
  assumes "calm s" "cache_ok (shared s)" "usedcnt (shared s) + 2 \<le> NUM_CACHE_LINE" "reader uri (shared s) = None"
    and "at_point i Idle s" "at_point j Idle s" "i \<noteq> j"
    and "length (c_string buf) < MAX_OBJECT_SIZE" "length (c_string buf') < MAX_OBJECT_SIZE"
  shows "\<exists>t. thread_step\<^sup>*\<^sup>* s t \<and> at_point i Idle t \<and> at_point j Idle t \<and>
    usedcnt (shared t) = usedcnt (shared s) + 2 \<and> page_at (shared t) (usedcnt (shared s)) = (uri, c_string buf) \<and>
    page_at (shared t) (usedcnt (shared s) + 1) = (uri, c_string buf') \<and>
    map_option fst (reader uri (shared t)) = Some (usedcnt (shared s))"
proof -
  let ?n = "usedcnt (shared s)"
  obtain c where c: "writer uri buf None (shared s) = Inr c" "cache_ok c" "usedcnt c = ?n + 1"
    "page_at c ?n = (uri, c_string buf)" "\<forall>k < ?n. page_at c k = page_at (shared s) k"
    by (rule store_page [OF assms(2) _ assms(8)]) (use assms(3) in auto)
  obtain d where d: "writer uri buf' None c = Inr d" "cache_ok d" "usedcnt d = ?n + 2"
    "page_at d (?n + 1) = (uri, c_string buf')" "\<forall>k < ?n + 1. page_at d k = page_at c k"
    by (rule store_page [OF c(2) _ assms(9)]) (use assms(3) c(3) in auto)
  define t1 where "t1 = goto i (Fetching uri) s"
  define t2 where "t2 = goto j (Fetching uri) t1"
  define t3 where "t3 = goto i Idle (t2\<lparr>shared := c\<rparr>)"
  define t4 where "t4 = goto j Idle (t3\<lparr>shared := d\<rparr>)"
  note t = t1_def t2_def t3_def t4_def
  have l: "i < length (points s)" "j < length (points s)" using assms(5,6) by (simp_all add: at_point_def)
  have "thread_step\<^sup>*\<^sup>* s t1" unfolding t1_def by (rule miss_steps [OF assms(1,5,2,4)])
  also have "thread_step\<^sup>*\<^sup>* t1 t2"
    unfolding t2_def by (rule miss_steps) (use assms in \<open>simp_all add: t1_def at_point_def, simp add: goto_def\<close>)
  also have "thread_step\<^sup>*\<^sup>* t2 t3"
    unfolding t3_def
    by (rule store_steps [OF _ _ assms(8)]) (use assms l c(1) in \<open>simp_all add: t at_point_def, simp_all add: goto_def\<close>)
  also have "thread_step\<^sup>*\<^sup>* t3 t4"
    unfolding t4_def
    by (rule store_steps [OF _ _ assms(9)]) (use assms l d(1) in \<open>simp_all add: t at_point_def, simp_all add: goto_def\<close>)
  finally have run: "thread_step\<^sup>*\<^sup>* s t4" .
  have sh: "shared t4 = d" and at: "at_point i Idle t4" "at_point j Idle t4"
    using l assms(7) by (simp_all add: t at_point_def goto_def)
  have old: "name (cache d ! k) = name (cache (shared s) ! k)" if "k < ?n" for k
    using d(5) c(5) that by (simp add: page_at_def)
  have len: "?n + 2 \<le> length (cache d)" "?n \<le> length (cache (shared s))"
    using d(2,3) assms(2) by (simp_all add: cache_ok_def)
  have "\<forall>k < ?n. name (cache (shared s) ! k) \<noteq> uri"
    using assms(4) find_name_eq_None [OF len(2), of uri] by (simp add: reader_def)
  moreover have "name (cache d ! ?n) = uri" using d(5) c(4) by (simp add: page_at_def)
  ultimately have "find_name (?n + 2) uri (cache d) = Some ?n"
    using find_name_eq_Some [OF len(1), of uri ?n] old by simp
  then have "map_option fst (reader uri d) = Some ?n" by (simp add: fst_reader d(3))
  with run sh at c(4) d(3-5) show ?thesis by (intro exI [of _ t4]) simp
qed

theorem page_stored_twice_witness:
  "\<exists>t. thread_step\<^sup>*\<^sup>* (threads_init 2 blank) t \<and> page_at (shared t) 0 = (''u'', ''x'') \<and>
     page_at (shared t) 1 = (''u'', ''y'') \<and> map_option fst (reader ''u'' (shared t)) = Some 0"
proof -
  have "calm (threads_init 2 blank)" "at_point 0 Idle (threads_init 2 blank)" "at_point 1 Idle (threads_init 2 blank)"
    by (simp_all add: calm_def threads_init_def at_point_def less_Suc_eq)
  moreover have sh: "shared (threads_init 2 blank) = initialize_cache blank" by (simp add: threads_init_def)
  moreover have n: "usedcnt (initialize_cache blank) = 0" by (simp add: initialize_cache_def)
  ultimately show ?thesis
    using page_stored_twice [of "threads_init 2 blank" "''u''" 0 1 "''x''" "''y''"] cache_ok_init [OF blank_length]
    by (auto simp: reader_def c_string_def NUM_CACHE_LINE_def MAX_OBJECT_SIZE_def)
qed

end
