(* ===== verification/Proxy_Props.thy ===== *)
theory Proxy_Props
  imports Proxy_Cache Rio_Props
begin

text \<open>
  One connection of lab5/proxy.c: the request that goes on to the server, the answer that goes
  into the cache and comes out of it again, and the requests that end the whole proxy.
\<close>

section \<open>Requests\<close>

definition header_bytes :: "string \<times> string \<Rightarrow> string" where
  "header_bytes h = fst h @ '': '' @ snd h @ crlf"

definition header_ok :: "string \<times> string \<Rightarrow> bool" where
  \<comment> \<open>a header line that the fixed arrays can hold\<close>
  "header_ok h \<longleftrightarrow> length (fst h) < MAX_HEADERNAME_LEN \<and> length (snd h) + 2 < MAX_HEADER_LEN \<and>
     CHR '':'' \<notin> set (fst h) \<and> {newline, CHR 0x00} \<inter> set (fst h @ snd h) = {}"

lemma strstr_separator:
  "CHR '':'' \<notin> set n \<Longrightarrow> strstr (n @ '': '' @ v) '': '' = Some (length n)"
proof (induction n)
  case (Cons c n)
  then have "c \<noteq> CHR '':''" by auto
  then show ?case using Cons strstr_skip [of c "'': ''" "n @ '': '' @ v"] by simp
qed simp

lemma parse_header_line:
  assumes "header_ok h"
  shows "parse_header (header_bytes h) = Inr (\<lparr>headername = fst h, header = snd h @ crlf\<rparr>, fst h)"
proof -
  have "strstr (header_bytes h) '': '' = Some (length (fst h))"
    using strstr_separator [of "fst h" "snd h @ crlf"] assms by (simp add: header_bytes_def header_ok_def)
  moreover have "drop (length (fst h) + 2) (header_bytes h) = snd h @ crlf"
    by (simp add: header_bytes_def)
  ultimately show ?thesis using assms
    by (simp add: parse_header_def copy_to_def header_ok_def) (simp add: header_bytes_def)
qed

lemma header_c_string: "header_ok h \<Longrightarrow> c_string (header_bytes h) = header_bytes h"
  by (rule c_string_id) (auto simp: header_ok_def header_bytes_def)

lemma read_headers_all:
  assumes "rio_ok rp" "stream rp = concat (map header_bytes hs) @ crlf @ body" "list_all header_ok hs"
    and "length hs \<le> room"
  shows "\<exists>n buf t t'. Rio_readlineb rp MAXLINE old = Inr (n, buf, t) \<and>
    read_headers room buf t = Inr (map (\<lambda>h. \<lparr>headername = fst h, header = snd h @ crlf\<rparr>) hs, t')"
  using assms
proof (induction hs arbitrary: rp room old)
  case Nil
  then have s: "stream rp = [carriage_return] @ newline # body" by simp
  obtain t where "Rio_readlineb rp MAXLINE old = Inr (Suc (length [carriage_return]), [carriage_return] @ [newline], t)"
    by (rule Rio_readlineb_line [OF Nil.prems(1) s, of MAXLINE old]) (auto simp: MAXLINE_def)
  then show ?case by (cases room) (simp_all add: c_string_def)
next
  case (Cons h hs)
  let ?l = "fst h @ '': '' @ snd h @ [carriage_return]" and ?r = "concat (map header_bytes hs) @ crlf @ body"
  have h: "header_ok h" using Cons.prems(3) by simp
  obtain room' where room: "room = Suc room'" "length hs \<le> room'" using Cons.prems(4) by (cases room) auto
  have s: "stream rp = ?l @ newline # ?r" using Cons.prems(2) by (simp add: header_bytes_def [of h])
  obtain t where t: "Rio_readlineb rp MAXLINE old = Inr (Suc (length ?l), ?l @ [newline], t)" "rio_ok t" "stream t = ?r"
    by (rule Rio_readlineb_line [OF Cons.prems(1) s, of MAXLINE old])
       (use h in \<open>auto simp: header_ok_def MAXLINE_def MAX_HEADERNAME_LEN_def MAX_HEADER_LEN_def\<close>)
  have l: "?l @ [newline] = header_bytes h" by (simp add: header_bytes_def)
  have "header_bytes h \<noteq> crlf" by (cases "fst h") (auto simp: header_bytes_def)
  moreover from Cons.IH [OF t(2,3) _ room(2), of "fst h"] Cons.prems(3) obtain n buf u u' where
    "Rio_readlineb t MAXLINE (fst h) = Inr (n, buf, u)"
    "read_headers room' buf u = Inr (map (\<lambda>h. \<lparr>headername = fst h, header = snd h @ crlf\<rparr>) hs, u')"
    by auto
  ultimately show ?case using t(1) unfolding l room(1)
    by (simp add: header_c_string [OF h] parse_header_line [OF h])
qed

definition uri_text :: "string \<Rightarrow> string \<Rightarrow> string \<Rightarrow> string" where
  "uri_text h p q = ''http://'' @ h @ '':'' @ p @ ''/'' @ q"

lemma parse_uri_text:
  assumes "CHR '':'' \<notin> set h" "CHR ''/'' \<notin> set p" "length h < MAX_HOSTNAME_LEN" "length p < MAX_PORT_LEN"
    and "Suc (length q) < MAXLINE"
  shows "parse_uri (uri_text h p q) = Inr \<lparr>hostname = h, port = p, path = ''/'' @ q\<rparr>"
proof -
  have "strstr (uri_text h p q) ''http://'' = Some 0"
    unfolding uri_text_def by (rule strstr_prefix)
  moreover have "drop (length ''http://'') (uri_text h p q) = h @ CHR '':'' # p @ ''/'' @ q"
    by (simp add: uri_text_def)
  ultimately show ?thesis using assms by (simp add: parse_uri_def Let_def copy_to_def)
qed

text \<open>The request line is read whole, and its second word is the URI.\<close>

lemma parse_request_line:
  assumes "clean fd" "content fd = a @ '' '' @ b @ '' '' @ c @ crlf @ rest"
    and "word a" "word b" "word c" "length (a @ b @ c) + 4 < MAXLINE"
  obtains buf t where "rio_ok t" "stream t = rest"
    "parse_request fd = bindE (parse_uri b) (\<lambda>linep.
       bindE (Rio_readlineb t MAXLINE buf) (\<lambda>(n, buf, rio).
       bindE (read_headers 20 buf rio) (\<lambda>(headers, rio). Inr (linep, headers))))"
proof (rule read_request_line [OF assms(1-6)])
  fix l t
  assume "Rio_readlineb (rio_readinitb fd) MAXLINE [] = Inr (Suc (length l), l @ [newline], t)" "rio_ok t"
    "stream t = rest" "scan_words (c_string (l @ [newline])) = [a, b, c]"
  then show thesis by (intro that [of t "l @ [newline]"]) (simp_all add: parse_request_def)
qed

lemma parse_request_text:
  assumes "clean fd"
    and "content fd = m @ '' '' @ uri_text h p q @ '' '' @ v @ crlf @ concat (map header_bytes hs) @ crlf @ body"
    and "word m" "word (uri_text h p q)" "word v" "length (m @ uri_text h p q @ v) + 4 < MAXLINE"
    and "CHR '':'' \<notin> set h" "CHR ''/'' \<notin> set p" "length h < MAX_HOSTNAME_LEN" "length p < MAX_PORT_LEN"
    and "list_all header_ok hs" "length hs \<le> 20"
  shows "parse_request fd = Inr (\<lparr>hostname = h, port = p, path = ''/'' @ q\<rparr>,
    map (\<lambda>h. \<lparr>headername = fst h, header = snd h @ crlf\<rparr>) hs)"
proof -
  have "Suc (length q) < MAXLINE" using assms(6) by (simp add: uri_text_def)
  note u = parse_uri_text [OF assms(7-10) this]
  obtain buf t where t: "rio_ok t" "stream t = concat (map header_bytes hs) @ crlf @ body"
    "parse_request fd = bindE (parse_uri (uri_text h p q)) (\<lambda>linep.
       bindE (Rio_readlineb t MAXLINE buf) (\<lambda>(n, buf, rio).
       bindE (read_headers 20 buf rio) (\<lambda>(headers, rio). Inr (linep, headers))))"
    by (rule parse_request_line [OF assms(1-6)])
  from read_headers_all [OF t(1,2) assms(11,12), of buf] show ?thesis by (auto simp: t(3) u)
qed

section \<open>The answer\<close>

definition copied :: "nat \<Rightarrow> string \<Rightarrow> string \<Rightarrow> string \<Rightarrow> bool" where
  \<comment> \<open>the bytes have arrived for this offset: the buffer holds them there up to the first NUL\<close>
  "copied off t old new \<longleftrightarrow> length new = length old \<and> take off new = take off old \<and>
     (if t = [] then new = old else off + length (c_string t) < length new \<and> c_string (drop off new) = c_string t)"

lemma c_string_append: "c_string (t @ u) = (if CHR 0x00 \<in> set t then c_string t else t @ c_string u)"
  by (induction t) (auto simp: c_string_def)

lemma c_string_shorter: "length (c_string t) \<le> length t" "CHR 0x00 \<in> set t \<Longrightarrow> length (c_string t) < length t"
  by (induction t) (auto simp: c_string_def)

lemma c_string_split: "length (c_string b) < length b \<Longrightarrow> \<exists>rest. b = c_string b @ CHR 0x00 # rest"
proof (induction b)
  case (Cons c b)
  then show ?case by (cases "c = CHR 0x00") (auto simp: c_string_def)
qed (simp add: c_string_def)

lemma c_string_prefix:
  "length (c_string b) < n \<Longrightarrow> n \<le> length b \<Longrightarrow> take n d = take n b \<Longrightarrow> c_string d = c_string b"
proof (induction b arbitrary: n d)
  case (Cons c b)
  then obtain m where m: "n = Suc m" by (cases n) simp_all
  with Cons.prems(3) obtain e where e: "d = c # e" "take m e = take m b" by (cases d) auto
  show ?case
  proof (cases "c = CHR 0x00")
    case False
    then have "c_string e = c_string b" using Cons.IH [OF _ _ e(2)] Cons.prems(1,2) m by (simp add: c_string_def)
    then show ?thesis by (simp add: e(1) c_string_def)
  qed (simp add: e(1) c_string_def)
qed simp

lemma store_at_copied:
  assumes "store_at off (c_string t) old = Inr new" and "t \<noteq> []"
  shows "copied off t old new"
  using assms by (auto simp: store_at_def copied_def c_string_NUL split: if_splits)

lemma copied_append:
  assumes "copied off t old mid" "copied (off + length t) u mid new" "off + length t < length old"
  shows "copied off (t @ u) old new"
proof (cases "t = [] \<or> u = []")
  case False
  have m: "length mid = length old" "take off mid = take off old" "c_string (drop off mid) = c_string t"
    and n: "length new = length old" "take (off + length t) new = take (off + length t) mid"
      "off + length t + length (c_string u) < length new" "c_string (drop (off + length t) new) = c_string u"
    using False assms(1,2) by (auto simp: copied_def)
  have o: "take off new = take off old" using n(2) m(2) by (metis le_add1 min.absorb1 take_take)
  have d: "take (length t) (drop off new) = take (length t) (drop off mid)"
    using n(2) by (metis add_diff_cancel_left' drop_take)
  have "off + length (c_string (t @ u)) < length new \<and> c_string (drop off new) = c_string (t @ u)"
  proof (cases "CHR 0x00 \<in> set t")
    case True
    then show ?thesis
      using c_string_prefix [OF _ _ d] c_string_shorter(2) [OF True] assms(3) m(1,3) n(1)
      by (simp add: c_string_append)
  next
    case False
    have "length (c_string (drop off mid)) < length (drop off mid)"
      using m(1,3) assms(3) c_string_shorter(1) [of t] by simp
    then have "take (length t) (drop off mid) = t"
      using c_string_split [of "drop off mid"] m(3) c_string_id [OF False] by (metis append_eq_conv_conj)
    then have "drop off new = t @ drop (off + length t) new"
      using d by (metis append_take_drop_id add.commute drop_drop)
    then show ?thesis using False n(3,4) by (simp add: c_string_append)
  qed
  with o n(1) False show ?thesis by (simp add: copied_def)
qed (use assms in \<open>auto simp: copied_def\<close>)

text \<open>
  The loop of \<open>doit\<close>: if it ends, all that came from the server has been counted, and the buffer holds it up
  to its first NUL. If the answer is smaller than the buffer, it ends, and all of it has gone to the client.
\<close>

lemma fetch_result:
  assumes "rio_ok rio" "fetch rio snk buf ob off sent = Inr (ob', total_size, ps)" "total_size < length ob"
  shows "total_size = off + length (stream rio) \<and> copied off (stream rio) ob ob'"
  using assms
proof (induction "length (stream rio)" arbitrary: rio snk buf ob off sent rule: less_induct)
  case less
  have m: "2 \<le> MAXLINE" by (simp add: MAXLINE_def)
  show ?case
  proof (cases "stream rio = []")
    case True
    obtain t where "Rio_readlineb rio MAXLINE buf = Inr (0, buf, t)"
      by (rule Rio_readlineb_end [OF less.prems(1) m True])
    then show ?thesis using True less.prems(2) by (simp add: fetch.simps [of rio] copied_def)
  next
    case False
    obtain l t where t: "Rio_readlineb rio MAXLINE buf = Inr (length l, l, t)" "rio_ok t" "l \<noteq> []"
      "stream rio = l @ stream t"
      by (rule Rio_readlineb_next [OF less.prems(1) m False])
    obtain qs snk' b where b: "store_at off (c_string l) ob = Inr b"
      and r: "fetch t snk' l b (off + length l) (sent @ qs) = Inr (ob', total_size, ps)"
      using less.prems(2) t(1,3) by (auto simp: fetch.simps [of rio] bindE_eq_Inr_iff)
    have c: "copied off l ob b" by (rule store_at_copied [OF b t(3)])
    have "total_size = off + length l + length (stream t) \<and> copied (off + length l) (stream t) b ob'"
      by (rule less.hyps [OF _ t(2) r]) (use less.prems(3) t(3,4) c in \<open>auto simp: copied_def\<close>)
    with copied_append [OF c] less.prems(3) t(4) show ?thesis by (simp add: add.assoc)
  qed
qed

lemma fetch_copies:
  assumes "rio_ok rio" "WFailed \<notin> set snk" "off + length (stream rio) < length ob"
  shows "\<exists>ob' ps. fetch rio snk buf ob off sent = Inr (ob', off + length (stream rio), sent @ ps) \<and>
    concat ps = stream rio \<and> copied off (stream rio) ob ob'"
  using assms
proof (induction "length (stream rio)" arbitrary: rio snk buf ob off sent rule: less_induct)
  case less
  have m: "2 \<le> MAXLINE" by (simp add: MAXLINE_def)
  show ?case
  proof (cases "stream rio = []")
    case True
    obtain t where "Rio_readlineb rio MAXLINE buf = Inr (0, buf, t)"
      by (rule Rio_readlineb_end [OF less.prems(1) m True])
    then show ?thesis using True by (simp add: fetch.simps [of rio] copied_def)
  next
    case False
    obtain l t where t: "Rio_readlineb rio MAXLINE buf = Inr (length l, l, t)" "rio_ok t" "l \<noteq> []"
      "stream rio = l @ stream t"
      by (rule Rio_readlineb_next [OF less.prems(1) m False])
    obtain ps snk' where w: "Rio_writen snk l = Inr (ps, snk')" "concat ps = l" "WFailed \<notin> set snk'"
      by (rule Rio_writen_all [OF less.prems(2)])
    have l: "off + length l < length ob" using less.prems(3) t(4) by simp
    then obtain b where b: "store_at off (c_string l) ob = Inr b"
      using c_string_shorter(1) [of l] by (auto simp: store_at_def)
    have c: "copied off l ob b" by (rule store_at_copied [OF b t(3)])
    have "\<exists>ob' qs. fetch t snk' l b (off + length l) (sent @ ps) =
        Inr (ob', off + length l + length (stream t), (sent @ ps) @ qs) \<and> concat qs = stream t \<and>
        copied (off + length l) (stream t) b ob'"
      by (rule less.hyps) (use less.prems t w(3) c in \<open>auto simp: copied_def\<close>)
    then obtain ob' qs where r: "fetch t snk' l b (off + length l) (sent @ ps) =
        Inr (ob', off + length l + length (stream t), (sent @ ps) @ qs)" "concat qs = stream t"
        "copied (off + length l) (stream t) b ob'" by blast
    from copied_append [OF c r(3) l] r(1,2) t w b(1) show ?thesis
      by (simp add: fetch.simps [of rio] add.assoc)
  qed
qed

text \<open>After the loop the buffer, read as a string, is the answer up to its first NUL.\<close>

lemma copied_c_string: "copied 0 t old new \<Longrightarrow> t \<noteq> [] \<Longrightarrow> c_string new = c_string t"
  by (simp add: copied_def)

section \<open>The cache\<close>

lemma writer_then_reader:
  assumes "cache_ok s" "reader uri s = None" "length (c_string buf) < MAX_OBJECT_SIZE"
  shows "\<exists>t i p. writer uri buf None s = Inr t \<and> cache_ok t \<and> reader uri t = Some (i, p) \<and>
    i < usedcnt t \<and> length p = MAX_OBJECT_SIZE \<and> c_string p = c_string buf"
proof -
  have "case None of None \<Rightarrow> length (c_string buf) < MAX_OBJECT_SIZE | Some i \<Rightarrow> i < usedcnt s"
    using assms(3) by simp
  from writer_result [OF assms(1) this, of uri] obtain p where
    p: "length p = MAX_OBJECT_SIZE" "c_string p = c_string buf" and
    w: "writer uri buf None s = Inr \<lparr>cache = (cache s)[slot None s := \<lparr>name = uri, payload = p, timestamp = gtime s\<rparr>],
      usedcnt = in_use None s, gtime = gtime s + 1\<rparr>" (is "_ = Inr ?t")
    by auto
  have b: "slot None s < length (cache s)" "slot None s < in_use None s" "in_use None s \<le> length (cache s)"
    using slot_bound [OF assms(1), of None] by simp_all
  have u: "usedcnt s \<le> length (cache s)" using assms(1) by (simp add: cache_ok_def)
  have "find_name (usedcnt s) uri (cache s) = None" using assms(2) by (simp add: reader_def)
  then have "\<forall>j < (usedcnt s). name (cache s ! j) \<noteq> uri" using find_name_eq_None [OF u] by simp
  then have "\<forall>j < (slot None s). name (cache s ! j) \<noteq> uri"
    using b(2) by (auto simp: in_use_def split: if_splits)
  then have "find_name (usedcnt ?t) uri (cache ?t) = Some (slot None s)"
    using b by (subst find_name_eq_Some) (auto simp: nth_list_update)
  then have "reader uri ?t = Some (slot None s, p)" using b(1) by (simp add: reader_def)
  moreover have "cache_ok ?t"
    using writer_cache_ok [OF assms(1), where ci = None and buf = buf and uri = uri] assms(3) w by auto
  ultimately show ?thesis using w p b(2) by simp
qed

lemma doit_miss:
  assumes "cache_ok s" "parse_request client = Inr (line, hs)" "cache_key line = Inr uri" "reader uri s = None"
    and "send_to_server addrs ssnk junk line hs = Inr req" "WFailed \<notin> set csnk"
    and "clean answer" "content answer \<noteq> []"
    and "length (content answer) < MAX_OBJECT_SIZE" "length ob = MAX_OBJECT_SIZE" "cl \<ge> 0"
  shows "\<exists>ps t i p. doit client csnk addrs ssnk answer cl junk ob s = Inr (ps, t) \<and> concat ps = content answer \<and>
    cache_ok t \<and> reader uri t = Some (i, p) \<and> i < usedcnt t \<and> length p = MAX_OBJECT_SIZE \<and>
    c_string p = c_string (content answer)"
proof -
  have "\<exists>ob' ps. fetch (rio_readinitb answer) csnk [] ob 0 [] =
      Inr (ob', 0 + length (stream (rio_readinitb answer)), [] @ ps) \<and>
      concat ps = stream (rio_readinitb answer) \<and> copied 0 (stream (rio_readinitb answer)) ob ob'"
    by (rule fetch_copies) (use assms in simp_all)
  then obtain ob' ps where f: "fetch (rio_readinitb answer) csnk [] ob 0 [] = Inr (ob', length (content answer), ps)"
    "concat ps = content answer" "copied 0 (content answer) ob ob'" by auto
  have c: "c_string ob' = c_string (content answer)" by (rule copied_c_string [OF f(3) assms(8)])
  have "length (c_string ob') < MAX_OBJECT_SIZE"
    using assms(9) c_string_length [of "content answer"] by (simp add: c)
  from writer_then_reader [OF assms(1,4) this] show ?thesis
    using assms(2-5,9,11) f(1,2) by (auto simp: doit_def c Close_def)
qed

lemma doit_hit:
  assumes "parse_request client = Inr (line, hs)" "cache_key line = Inr uri" "reader uri s = Some (i, p)"
    and "cache_ok s" "i < usedcnt s" "WFailed \<notin> set csnk"
  shows "\<exists>ps t. doit client csnk addrs ssnk answer cl junk ob s = Inr (ps, t) \<and> concat ps = p"
proof -
  obtain ps rest where "Rio_writen csnk p = Inr (ps, rest)" "concat ps = p"
    by (rule Rio_writen_all [OF assms(6)])
  then show ?thesis
    using assms(1-3,5) writer_cache_ok [OF assms(4), where ci = "Some i" and buf = ob and uri = uri]
    by (auto simp: doit_def)
qed

section \<open>Properties\<close>

text \<open>
  C18: a page of any bytes, at least one and fewer than \<open>MAX_OBJECT_SIZE\<close>, is sent to the client unchanged when it is
  fetched. The next request for the same host and path is answered from the cache, always with \<open>MAX_OBJECT_SIZE\<close>
  bytes: the page up to its first NUL, which for a text is all of it but for an image is not (\<open>strcpy\<close> stores the
  page), then a NUL and whatever else is in the buffer. The second request may name another port: the port is
  not part of the key, so it gets the page of the other server.
\<close>
theorem doit_then_cached:
  assumes "cache_ok s" "parse_request client = Inr (line, hs)" "cache_key line = Inr uri" "reader uri s = None"
    and "send_to_server addrs ssnk junk line hs = Inr req" "WFailed \<notin> set csnk"
    and "clean answer" "content answer \<noteq> []"
    and "length (content answer) < MAX_OBJECT_SIZE" "length ob = MAX_OBJECT_SIZE" "cl \<ge> 0"
    and "parse_request client' = Inr (line', hs')" "hostname line' = hostname line" "path line' = path line"
    and "WFailed \<notin> set csnk'"
  shows "\<exists>ps t ps' t' rest. doit client csnk addrs ssnk answer cl junk ob s = Inr (ps, t) \<and>
    concat ps = content answer \<and>
    doit client' csnk' addrs' ssnk' answer' cl' junk' ob' t = Inr (ps', t') \<and>
    concat ps' = c_string (content answer) @ CHR 0x00 # rest \<and> length (concat ps') = MAX_OBJECT_SIZE"
proof -
  obtain ps t i p where t: "doit client csnk addrs ssnk answer cl junk ob s = Inr (ps, t)" "concat ps = content answer"
    "cache_ok t" "reader uri t = Some (i, p)" "i < usedcnt t" "length p = MAX_OBJECT_SIZE"
    "c_string p = c_string (content answer)"
    using doit_miss [OF assms(1-11)] by blast
  have "cache_key line' = Inr uri" using assms(3,13,14) by (simp add: cache_key_def)
  moreover have "length (c_string p) < length p" using t(6,7) assms(9) c_string_length [of "content answer"] by simp
  ultimately show ?thesis
    using doit_hit [OF assms(12) _ t(4,3,5) assms(15)] t c_string_split [of p] by metis
qed



text \<open>
  One client can end the proxy for all of them: a request whose second word does not begin with
  \<open>http://\<close>, such as the request a browser sends to an ordinary server, makes \<open>parse_uri\<close>
  call \<open>exit (0)\<close> in the thread that serves it, whatever the state of the cache.
\<close>
theorem bad_uri_exits:
  assumes "clean client" "content client = a @ '' '' @ b @ '' '' @ c @ crlf @ rest"
    and "word a" "word b" "word c" "length (a @ b @ c) + 4 < MAXLINE" "strstr b ''http://'' \<noteq> Some 0"
  shows "doit client csnk addrs ssnk answer cl junk ob s = Inl (Exit 0)"
proof -
  obtain buf t where "parse_request client = bindE (parse_uri b) (\<lambda>linep.
       bindE (Rio_readlineb t MAXLINE buf) (\<lambda>(n, buf, rio).
       bindE (read_headers 20 buf rio) (\<lambda>(headers, rio). Inr (linep, headers))))"
    by (rule parse_request_line [OF assms(1-6)])
  then show ?thesis using assms(7) by (simp add: doit_def parse_uri_def)
qed

theorem bad_uri_exits_witness:
  "doit [Data (''GET / HTTP/1.1'' @ crlf)] [] None [] [] 0 [] [] (initialize_cache []) = Inl (Exit 0)"
  by (rule bad_uri_exits [of _ "''GET''" "''/''" "''HTTP/1.1''" "[]"])
     (simp_all add: word_def isspace_def MAXLINE_def)

section \<open>A sample run\<close>

definition route :: "attempt list option" where
  "route = Some [\<lparr>sock = 3, succeeds = True, closes = True\<rparr>]"

lemma sample_requests:
  "parse_request [Data (''GET http://h:80/x HTTP/1.1'' @ crlf @ crlf)] = Inr (\<lparr>hostname = ''h'', port = ''80'', path = ''/x''\<rparr>, [])"
  "parse_request [Data (''GET http://h:81/x HTTP/1.1'' @ crlf @ crlf)] = Inr (\<lparr>hostname = ''h'', port = ''81'', path = ''/x''\<rparr>, [])"
  using parse_request_text [of "[Data (''GET http://h:80/x HTTP/1.1'' @ crlf @ crlf)]" "''GET''" "''h''" "''80''" "''x''" "''HTTP/1.1''" "[]" "[]"]
    parse_request_text [of "[Data (''GET http://h:81/x HTTP/1.1'' @ crlf @ crlf)]" "''GET''" "''h''" "''81''" "''x''" "''HTTP/1.1''" "[]" "[]"]
  by (simp_all add: uri_text_def word_def isspace_def MAXLINE_def MAX_HOSTNAME_LEN_def MAX_PORT_LEN_def)

lemma sample_key: "cache_key \<lparr>hostname = ''h'', port = ''80'', path = ''/x''\<rparr> = Inr ''h/x''"
  by (simp add: cache_key_def copy_to_def MAXLINE_def)

lemma sample_send: "\<exists>req. send_to_server route [] [] \<lparr>hostname = ''h'', port = ''80'', path = ''/x''\<rparr> [] = Inr req"
  by (simp add: route_def send_to_server_def Open_clientfd_def open_clientfd_def copy_to_def request_text_def
      MAXLINE_def Rio_writen_def Let_def)

definition marks :: string where "marks = replicate MAX_OBJECT_SIZE (CHR ''?'')"

lemma marks_facts:
  "length marks = MAX_OBJECT_SIZE" "cache_ok (initialize_cache marks)" "reader uri (initialize_cache marks) = None"
  by (simp_all add: marks_def cache_ok_init reader_def) (simp add: initialize_cache_def)

text \<open>
  The page of the witness has a NUL in it. The second request names another port, and is answered with the first three
  bytes of the page of the first.
\<close>

definition picture :: string where "picture = ''GIF'' @ CHR 0x00 # ''89a''"

theorem doit_then_cached_witness:
  "\<exists>ps t ps' t' rest.
     doit [Data (''GET http://h:80/x HTTP/1.1'' @ crlf @ crlf)] [] route [] [Data picture] 0 [] marks
       (initialize_cache marks) = Inr (ps, t) \<and> concat ps = picture \<and>
     doit [Data (''GET http://h:81/x HTTP/1.1'' @ crlf @ crlf)] [] None [] [] 0 [] [] t = Inr (ps', t') \<and>
     concat ps' = ''GIF'' @ CHR 0x00 # rest \<and> length (concat ps') = MAX_OBJECT_SIZE"
proof -
  obtain req where q: "send_to_server route [] [] \<lparr>hostname = ''h'', port = ''80'', path = ''/x''\<rparr> [] = Inr req"
    using sample_send by blast
  have p: "picture \<noteq> []" "c_string picture = ''GIF''" "length picture < MAX_OBJECT_SIZE"
    by (simp_all add: picture_def c_string_def MAX_OBJECT_SIZE_def)
  then have "clean [Data picture]" "content [Data picture] = picture" by simp_all
  with doit_then_cached [OF marks_facts(2) sample_requests(1) sample_key marks_facts(3) q _ _ _ _ marks_facts(1) _
      sample_requests(2), of "[]" "[Data picture]" 0 "[]" None "[]" "[]" 0 "[]" "[]"] p
  show ?thesis by simp
qed

end
