(* ===== verification/Proxy_Coherent.thy ===== *)
theory Proxy_Coherent
  imports Proxy_Props Proxy_Threads
begin

text \<open>
  The cache of lab5/proxy.c while connections are served at the same time: whatever the order in which the threads
  move, a line of the cache in use holds an answer to a request with the key it is stored under, and that is what a
  thread finds for its client.
\<close>

section \<open>What one step of the protocol does\<close>

fun point_uri :: "point \<Rightarrow> string option" where
  "point_uri (R_lock uri) = Some uri" | "point_uri (R_count uri) = Some uri" | "point_uri (R_wait uri) = Some uri"
| "point_uri (R_unlock uri) = Some uri" | "point_uri (R_search uri k) = Some uri" | "point_uri (R_lock2 uri ci) = Some uri"
| "point_uri (R_leave uri ci) = Some uri" | "point_uri (R_unlock2 uri ci) = Some uri" | "point_uri (Fetching uri) = Some uri"
| "point_uri (W_wait uri buf ci) = Some uri" | "point_uri (W_update uri buf ci) = Some uri"
| "point_uri W_signal = None" | "point_uri Idle = None"

fun carried :: "point \<Rightarrow> string option" where
  \<comment> \<open>the page that the thread is about to store\<close>
  "carried (W_wait uri buf None) = Some (c_string buf)"
| "carried (W_update uri buf None) = Some (c_string buf)"
| "carried p = None"

lemma point_uri_next [simp]: "point_uri (search_next uri k c) = Some uri" "carried (search_next uri k c) = None"
  by (simp_all add: search_next_def)

lemma thread_step_moves:
  assumes "thread_step s t"
  obtains i p q where "at_point i p s" "points t = (points s)[i := q]"
    "p = Idle \<or> (\<exists>uri. p = Fetching uri) \<or>
      (point_uri q \<in> {point_uri p, None} \<and> carried q \<in> {carried p, None} \<and> p \<noteq> q)"
    "shared t = shared s \<or> (\<exists>uri buf ci. p = W_update uri buf ci \<and> writer uri buf ci (shared s) = Inr (shared t))"
  using assms
proof cases
  case (unlock2 i uri ci buf)
  then show thesis
    by (intro that [of i "R_unlock2 uri ci" "if ci = None then Fetching uri else W_wait uri buf ci"])
       (auto simp: goto_def)
next
  case (wait_writer i uri buf ci)
  then show thesis
    by (intro that [of i "W_wait uri buf ci" "W_update uri buf ci"]) (cases ci; auto simp: goto_def)+
next
  case (search i uri k)
  then show thesis
    using search_next_moves [of uri k "shared s"]
    by (intro that [of i "R_search uri k" "search_next uri k (shared s)"]) (auto simp: goto_def)
qed (rule that, assumption, simp add: goto_def, simp, force)+

section \<open>What writer stores\<close>

lemma writer_pages:
  assumes "cache_ok s" "writer uri buf ci s = Inr t"
    and pre: "case ci of None \<Rightarrow> length (c_string buf) < MAX_OBJECT_SIZE | Some i \<Rightarrow> i < usedcnt s"
  shows "cache_ok t" "usedcnt t = in_use ci s"
    "page_at t i = (if i = slot ci s \<and> ci = None then (uri, c_string buf) else page_at s i)"
proof -
  show "cache_ok t" using writer_cache_ok [OF assms(1) pre, of uri] assms(2) by auto
  obtain p where p: "ci = None \<Longrightarrow> c_string p = c_string buf" "ci \<noteq> None \<Longrightarrow> p = payload (cache s ! slot ci s)"
    and t: "t = \<lparr>cache = (cache s)[slot ci s :=
        \<lparr>name = (if ci = None then uri else name (cache s ! slot ci s)), payload = p, timestamp = gtime s\<rparr>],
      usedcnt = in_use ci s, gtime = gtime s + 1\<rparr>"
    using writer_result [OF assms(1) pre, of uri] assms(2) by auto
  show "usedcnt t = in_use ci s" by (simp add: t)
  have "case ci of None \<Rightarrow> True | Some i \<Rightarrow> i < usedcnt s" using pre by (auto split: option.splits)
  from slot_bound(1) [OF assms(1) this] p
  show "page_at t i = (if i = slot ci s \<and> ci = None then (uri, c_string buf) else page_at s i)"
    by (auto simp: t page_at_def nth_list_update)
qed

section \<open>The invariant\<close>

definition sourced :: "client list \<Rightarrow> string \<Rightarrow> string \<Rightarrow> bool" where
  \<comment> \<open>the text is an answer of a server to a request with this key, up to its first NUL\<close>
  "sourced cs uri t \<longleftrightarrow> (\<exists>c \<in> set cs. request_key c = Inr uri \<and> t = c_string (content (reply c)))"

definition client_ok :: "client \<Rightarrow> bool" where
  \<comment> \<open>the answer can be read to its end and is not empty\<close>
  "client_ok c \<longleftrightarrow> clean (reply c) \<and> content (reply c) \<noteq> [] \<and> length (object_stack c) = MAX_OBJECT_SIZE"

definition owned :: "client list \<Rightarrow> nat \<Rightarrow> nat \<Rightarrow> point \<Rightarrow> bool" where
  \<comment> \<open>what the locals of the thread say about its client, one of the first \<open>n\<close>\<close>
  "owned cs n i p \<longleftrightarrow> (\<forall>uri. point_uri p = Some uri \<longrightarrow> i < n \<and> request_key (cs ! i) = Inr uri \<and>
     (\<forall>t. carried p = Some t \<longrightarrow> sourced (take n cs) uri t))"

definition coherent :: "client list \<Rightarrow> proxy_state \<Rightarrow> bool" where
  "coherent cs s \<longleftrightarrow> (let u = inside s; c = shared u; n = arrived s in
     list_all client_ok cs \<and> threads_ok u \<and> length (points u) = length cs \<and> (\<forall>i \<in> set (parsing s). i < n) \<and>
     (\<forall>i<length cs. owned cs n i (points u ! i)) \<and>
     (\<forall>k<usedcnt c. sourced (take n cs) (fst (page_at c k)) (snd (page_at c k))))"

lemma sourced_later: "sourced (take n cs) uri t \<Longrightarrow> n \<le> m \<Longrightarrow> sourced (take m cs) uri t"
  using set_take_subset_set_take [of n m cs] by (auto simp: sourced_def)

lemma owned_later: "owned cs n i p \<Longrightarrow> n \<le> m \<Longrightarrow> owned cs m i p"
  using sourced_later by (fastforce simp: owned_def)

lemma owned_Idle [simp]: "owned cs n i Idle"
  by (simp add: owned_def)

lemma owned_move:
  "owned cs n i p \<Longrightarrow> point_uri q \<in> {point_uri p, None} \<Longrightarrow> carried q \<in> {carried p, None} \<Longrightarrow> owned cs n i q"
  by (auto simp: owned_def)

lemma owned_at: "coherent cs s \<Longrightarrow> at_point i p (inside s) \<Longrightarrow> i < length cs \<and> owned cs (arrived s) i p"
  by (auto simp: coherent_def at_point_def Let_def)

text \<open>What the loop of \<open>doit\<close> leaves in \<open>object_buf\<close>.\<close>

lemma fetch_page_text:
  assumes "client_ok c" "fetch_page c = Inr (object_buf, total_size, sent)" "total_size < MAX_OBJECT_SIZE"
  shows "c_string object_buf = c_string (content (reply c)) \<and> length (c_string object_buf) < MAX_OBJECT_SIZE"
proof -
  have f: "fetch (rio_readinitb (reply c)) (takes c) [] (object_stack c) 0 [] = Inr (object_buf, total_size, sent)"
    using assms(2) by (auto simp: fetch_page_def bindE_eq_Inr_iff)
  have "total_size = 0 + length (stream (rio_readinitb (reply c))) \<and>
      copied 0 (stream (rio_readinitb (reply c))) (object_stack c) object_buf"
    by (rule fetch_result [OF _ f]) (use assms(1,3) in \<open>simp_all add: client_ok_def\<close>)
  then have t: "total_size = length (content (reply c))" "copied 0 (content (reply c)) (object_stack c) object_buf"
    using assms(1) by (simp_all add: client_ok_def)
  have "c_string object_buf = c_string (content (reply c))"
    by (rule copied_c_string [OF t(2)]) (use assms(1) in \<open>simp add: client_ok_def\<close>)
  with t(1) assms(3) c_string_length [of "content (reply c)"] show ?thesis by simp
qed

text \<open>A thread moves to another point and the cache stays the same.\<close>

lemma coherent_goto:
  assumes "coherent cs s" "at_point i p (inside s)" "thread_step (inside s) (goto i q (inside s))" "owned cs (arrived s) i q"
    and "set xs \<subseteq> set (parsing s)"
  shows "coherent cs (s\<lparr>inside := goto i q (inside s), parsing := xs\<rparr>)"
  using assms(1,2,4,5) threads_ok_step [OF assms(3)]
  by (auto simp: coherent_def Let_def goto_def at_point_def nth_list_update)

lemma coherent_protocol:
  assumes "coherent cs s" and step: "thread_step (inside s) t"
    and still: "\<forall>i p. at_point i p (inside s) \<and> (p = Idle \<or> (\<exists>uri. p = Fetching uri)) \<longrightarrow> at_point i p t"
  shows "coherent cs (s\<lparr>inside := t\<rparr>)"
proof -
  from assms(1) have c: "list_all client_ok cs" "threads_ok (inside s)" "length (points (inside s)) = length cs"
    "\<And>i. i < length cs \<Longrightarrow> owned cs (arrived s) i (points (inside s) ! i)"
    "\<And>k. k < usedcnt (shared (inside s)) \<Longrightarrow>
       sourced (take (arrived s) cs) (fst (page_at (shared (inside s)) k)) (snd (page_at (shared (inside s)) k))" "\<forall>i \<in> set (parsing s). i < arrived s"
    by (simp_all add: coherent_def Let_def)
  obtain i p q where at: "at_point i p (inside s)" and t: "points t = (points (inside s))[i := q]"
    and m: "p = Idle \<or> (\<exists>uri. p = Fetching uri) \<or>
      (point_uri q \<in> {point_uri p, None} \<and> carried q \<in> {carried p, None} \<and> p \<noteq> q)"
    and sh: "shared t = shared (inside s) \<or>
      (\<exists>uri buf ci. p = W_update uri buf ci \<and> writer uri buf ci (shared (inside s)) = Inr (shared t))"
    by (rule thread_step_moves [OF step])
  have i: "i < length cs" "owned cs (arrived s) i p" using owned_at [OF assms(1) at] by simp_all
  have "owned cs (arrived s) i q"
  proof (cases "p = Idle \<or> (\<exists>uri. p = Fetching uri)")
    case True
    then have "at_point i p t" using still at by blast
    then show ?thesis using t i by (auto simp: at_point_def)
  next
    case False
    with m owned_move [OF i(2)] show ?thesis by blast
  qed
  then have points: "\<forall>j<length cs. owned cs (arrived s) j (points t ! j)" using c(4) t c(3) i(1) by (auto simp: nth_list_update)
  have ok: "threads_ok t" by (rule threads_ok_step [OF step c(2)])
  have "sourced (take (arrived s) cs) (fst (page_at (shared t) k)) (snd (page_at (shared t) k))" if k: "k < usedcnt (shared t)" for k
    using sh
  proof
    assume "shared t = shared (inside s)"
    then show ?thesis using c(5) k by simp
  next
    assume "\<exists>uri buf ci. p = W_update uri buf ci \<and> writer uri buf ci (shared (inside s)) = Inr (shared t)"
    then obtain uri buf ci where w: "p = W_update uri buf ci" "writer uri buf ci (shared (inside s)) = Inr (shared t)"
      by blast
    have o: "cache_ok (shared (inside s))" "point_ok (shared (inside s)) p"
      using c(2) at_point_ok [OF at] by (simp_all add: threads_ok_def)
    then have pre: "case ci of None \<Rightarrow> length (c_string buf) < MAX_OBJECT_SIZE | Some i \<Rightarrow> i < usedcnt (shared (inside s))"
      by (simp add: w(1))
    note p = writer_pages [OF o(1) w(2) pre]
    show ?thesis
    proof (cases "k = slot ci (shared (inside s)) \<and> ci = None")
      case True
      have "sourced (take (arrived s) cs) uri (c_string buf)" using i(2) True by (auto simp: w(1) owned_def)
      then show ?thesis using True by (simp add: p(3))
    next
      case False
      then have "k < usedcnt (shared (inside s))"
        using k unfolding p(2) by (auto simp: in_use_def slot_def split: if_splits)
      with False c(5) show ?thesis by (auto simp: p(3))
    qed
  qed
  with c(1,3,6) ok points show ?thesis by (simp add: coherent_def Let_def t)
qed

lemma coherent_step:
  assumes "proxy_step cs s t" "coherent cs s"
  shows "coherent cs t"
  using assms(1)
proof cases
  case (accept_one i p connfd u v)
  have "owned cs (arrived s + 1) j (points (inside s) ! j)" if "j < length cs" for j
    using assms(2) that by - (rule owned_later [where n = "arrived s"], simp_all add: coherent_def Let_def)
  moreover have "sourced (take (arrived s + 1) cs) (fst (page_at (shared (inside s)) k)) (snd (page_at (shared (inside s)) k))"
    if "k < usedcnt (shared (inside s))" for k
    using assms(2) that by - (rule sourced_later [where n = "arrived s"], simp_all add: coherent_def Let_def)
  ultimately show ?thesis using assms(2) accept_one(1,2) by (auto simp: coherent_def Let_def less_Suc_eq)
next
  case (look_up i u uri)
  have "i < arrived s" using assms(2) look_up(2) by (simp add: coherent_def Let_def)
  then have "owned cs (arrived s) i (R_lock uri)" using look_up(5) by (simp add: owned_def)
  from coherent_goto [OF assms(2) look_up(3) enter [OF look_up(3)] this set_remove1_subset] show ?thesis
    by (simp add: look_up(1))
next
  case (page_fits i uri object_buf total_size sent)
  have i: "i < length cs" "owned cs (arrived s) i (Fetching uri)" using owned_at [OF assms(2) page_fits(2)] by simp_all
  then have "client_ok (cs ! i)" using assms(2) by (simp add: coherent_def Let_def list_all_length)
  from fetch_page_text [OF this page_fits(3,4)]
  have t: "c_string object_buf = c_string (content (reply (cs ! i)))" "length (c_string object_buf) < MAX_OBJECT_SIZE"
    by blast+
  have a: "i < arrived s" "request_key (cs ! i) = Inr uri" using i(2) by (simp_all add: owned_def)
  then have "cs ! i \<in> set (take (arrived s) cs)" using i(1) by (auto simp: in_set_conv_nth intro!: exI [of _ i])
  then have "sourced (take (arrived s) cs) uri (c_string object_buf)" using a(2) by (auto simp: sourced_def t(1))
  then have "owned cs (arrived s) i (W_wait uri object_buf None)" using i(2) by (simp add: owned_def)
  from coherent_goto [OF assms(2) page_fits(2) fetched [OF page_fits(2) t(2)] this, of "parsing s"] page_fits(1)
  show ?thesis by simp
next
  case (page_large i uri object_buf total_size sent)
  from coherent_goto [OF assms(2) page_large(2) too_large [OF page_large(2)] owned_Idle, of "parsing s"] page_large(1)
  show ?thesis by simp
next
  case (protocol t)
  then show ?thesis using coherent_protocol [OF assms(2)] by simp
qed

interpretation proxy: step_system
  "\<lambda>s. list_all client_ok cs \<and> (\<exists>argc addrs listens junk. main argc addrs listens junk (length cs) = Inr s \<and>
     length junk = MAX_OBJECT_SIZE)"
  "proxy_step cs" "coherent cs" for cs
proof unfold_locales
  fix s
  assume "list_all client_ok cs \<and> (\<exists>argc addrs listens junk. main argc addrs listens junk (length cs) = Inr s \<and>
     length junk = MAX_OBJECT_SIZE)"
  then obtain junk where s: "list_all client_ok cs" "inside s = threads_init (length cs) junk" "length junk = MAX_OBJECT_SIZE"
    "parsing s = []"
    by (auto simp: main_def bindE_eq_Inr_iff split: if_splits)
  have "threads_ok (inside s)" unfolding s(2) by (rule reachable_ok [OF s(3) rtranclp.rtrancl_refl])
  moreover have "usedcnt (shared (inside s)) = 0" by (simp add: s(2) threads_init_def initialize_cache_def)
  moreover have "points (inside s) = replicate (length cs) Idle" by (simp add: s(2) threads_init_def)
  ultimately show "coherent cs s" using s(1,4) by (simp add: coherent_def Let_def)
qed (rule coherent_step)

section \<open>Property\<close>

text \<open>
  C16: the cache never mixes pages up, in whatever order the threads of all the connections move. In every
  reachable state of the proxy, each line of the cache in use holds an answer that a server gave to one of the
  requests accepted so far with the key of that line, up to the first NUL of the answer; and the line that a
  thread finds is such a line for the key of its own client's request. The answers are not empty (after an
  empty one the proxy stores what happens to be on the stack), and end without a read error.
\<close>
theorem cache_coherent:
  assumes "main argc addrs listens junk (length cs) = Inr s0" "length junk = MAX_OBJECT_SIZE" "list_all client_ok cs"
    and "(proxy_step cs)\<^sup>*\<^sup>* s0 s"
  shows "(\<forall>k < usedcnt (shared (inside s)).
      sourced (take (arrived s) cs) (fst (page_at (shared (inside s)) k)) (snd (page_at (shared (inside s)) k))) \<and>
    (\<forall>i uri k. at_point i (R_leave uri (Some k)) (inside s) \<longrightarrow>
      request_key (cs ! i) = Inr uri \<and> sourced (take (arrived s) cs) uri (c_string (payload (cache (shared (inside s)) ! k))))"
proof -
  have c: "coherent cs s" by (rule proxy.inv_reachable [OF _ assms(4)]) (use assms(1-3) in blast)
  then have t: "threads_ok (inside s)" and p: "\<forall>k < usedcnt (shared (inside s)).
      sourced (take (arrived s) cs) (fst (page_at (shared (inside s)) k)) (snd (page_at (shared (inside s)) k))"
    by (simp_all add: coherent_def Let_def)
  have "request_key (cs ! i) = Inr uri \<and> sourced (take (arrived s) cs) uri (c_string (payload (cache (shared (inside s)) ! k)))"
    if at: "at_point i (R_leave uri (Some k)) (inside s)" for i uri k
  proof -
    have "point_ok (shared (inside s)) (R_leave uri (Some k))" "cache_ok (shared (inside s))"
      using t at_point_ok [OF at] by (simp_all add: threads_ok_def)
    then have "k < usedcnt (shared (inside s))" "fst (page_at (shared (inside s)) k) = uri"
      using find_name_eq_Some [of "usedcnt (shared (inside s))" "cache (shared (inside s))" uri k]
      by (simp_all add: fst_reader cache_ok_def page_at_def)
    with p owned_at [OF c at] show ?thesis by (auto simp: owned_def page_at_def)
  qed
  with p show ?thesis by blast
qed

section \<open>A sample run\<close>

definition visitor :: client where
  "visitor = \<lparr>cell = Some 1, accepted = 4, named = 0, created = 0, detached = 0,
     request = [Data (''GET http://h:80/x HTTP/1.1'' @ crlf @ crlf)], takes = [], addresses = route,
     server_takes = [], reply = [Data ''page''], stack = [], object_stack = blank\<rparr>"

lemma visitor_request:
  "parse_request (request visitor) = Inr (\<lparr>hostname = ''h'', port = ''80'', path = ''/x''\<rparr>, [])"
  unfolding visitor_def client.simps by (rule sample_requests(1))

lemma visitor_facts: "client_ok visitor" "request_key visitor = Inr ''h/x''" "c_string (content (reply visitor)) = ''page''"
  by (simp_all add: request_key_def visitor_request sample_key)
     (simp_all add: client_ok_def visitor_def blank_length c_string_def)

lemma visitor_fetch: "\<exists>ob ps. fetch_page visitor = Inr (ob, 4, ps)"
proof -
  obtain req where "send_to_server route [] [] \<lparr>hostname = ''h'', port = ''80'', path = ''/x''\<rparr> [] = Inr req"
    using sample_send by blast
  moreover have "\<exists>ob' ps. fetch (rio_readinitb [Data ''page'']) [] [] blank 0 [] =
      Inr (ob', 0 + length (stream (rio_readinitb [Data ''page''])), [] @ ps) \<and>
      concat ps = stream (rio_readinitb [Data ''page'']) \<and> copied 0 (stream (rio_readinitb [Data ''page''])) blank ob'"
    by (rule fetch_copies) (simp_all add: blank_length MAX_OBJECT_SIZE_def)
  ultimately show ?thesis unfolding fetch_page_def visitor_request by (auto simp: visitor_def)
qed

definition alone :: "threads \<Rightarrow> proxy_state" where
  "alone u = \<lparr>inside = u, arrived = 1, parsing = []\<rparr>"

lemma alone_protocol:
  assumes "thread_step (pair p m w r) u" "at_point 1 Idle u" "p \<noteq> Idle" "\<And>uri. p \<noteq> Fetching uri"
  shows "proxy_step cs (alone (pair p m w r)) (alone u)"
proof -
  have "proxy_step cs (alone (pair p m w r)) ((alone (pair p m w r))\<lparr>inside := u\<rparr>)"
    by (rule protocol) (use assms in \<open>auto simp: alone_def at_point_def pair_def less_Suc_eq\<close>)
  then show ?thesis by (simp add: alone_def)
qed

lemma pair_idle: "at_point 1 Idle (pair p m w r)"
  by (simp add: at_point_def pair_def)

lemmas alone_then =
  pair_step(2-9) [THEN alone_protocol, OF pair_idle, THEN converse_rtranclp_into_rtranclp [where r = "proxy_step cs" for cs],
    unfolded One_nat_def]

theorem cache_coherent_witness:
  "\<exists>s0 s. main 2 route True blank 2 = Inr s0 \<and> (proxy_step [visitor, visitor])\<^sup>*\<^sup>* s0 s \<and>
     usedcnt (shared (inside s)) = 1 \<and> page_at (shared (inside s)) 0 = (''h/x'', ''page'')"
proof -
  let ?cs = "[visitor, visitor]"
  obtain ob ps where f: "fetch_page visitor = Inr (ob, 4, ps)" using visitor_fetch by blast
  have t: "length (c_string ob) < MAX_OBJECT_SIZE"
    using conjunct2 [OF fetch_page_text [OF visitor_facts(1) f]] by (simp add: MAX_OBJECT_SIZE_def)
  have "in_use None (initialize_cache blank) = 1" by (simp add: in_use_def initialize_cache_def NUM_CACHE_LINE_def)
  moreover obtain c where w: "writer ''h/x'' ob None (initialize_cache blank) = Inr c"
    using writer_cache_ok [OF cache_ok_init [OF blank_length], where ci = None and buf = ob and uri = "''h/x''"] t by auto
  ultimately have u: "usedcnt c = 1" using writer_pages(2) [OF cache_ok_init [OF blank_length] w] t by simp
  let ?s0 = "\<lparr>inside = pair Idle 1 1 0, arrived = 0, parsing = []\<rparr>"
  let ?t = "goto 0 W_signal ((pair (W_update ''h/x'' ob None) 1 0 0)\<lparr>shared := c\<rparr>)"
  have m: "main 2 route True blank 2 = Inr ?s0"
    by (simp add: main_def Open_listenfd_def open_listenfd_def route_def pair_init)
  have s1: "proxy_step ?cs ?s0 (?s0\<lparr>arrived := 0 + 1, parsing := 0 # parsing ?s0\<rparr>)"
    by (rule accept_one) (simp_all add: visitor_def Malloc_def Accept_def Getnameinfo_def Pthread_create_def)
  have s2: "proxy_step ?cs (?s0\<lparr>arrived := 0 + 1, parsing := 0 # parsing ?s0\<rparr>) (alone (pair (R_lock ''h/x'') 1 1 0))"
    using look_up [of 0 "?s0\<lparr>arrived := 0 + 1, parsing := 0 # parsing ?s0\<rparr>" ?cs _ "''h/x''"] visitor_facts(2)
    by (simp add: pair_at visitor_def Pthread_detach_def alone_def) (simp add: pair_def goto_def)
  have s3: "(proxy_step ?cs)\<^sup>*\<^sup>* (alone (pair (R_lock ''h/x'') 1 1 0)) (alone (pair (Fetching ''h/x'') 1 1 0))"
    unfolding One_nat_def
    by (rule alone_then(1), (simp; fail)+, rule alone_then(2), (simp; fail)+, rule alone_then(3), (simp; fail)+,
        rule alone_then(4), (simp; fail)+, rule alone_then(5), (simp; fail)+, rule alone_then(6), (simp; fail)+,
        rule alone_then(7), (simp; fail)+, rule alone_then(8), (simp; fail)+)
  have s4: "proxy_step ?cs (alone (pair (Fetching ''h/x'') 1 1 0)) (alone (pair (W_wait ''h/x'' ob None) 1 1 0))"
    using page_fits [of 0 "''h/x''" "alone (pair (Fetching ''h/x'') 1 1 0)" ?cs ob 4 ps] f
    by (simp add: alone_def pair_at MAX_OBJECT_SIZE_def) (simp add: pair_def goto_def)
  have s5: "proxy_step ?cs (alone (pair (W_wait ''h/x'' ob None) 1 1 0)) (alone (pair (W_update ''h/x'' ob None) 1 0 0))"
    by (rule alone_protocol [OF _ pair_idle]) (use pair_step(11) [of "''h/x''" ob None 1 0 0] in simp_all)
  have s6: "proxy_step ?cs (alone (pair (W_update ''h/x'' ob None) 1 0 0)) (alone ?t)"
    by (rule alone_protocol)
       (use update [of 0 "''h/x''" ob None "pair (W_update ''h/x'' ob None) 1 0 0" c] w in
         \<open>simp_all add: pair_at, simp_all add: pair_def at_point_def goto_def\<close>)
  have run: "(proxy_step ?cs)\<^sup>*\<^sup>* ?s0 (alone ?t)"
    using converse_rtranclp_into_rtranclp [OF s1 converse_rtranclp_into_rtranclp [OF s2 s3]] s4 s5 s6
    by (rule rtranclp.rtrancl_into_rtrancl [OF rtranclp.rtrancl_into_rtrancl [OF rtranclp.rtrancl_into_rtrancl]])
  have "length ?cs = 2" "list_all client_ok ?cs" using visitor_facts(1) by simp_all
  from cache_coherent [where cs = ?cs, unfolded this(1), OF m blank_length this(2) run]
  have "sourced (take 1 ?cs) (fst (page_at c 0)) (snd (page_at c 0))" using u by (simp add: alone_def)
  then have "page_at c 0 = (''h/x'', ''page'')" using visitor_facts(2,3) by (auto simp: sourced_def prod_eq_iff)
  with m run u show ?thesis by (intro exI [of _ ?s0] exI [of _ "alone ?t"]) (simp add: alone_def)
qed

end
