(* ===== verification/Tiny.thy ===== *)
theory Tiny
  imports Rio
begin

text \<open>
  lab5/tiny: the Tiny web server, one connection from request to answer, and the CGI program
  cgi-bin/adder.c. What \<open>stat\<close> says of a file and the file's content are a parameter, and so are
  what a CGI program writes and what the system functions return. The loop over the request headers may run for ever, so the results
  are options.
\<close>

section \<open>Answers\<close>

fun send_all :: "string list \<Rightarrow> write_event list \<Rightarrow> fault + string list \<times> write_event list" where
  \<comment> \<open>successive \<open>sprintf (buf, ...)\<close> and \<open>Rio_writen (fd, buf, strlen (buf))\<close>\<close>
  "send_all [] snk = Inr ([], snk)"
| "send_all (t # ts) snk =
     bindE (copy_to MAXLINE t) (\<lambda>buf.
     bindE (Rio_writen snk buf) (\<lambda>(ps, snk).
     bindE (send_all ts snk) (\<lambda>(qs, snk). Inr (ps @ qs, snk))))"

definition error_page :: "string \<Rightarrow> string \<Rightarrow> string \<Rightarrow> string \<Rightarrow> string list" where
  "error_page cause errnum shortmsg longmsg =
     [''HTTP/1.0 '' @ errnum @ '' '' @ shortmsg @ crlf,
      ''Content-type: text/html'' @ crlf @ crlf,
      ''<html><title>Tiny Error</title>'',
      ''<body bgcolor=ffffff>'' @ crlf,
      errnum @ '': '' @ shortmsg @ crlf,
      ''<p>'' @ longmsg @ '': '' @ cause @ crlf,
      ''<hr><em>The Tiny Web server</em>'' @ crlf]"

definition clienterror :: "write_event list \<Rightarrow> string \<Rightarrow> string \<Rightarrow> string \<Rightarrow> string \<Rightarrow> fault + string list" where
  "clienterror snk cause errnum shortmsg longmsg =
     bindE (send_all (error_page cause errnum shortmsg longmsg) snk) (\<lambda>(ps, snk). Inr ps)"

definition get_filetype :: "string \<Rightarrow> string" where
  "get_filetype filename =
     (if strstr filename ''.html'' \<noteq> None then ''text/html''
      else if strstr filename ''.gif'' \<noteq> None then ''image/gif''
      else if strstr filename ''.png'' \<noteq> None then ''image/png''
      else if strstr filename ''.jpg'' \<noteq> None then ''image/jpeg''
      else ''text/plain'')"

definition c_int :: "int \<Rightarrow> i32" where
  \<comment> \<open>the conversion to \<open>int\<close>\<close>
  "c_int i = word_of_int i"

text \<open>What the system functions return that are called to answer a request.\<close>

record system_calls =
  srcfd :: int        \<comment> \<open>\<open>open\<close>\<close>
  srcp :: int         \<comment> \<open>\<open>mmap\<close>, if the length is not zero\<close>
  src_closed :: int   \<comment> \<open>\<open>close (srcfd)\<close>\<close>
  unmapped :: int     \<comment> \<open>\<open>munmap\<close>\<close>
  child :: int        \<comment> \<open>\<open>fork\<close> in the parent\<close>
  duplicated :: int   \<comment> \<open>\<open>dup2\<close> in the child\<close>
  executed :: int     \<comment> \<open>\<open>execve\<close> in the child; not negative for success, when it does not return\<close>
  waited :: int       \<comment> \<open>\<open>wait\<close>\<close>

record file_info =
  regular :: bool      \<comment> \<open>\<open>S_ISREG\<close>\<close>
  readable :: bool     \<comment> \<open>\<open>S_IRUSR\<close>\<close>
  executable :: bool   \<comment> \<open>\<open>S_IXUSR\<close>\<close>
  bytes :: string

definition static_headers :: "string \<Rightarrow> i32 \<Rightarrow> string list" where
  "static_headers filename filesize =
     [''HTTP/1.0 200 OK'' @ crlf,
      ''Server: Tiny Web Server'' @ crlf,
      ''Content-length: '' @ show_int (sint filesize) @ crlf,
      ''Content-type: '' @ get_filetype filename @ crlf @ crlf]"

definition serve_static :: "system_calls \<Rightarrow> write_event list \<Rightarrow> string \<Rightarrow> string \<Rightarrow> fault + string list" where
  \<comment> \<open>\<open>mmap\<close> fails for a length of zero and for the unsigned value of a negative \<open>filesize\<close>\<close>
  "serve_static k snk filename content =
     (let filesize = c_int (int (length content)) in
      bindE (send_all (static_headers filename filesize) snk) (\<lambda>(ps, snk).
      bindE (Open (srcfd k)) (\<lambda>fd.
      bindE (Mmap (if 0 < sint filesize then srcp k else -1)) (\<lambda>p.
      bindE (Close (src_closed k)) (\<lambda>_.
      bindE (Rio_writen snk (take (nat (sint filesize)) content)) (\<lambda>(qs, snk).
      bindE (Munmap (unmapped k)) (\<lambda>_.
      Inr (ps @ qs))))))))"

definition cgi_child :: "(string \<Rightarrow> string \<Rightarrow> string list) \<Rightarrow> system_calls \<Rightarrow> string \<Rightarrow> string \<Rightarrow> string list" where
  \<comment> \<open>what the child writes to the connection; an error ends the child only\<close>
  "cgi_child cgi k filename cgiargs =
     (case bindE (Dup2 (duplicated k)) (\<lambda>_. Execve (executed k)) of
        Inl e \<Rightarrow> []
      | Inr _ \<Rightarrow> cgi filename cgiargs)"

definition serve_dynamic ::
  "(string \<Rightarrow> string \<Rightarrow> string list) \<Rightarrow> system_calls \<Rightarrow> write_event list \<Rightarrow> string \<Rightarrow> string \<Rightarrow> fault + string list" where
  \<comment> \<open>the parent waits until the child has ended\<close>
  "serve_dynamic cgi k snk filename cgiargs =
     bindE (send_all [''HTTP/1.0 200 OK'' @ crlf, ''Server: Tiny Web Server'' @ crlf] snk) (\<lambda>(ps, snk).
     bindE (Fork (child k)) (\<lambda>_.
     let out = cgi_child cgi k filename cgiargs in
     bindE (Wait (waited k)) (\<lambda>_.
     Inr (ps @ out))))"

section \<open>Requests\<close>

definition tolower :: "char \<Rightarrow> char" where
  "tolower c = (let n = of_char c :: nat in if 65 \<le> n \<and> n \<le> 90 then char_of (n + 32) else c)"

definition strcasecmp_eq :: "string \<Rightarrow> string \<Rightarrow> bool" where
  \<comment> \<open>\<open>strcasecmp\<close> returns 0\<close>
  "strcasecmp_eq s t \<longleftrightarrow> map tolower s = map tolower t"

partial_function (option) header_loop :: "rio_t \<Rightarrow> string \<Rightarrow> (fault + rio_t) option" where
  "header_loop rp buf =
     (if c_string buf = crlf then Some (Inr rp)
      else case Rio_readlineb rp MAXLINE buf of
        Inl e \<Rightarrow> Some (Inl e)
      | Inr (n, buf, rp) \<Rightarrow> header_loop rp buf)"

definition read_requesthdrs :: "string \<Rightarrow> rio_t \<Rightarrow> (fault + rio_t) option" where
  \<comment> \<open>the first argument is what the buffer on the stack holds\<close>
  "read_requesthdrs junk rp =
     (case Rio_readlineb rp MAXLINE junk of
        Inl e \<Rightarrow> Some (Inl e)
      | Inr (n, buf, rp) \<Rightarrow> header_loop rp buf)"

definition parse_uri :: "string \<Rightarrow> fault + bool \<times> string \<times> string" where
  \<comment> \<open>whether the content is static, the file name and the arguments\<close>
  "parse_uri uri =
     (if strstr uri ''cgi-bin'' = None
      then bindE (copy_to MAXLINE (''.'' @ uri)) (\<lambda>filename.
           if uri = [] then Inl OutOfBounds
           else if last uri = CHR ''/''
           then bindE (copy_to MAXLINE (filename @ ''home.html'')) (\<lambda>filename. Inr (True, filename, []))
           else Inr (True, filename, []))
      else let (uri, cgiargs) = (case strchr uri (CHR ''?'') of None \<Rightarrow> (uri, [])
             | Some i \<Rightarrow> (take i uri, drop (Suc i) uri)) in
           bindE (copy_to MAXLINE (''.'' @ uri)) (\<lambda>filename. Inr (False, filename, cgiargs)))"

definition answer_request ::
  "(string \<Rightarrow> file_info option) \<Rightarrow> (string \<Rightarrow> string \<Rightarrow> string list) \<Rightarrow> system_calls \<Rightarrow> write_event list \<Rightarrow> string \<Rightarrow> fault + string list" where
  \<comment> \<open>the part of \<open>doit\<close> after the headers\<close>
  "answer_request stat cgi k snk uri =
     bindE (parse_uri uri) (\<lambda>(is_static, filename, cgiargs).
     case stat filename of
       None \<Rightarrow> clienterror snk filename ''404'' ''Not found'' ''Tiny couldn't find this file''
     | Some sbuf \<Rightarrow>
         if is_static
         then if \<not> regular sbuf \<or> \<not> readable sbuf
              then clienterror snk filename ''403'' ''Forbidden'' ''Tiny couldn't read the file''
              else serve_static k snk filename (bytes sbuf)
         else if \<not> regular sbuf \<or> \<not> executable sbuf
              then clienterror snk filename ''403'' ''Forbidden'' ''Tiny couldn't run the CGI program''
              else serve_dynamic cgi k snk filename cgiargs)"

definition doit ::
  "(string \<Rightarrow> file_info option) \<Rightarrow> (string \<Rightarrow> string \<Rightarrow> string list) \<Rightarrow> system_calls \<Rightarrow> string \<Rightarrow> read_event list \<Rightarrow> write_event list \<Rightarrow>
   (fault + string list) option" where
  \<comment> \<open>returns what the client is sent; \<open>None\<close> is a request that is never answered\<close>
  "doit stat cgi k junk client snk =
     (case Rio_readlineb (rio_readinitb client) MAXLINE [] of
        Inl e \<Rightarrow> Some (Inl e)
      | Inr (n, buf, rio) \<Rightarrow>
          if n = 0 then Some (Inr [])
          else case scan_words (c_string buf) of
            [] \<Rightarrow> Some (Inl Uninitialised)
          | method # ws \<Rightarrow>
              if \<not> strcasecmp_eq method ''GET''
              then Some (clienterror snk method ''501'' ''Not Implemented'' ''Tiny does not implement this method'')
              else case read_requesthdrs junk rio of
                  None \<Rightarrow> None
                | Some (Inl e) \<Rightarrow> Some (Inl e)
                | Some (Inr rio) \<Rightarrow>
                    case ws of [] \<Rightarrow> Some (Inl Uninitialised)
                    | uri # rest \<Rightarrow> Some (answer_request stat cgi k snk uri))"

text \<open>
  The server takes one connection after the other. A connection is what the system functions return
  for it, with the scripts of its socket.
\<close>

record connection =
  accepted :: int
  named :: int      \<comment> \<open>\<open>getnameinfo\<close>\<close>
  closed :: int
  request :: "read_event list"
  takes :: "write_event list"
  calls :: system_calls
  stack :: string

fun serve ::
  "(string \<Rightarrow> file_info option) \<Rightarrow> (string \<Rightarrow> string \<Rightarrow> string list) \<Rightarrow> connection list \<Rightarrow> (fault + string list list) option" where
  \<comment> \<open>the loop of \<open>main\<close>\<close>
  "serve stat cgi [] = Some (Inr [])"
| "serve stat cgi (c # cs) =
     bindO (Some (Accept (accepted c))) (\<lambda>connfd.
     bindO (Some (Getnameinfo (named c))) (\<lambda>_.
     bindO (doit stat cgi (calls c) (stack c) (request c) (takes c)) (\<lambda>ps.
     bindO (Some (Close (closed c))) (\<lambda>_.
     bindO (serve stat cgi cs) (\<lambda>pss. Some (Inr (ps # pss)))))))"

definition main ::
  "(string \<Rightarrow> file_info option) \<Rightarrow> (string \<Rightarrow> string \<Rightarrow> string list) \<Rightarrow> nat \<Rightarrow> attempt list option \<Rightarrow> bool \<Rightarrow>
   connection list \<Rightarrow> (fault + string list list) option" where
  "main stat cgi argc addrs listens cs =
     (if argc \<noteq> 2 then Some (Inl (Exit 1))
      else bindO (Some (Open_listenfd addrs listens)) (\<lambda>listenfd. serve stat cgi cs))"

section \<open>adder.c\<close>

text \<open>
  Three of the four calls of \<open>sprintf\<close> that make the content pass the buffer \<open>content\<close> that they write to as an
  argument for \<open>%s\<close>, too. C leaves undefined what they do, so it is a parameter: \<open>overlap c t\<close> is what
  \<open>sprintf (content, "%s...", content, ...)\<close> does when the buffer holds \<open>c\<close> and \<open>t\<close> is the text of the rest of the
  format.
\<close>

definition sprintf_onto :: "(string \<Rightarrow> string \<Rightarrow> fault + string) \<Rightarrow> string \<Rightarrow> string \<Rightarrow> fault + string" where
  "sprintf_onto overlap c t = bindE (overlap c t) (copy_to MAXLINE)"

definition adder_content :: "(string \<Rightarrow> string \<Rightarrow> fault + string) \<Rightarrow> i32 \<Rightarrow> i32 \<Rightarrow> fault + string" where
  "adder_content overlap n1 n2 =
     bindE (sprintf_onto overlap ''Welcome to add.com: '' (''THE Internet addition portal.'' @ crlf @ ''<p>'')) (\<lambda>c.
     if \<not> in_int (sint n1 + sint n2) then Inl Overflow
     else
       bindE (sprintf_onto overlap c (''The answer is: '' @ show_int (sint n1) @ '' + '' @ show_int (sint n2) @
         '' = '' @ show_int (sint n1 + sint n2) @ crlf @ ''<p>'')) (\<lambda>c.
       sprintf_onto overlap c (''Thanks for visiting!'' @ crlf)))"

definition adder :: "(string \<Rightarrow> string \<Rightarrow> fault + string) \<Rightarrow> string option \<Rightarrow> fault + string" where
  \<comment> \<open>from the value of \<open>QUERY_STRING\<close>, what the program prints\<close>
  "adder overlap query =
     bindE (case query of None \<Rightarrow> Inr (0, 0)
       | Some buf \<Rightarrow> (case strchr buf (CHR ''&'') of None \<Rightarrow> Inl NullDeref
         | Some i \<Rightarrow>
             bindE (copy_to MAXLINE (take i buf)) (\<lambda>arg1.
             bindE (copy_to MAXLINE (drop (Suc i) buf)) (\<lambda>arg2.
             Inr (c_int (atoi arg1), c_int (atoi arg2)))))) (\<lambda>(n1, n2).
     bindE (adder_content overlap n1 n2) (\<lambda>content.
     Inr (''Connection: close'' @ crlf @ ''Content-length: '' @ show_nat (length content) @ crlf @
          ''Content-type: text/html'' @ crlf @ crlf @ content)))"

end
