(* ===== verification/Tiny_Props.thy ===== *)
theory Tiny_Props
  imports Tiny Rio_Props
begin

text \<open>
  The Tiny web server of lab5/tiny: what it sends for a file, the requests it never answers, the sums
  of adder.c, and the server with adder.c as its program.
\<close>

section \<open>Request headers\<close>

definition header_line_ok :: "string \<Rightarrow> bool" where
  \<comment> \<open>a line of a request, without its newline, that does not end the headers\<close>
  "header_line_ok l \<longleftrightarrow> newline \<notin> set l \<and> CHR 0x00 \<notin> set l \<and> l \<noteq> [carriage_return] \<and> Suc (length l) < MAXLINE"

definition lines_text :: "string list \<Rightarrow> string" where
  "lines_text ls = concat (map (\<lambda>l. l @ [newline]) ls)"

lemma header_line_c_string: "header_line_ok l \<Longrightarrow> c_string (l @ [newline]) = l @ [newline] \<and> l @ [newline] \<noteq> crlf"
  by (auto simp: header_line_ok_def c_string_id)

text \<open>One line is read in one round.\<close>

lemma header_loop_lines:
  assumes "rio_ok rp" "stream rp = lines_text ls @ rest" "list_all header_line_ok ls" "c_string buf \<noteq> crlf"
  obtains rp' buf' where "header_loop rp buf = header_loop rp' buf'" "rio_ok rp'" "stream rp' = rest"
    "c_string buf' \<noteq> crlf"
  using assms
proof (induction ls arbitrary: rp buf thesis)
  case Nil
  show ?case by (rule Nil(1) [of rp buf]) (use Nil in \<open>simp_all add: lines_text_def\<close>)
next
  case (Cons l ls)
  have l: "header_line_ok l" using Cons.prems(4) by simp
  have s: "stream rp = l @ newline # (lines_text ls @ rest)" using Cons.prems(3) by (simp add: lines_text_def)
  obtain t where t: "Rio_readlineb rp MAXLINE buf = Inr (Suc (length l), l @ [newline], t)" "rio_ok t"
    "stream t = lines_text ls @ rest"
    by (rule Rio_readlineb_line [OF Cons.prems(2) s, of MAXLINE buf]) (use l in \<open>simp_all add: header_line_ok_def\<close>)
  have "header_loop rp buf = header_loop t (l @ [newline])"
    using Cons.prems(5) t(1) by (simp add: header_loop.simps [of rp])
  moreover have "c_string (l @ [newline]) \<noteq> crlf" "list_all header_line_ok ls"
    using header_line_c_string [OF l] Cons.prems(4) by simp_all
  ultimately show ?case using Cons.IH [OF _ t(2,3)] Cons.prems(1) by metis
qed

lemma header_loop_end:
  assumes "rio_ok rp" "stream rp = crlf @ body" "c_string buf \<noteq> crlf"
  obtains rp' where "header_loop rp buf = Some (Inr rp')" "rio_ok rp'" "stream rp' = body"
proof -
  have s: "stream rp = [carriage_return] @ newline # body" using assms(2) by simp
  obtain t where t: "Rio_readlineb rp MAXLINE buf = Inr (Suc (length [carriage_return]), [carriage_return] @ [newline], t)"
    "rio_ok t" "stream t = body"
    by (rule Rio_readlineb_line [OF assms(1) s, of MAXLINE buf]) (auto simp: MAXLINE_def)
  have "c_string crlf = crlf" by (simp add: c_string_def)
  with t(1) assms(3) have "header_loop rp buf = Some (Inr t)"
    by (simp add: header_loop.simps [of rp] header_loop.simps [of t])
  with t show thesis using that by blast
qed

text \<open>At the end of the file the loop goes round for ever.\<close>

definition dead :: "rio_t \<Rightarrow> string \<Rightarrow> bool" where
  "dead rp buf \<longleftrightarrow> rio_ok rp \<and> stream rp = [] \<and> c_string buf \<noteq> crlf"

definition alive :: "rio_t \<Rightarrow> string \<Rightarrow> fault + rio_t \<Rightarrow> bool" where
  "alive rp buf r \<longleftrightarrow> \<not> dead rp buf"

lemma header_loop_alive: "header_loop rp buf = Some r \<Longrightarrow> alive rp buf r"
proof (erule header_loop.raw_induct [where P = alive, rotated])
  fix loop rp buf r
  assume IH: "\<And>rp buf r. loop rp buf = Some r \<Longrightarrow> alive rp buf r"
    and loop: "(if c_string buf = crlf then Some (Inr rp) else case Rio_readlineb rp MAXLINE buf of
        Inl e \<Rightarrow> Some (Inl e) | Inr (n, buf, rp) \<Rightarrow> loop rp buf) = Some r"
  show "alive rp buf r"
    unfolding alive_def
  proof
    assume d: "dead rp buf"
    have m: "2 \<le> MAXLINE" by (simp add: MAXLINE_def)
    obtain t where "Rio_readlineb rp MAXLINE buf = Inr (0, buf, t)" "rio_ok t" "stream t = []"
      by (rule Rio_readlineb_end [OF _ m, of rp buf]) (use d in \<open>simp_all add: dead_def\<close>)
    with d loop IH [of t buf r] show False by (simp add: dead_def alive_def)
  qed
qed

lemma header_loop_dead: "dead rp buf \<Longrightarrow> header_loop rp buf = None"
  using header_loop_alive [of rp buf] by (cases "header_loop rp buf") (auto simp: alive_def)

text \<open>What the buffer on the stack holds matters only if nothing can be read.\<close>

lemma read_requesthdrs_loop:
  assumes "rio_ok rp" "stream rp \<noteq> [] \<or> c_string junk \<noteq> crlf"
  shows "read_requesthdrs junk rp = header_loop rp (if stream rp = [] then junk else [])"
proof (cases "stream rp = []")
  case True
  then show ?thesis using assms(2) by (simp add: read_requesthdrs_def header_loop.simps [of rp])
next
  case False
  obtain l r where "fgets_chars (MAXLINE - 1) (stream rp) = (l, r)" by fastforce
  with False obtain t where "rio_readlineb rp MAXLINE = (Line l, t)"
    using rio_readlineb_stream [OF assms(1), of MAXLINE] by (auto simp: MAXLINE_def fgets_def)
  then show ?thesis using False
    by (simp add: read_requesthdrs_def header_loop.simps [of rp] Rio_readlineb_def c_string_def)
qed

lemma read_requesthdrs_all:
  assumes "rio_ok rp" "stream rp = lines_text ls @ crlf @ body" "list_all header_line_ok ls"
  obtains rp' where "read_requesthdrs junk rp = Some (Inr rp')"
proof -
  have "stream rp \<noteq> []" using assms(2) by simp
  then have r: "read_requesthdrs junk rp = header_loop rp []"
    using read_requesthdrs_loop [OF assms(1)] by simp
  have "c_string [] \<noteq> crlf" by (simp add: c_string_def)
  then obtain rp' buf' where p: "header_loop rp [] = header_loop rp' buf'" "rio_ok rp'" "stream rp' = crlf @ body"
    "c_string buf' \<noteq> crlf"
    by (rule header_loop_lines [OF assms])
  obtain rp'' where "header_loop rp' buf' = Some (Inr rp'')" by (rule header_loop_end [OF p(2-4)])
  with p(1) r show thesis using that by simp
qed

section \<open>Integers\<close>

lemma sint_c_int: "in_int i \<Longrightarrow> sint (c_int i) = i"
  by (simp add: in_int_def c_int_def sint_sbintrunc' signed_take_bit_int_eq_self)

lemma in_int_sint: "in_int (sint (n :: i32))"
  using sint_range_size [of n] by (simp add: in_int_def word_size)

lemma show_int_length: "in_int i \<Longrightarrow> length (show_int i) \<le> Suc 10"
proof -
  assume i: "in_int i"
  have n: "length (show_nat n) \<le> Suc 9" if "n \<le> 2 ^ 31" for n
    by (rule show_nat_length) (use that in simp)
  have "nat i \<le> 2 ^ 31" "nat (- i) \<le> 2 ^ 31" using i by (auto simp: in_int_def)
  from n [OF this(1)] n [OF this(2)] show ?thesis
    by (simp add: show_int_def)
qed

section \<open>Answers\<close>

lemma send_all_concat:
  assumes "WFailed \<notin> set snk" "list_all (\<lambda>t. length t < MAXLINE) ts"
  obtains ps rest where "send_all ts snk = Inr (ps, rest)" "concat ps = concat ts" "WFailed \<notin> set rest"
  using assms
proof (induction ts arbitrary: snk thesis)
  case Nil
  then show ?case by simp
next
  case (Cons t ts)
  obtain ps snk' where w: "Rio_writen snk t = Inr (ps, snk')" "concat ps = t" "WFailed \<notin> set snk'"
    by (rule Rio_writen_all [OF Cons.prems(2)])
  obtain qs rest where "send_all ts snk' = Inr (qs, rest)" "concat qs = concat ts" "WFailed \<notin> set rest"
    using Cons.IH [OF _ w(3)] Cons.prems(3) by auto
  with w Cons.prems show ?case by (simp add: copy_to_def)
qed

lemma get_filetype_length: "length (get_filetype f) \<le> 10"
  by (simp add: get_filetype_def)

lemma doit_GET:
  assumes "clean client" "content client = a @ '' '' @ uri @ '' '' @ v @ crlf @ rest"
    and "word a" "word uri" "word v" "length (a @ uri @ v) + 4 < MAXLINE" "strcasecmp_eq a ''GET''"
  obtains t where "rio_ok t" "stream t = rest"
    "doit stat cgi k junk client snk = (case read_requesthdrs junk t of None \<Rightarrow> None
       | Some (Inl e) \<Rightarrow> Some (Inl e) | Some (Inr rio) \<Rightarrow> Some (answer_request stat cgi k snk uri))"
proof (rule read_request_line [OF assms(1-6)])
  fix l t
  assume "Rio_readlineb (rio_readinitb client) MAXLINE [] = Inr (Suc (length l), l @ [newline], t)" "rio_ok t"
    "stream t = rest" "scan_words (c_string (l @ [newline])) = [a, uri, v]"
  then show thesis using assms(7)
    by (intro that [of t]) (simp_all add: doit_def split: option.split sum.split)
qed

definition calls_ok :: "system_calls \<Rightarrow> bool" where
  "calls_ok k \<longleftrightarrow> srcfd k \<ge> 0 \<and> srcp k \<noteq> -1 \<and> src_closed k \<ge> 0 \<and> unmapped k \<ge> 0 \<and>
     child k \<ge> 0 \<and> duplicated k \<ge> 0 \<and> executed k \<ge> 0 \<and> waited k \<ge> 0"

lemma sint_length: "length d < 2 ^ 31 \<Longrightarrow> sint (c_int (int (length d))) = int (length d)"
  by (rule sint_c_int) (simp add: in_int_def)

lemma static_headers_short: "list_all (\<lambda>t. length t < MAXLINE) (static_headers f n)"
proof -
  have "length (show_int (sint n)) \<le> Suc 10" by (rule show_int_length) (rule in_int_sint)
  then show ?thesis using get_filetype_length [of f] by (simp add: static_headers_def MAXLINE_def)
qed

lemma serve_static_sends:
  assumes "WFailed \<notin> set snk" "d \<noteq> []" "length d < 2 ^ 31" "calls_ok k"
  shows "\<exists>ps. serve_static k snk f d = Inr ps \<and> concat ps =
    concat (static_headers f (c_int (int (length d)))) @ d"
proof -
  let ?n = "c_int (int (length d))"
  obtain ps snk' where p: "send_all (static_headers f ?n) snk = Inr (ps, snk')"
    "concat ps = concat (static_headers f ?n)" "WFailed \<notin> set snk'"
    by (rule send_all_concat [OF assms(1) static_headers_short])
  obtain qs r where "Rio_writen snk' d = Inr (qs, r)" "concat qs = d"
    by (rule Rio_writen_all [OF p(3)])
  with p assms(2,4) sint_length [OF assms(3)] show ?thesis
    by (simp add: serve_static_def Let_def calls_ok_def Open_def Mmap_def Close_def Munmap_def)
qed

lemma serve_dynamic_sends:
  assumes "WFailed \<notin> set snk" "calls_ok k"
  shows "\<exists>ps. serve_dynamic cgi k snk f q = Inr ps \<and>
    concat ps = ''HTTP/1.0 200 OK'' @ crlf @ ''Server: Tiny Web Server'' @ crlf @ concat (cgi f q)"
proof -
  have "list_all (\<lambda>t. length t < MAXLINE) [''HTTP/1.0 200 OK'' @ crlf, ''Server: Tiny Web Server'' @ crlf]"
    by (simp add: MAXLINE_def)
  then obtain ps r where "send_all [''HTTP/1.0 200 OK'' @ crlf, ''Server: Tiny Web Server'' @ crlf] snk = Inr (ps, r)"
    "concat ps = concat [''HTTP/1.0 200 OK'' @ crlf, ''Server: Tiny Web Server'' @ crlf]"
    by (rule send_all_concat [OF assms(1)])
  with assms(2) show ?thesis
    by (simp add: serve_dynamic_def cgi_child_def Let_def calls_ok_def Fork_def Wait_def Dup2_def Execve_def)
qed

lemma doit_complete:
  assumes "clean client" "content client = a @ '' '' @ uri @ '' '' @ v @ crlf @ lines_text ls @ crlf @ body"
    and "word a" "word uri" "word v" "length (a @ uri @ v) + 4 < MAXLINE" "strcasecmp_eq a ''GET''"
    and "list_all header_line_ok ls"
  shows "doit stat cgi k junk client snk = Some (answer_request stat cgi k snk uri)"
proof -
  obtain t where t: "rio_ok t" "stream t = lines_text ls @ crlf @ body"
    "doit stat cgi k junk client snk = (case read_requesthdrs junk t of None \<Rightarrow> None
       | Some (Inl e) \<Rightarrow> Some (Inl e) | Some (Inr rio) \<Rightarrow> Some (answer_request stat cgi k snk uri))"
    by (rule doit_GET [OF assms(1-7), of stat cgi k junk snk])
  obtain t' where "read_requesthdrs junk t = Some (Inr t')" by (rule read_requesthdrs_all [OF t(1,2) assms(8)])
  with t(3) show ?thesis by simp
qed

lemma file_answer:
  assumes "clean client" "content client = a @ '' '' @ uri @ '' '' @ v @ crlf @ lines_text ls @ crlf @ body"
    and "word a" "word uri" "word v" "length (a @ uri @ v) + 4 < MAXLINE" "strcasecmp_eq a ''GET''"
    and "list_all header_line_ok ls" "strstr uri ''cgi-bin'' = None" "last uri \<noteq> CHR ''/''"
    and "stat (CHR ''.'' # uri) = Some f" "regular f" "readable f" "bytes f \<noteq> []" "length (bytes f) < 2 ^ 31"
    and "WFailed \<notin> set snk" "calls_ok k"
  shows "\<exists>ps. doit stat cgi k junk client snk = Some (Inr ps) \<and>
    concat ps = ''HTTP/1.0 200 OK'' @ crlf @ ''Server: Tiny Web Server'' @ crlf @
      ''Content-length: '' @ show_nat (length (bytes f)) @ crlf @
      ''Content-type: '' @ get_filetype (CHR ''.'' # uri) @ crlf @ crlf @ bytes f"
proof -
  have "parse_uri uri = Inr (True, CHR ''.'' # uri, [])"
    using assms(4,6,9,10) by (auto simp: parse_uri_def copy_to_def word_def)
  then show ?thesis
    using serve_static_sends [OF assms(16,14,15,17), of "CHR ''.'' # uri"] assms(11-13)
      doit_complete [OF assms(1-8), of stat cgi k junk snk] sint_length [OF assms(15)]
    by (simp add: answer_request_def static_headers_def show_int_def)
qed

section \<open>Properties\<close>

text \<open>
  C28: a GET request with complete headers for an ordinary readable file that is not empty is answered with
  the status line, the length of the file, a type found from its name, and exactly the bytes of
  the file, however the request arrives and however the answer is taken, if the calls of the system succeed.
\<close>
theorem static_response:
  assumes "clean client" "content client = a @ '' '' @ uri @ '' '' @ v @ crlf @ lines_text ls @ crlf @ body"
    and "word a" "word uri" "word v" "length (a @ uri @ v) + 4 < MAXLINE" "strcasecmp_eq a ''GET''"
    and "list_all header_line_ok ls" "strstr uri ''cgi-bin'' = None" "last uri \<noteq> CHR ''/''"
    and "stat (CHR ''.'' # uri) = Some f" "regular f" "readable f" "bytes f \<noteq> []" "length (bytes f) < 2 ^ 31"
    and "WFailed \<notin> set snk" "calls_ok k"
  shows "\<exists>ps. doit stat cgi k junk client snk = Some (Inr ps) \<and>
    concat ps = ''HTTP/1.0 200 OK'' @ crlf @ ''Server: Tiny Web Server'' @ crlf @
      ''Content-length: '' @ show_nat (length (bytes f)) @ crlf @
      ''Content-type: '' @ get_filetype (CHR ''.'' # uri) @ crlf @ crlf @ bytes f"
  by (rule file_answer [where stat = stat, OF assms])

text \<open>Connections before a request that is never answered do not help.\<close>

lemma serve_stops:
  assumes "serve stat cgi cs = Some (Inr pss)" "accepted c \<ge> 0" "named c = 0"
    and "doit stat cgi (calls c) (stack c) (request c) (takes c) = None"
  shows "serve stat cgi (cs @ c # rest) = None"
  using assms(1)
proof (induction cs arbitrary: pss)
  case Nil
  then show ?case using assms(2-4) by (simp add: Accept_def Getnameinfo_def)
next
  case (Cons d ds)
  then show ?case by (auto simp: bindO_eq_Inr_iff)
qed

lemma get_GET: "strcasecmp_eq ''get'' ''GET''"
  by code_simp

definition page :: file_info where
  "page = \<lparr>regular = True, readable = True, executable = False, bytes = ''<p>hi''\<rparr>"

definition fine :: system_calls where
  "fine = \<lparr>srcfd = 5, srcp = 4096, src_closed = 0, unmapped = 0, child = 100, duplicated = 1, executed = 0, waited = 100\<rparr>"

lemma fine_ok: "calls_ok fine"
  by (simp add: fine_def calls_ok_def)

theorem static_response_witness:
  "\<exists>ps. doit (\<lambda>f. if f = ''./a.html'' then Some page else None) (\<lambda>f q. []) fine []
       [Data (''get /a.html HTTP/1.0'' @ crlf @ ''Ho''), Data (''st: x'' @ crlf @ crlf)] [Wrote 3] = Some (Inr ps) \<and>
     concat ps = ''HTTP/1.0 200 OK'' @ crlf @ ''Server: Tiny Web Server'' @ crlf @ ''Content-length: 5'' @ crlf @
       ''Content-type: text/html'' @ crlf @ crlf @ ''<p>hi''"
proof -
  let ?c = "[Data (''get /a.html HTTP/1.0'' @ crlf @ ''Ho''), Data (''st: x'' @ crlf @ crlf)]"
  let ?stat = "\<lambda>f. if f = ''./a.html'' then Some page else None"
  have "\<exists>ps. doit ?stat (\<lambda>f q. []) fine [] ?c [Wrote 3] = Some (Inr ps) \<and>
    concat ps = ''HTTP/1.0 200 OK'' @ crlf @ ''Server: Tiny Web Server'' @ crlf @
      ''Content-length: '' @ show_nat (length (bytes page)) @ crlf @
      ''Content-type: '' @ get_filetype (CHR ''.'' # ''/a.html'') @ crlf @ crlf @ bytes page"
    by (rule static_response [of ?c "''get''" "''/a.html''" "''HTTP/1.0''" "[''Host: x'' @ [carriage_return]]" "[]"])
       (simp_all add: word_def isspace_def MAXLINE_def get_GET header_line_ok_def lines_text_def page_def fine_ok)
  moreover have "show_nat (length (bytes page)) = ''5''" "get_filetype (CHR ''.'' # ''/a.html'') = ''text/html''"
    by code_simp+
  ultimately show ?thesis by (simp add: page_def)
qed

section \<open>Sums\<close>

lemma show_int_no_amp: "CHR ''&'' \<notin> set (show_int i)"
proof -
  have "CHR ''&'' \<notin> set (show_nat n)" for n using show_nat_digits [of n] by (auto simp: isdigit_def)
  then show ?thesis by (simp add: show_int_def)
qed

definition answer_text :: "int \<Rightarrow> int \<Rightarrow> string" where
  "answer_text i j = ''The answer is: '' @ show_int i @ '' + '' @ show_int j @ '' = '' @ show_int (i + j) @ crlf @ ''<p>''"

text \<open>
  \<open>builds overlap t c\<close>: the calls of \<open>sprintf\<close> of adder.c with \<open>t\<close> as the text of the second of them leave
  \<open>c\<close> in the buffer.
\<close>

definition builds :: "(string \<Rightarrow> string \<Rightarrow> fault + string) \<Rightarrow> string \<Rightarrow> string \<Rightarrow> bool" where
  "builds overlap t c \<longleftrightarrow> length c < MAXLINE \<and>
     (\<exists>c1 c2. overlap ''Welcome to add.com: '' (''THE Internet addition portal.'' @ crlf @ ''<p>'') = Inr c1 \<and>
       length c1 < MAXLINE \<and> overlap c1 t = Inr c2 \<and> length c2 < MAXLINE \<and>
       overlap c2 (''Thanks for visiting!'' @ crlf) = Inr c)"

lemma adder_sum:
  assumes "in_int i" "in_int j" "in_int (i + j)" "builds overlap (answer_text i j) c"
  shows "adder overlap (Some (show_int i @ ''&'' @ show_int j)) =
    Inr (''Connection: close'' @ crlf @ ''Content-length: '' @ show_nat (length c) @ crlf @
      ''Content-type: text/html'' @ crlf @ crlf @ c)"
proof -
  have "adder_content overlap (c_int i) (c_int j) = Inr c"
    using assms by (auto simp: adder_content_def builds_def answer_text_def sprintf_onto_def copy_to_def sint_c_int)
  then show ?thesis
    using assms show_int_length [OF assms(1)] show_int_length [OF assms(2)] show_int_no_amp
    by (simp add: adder_def copy_to_def MAXLINE_def atoi_show_int)
qed

text \<open>The server with adder.c behind it.\<close>

definition adder_uri :: "int \<Rightarrow> int \<Rightarrow> string" where
  "adder_uri i j = ''/cgi-bin/adder?'' @ show_int i @ ''&'' @ show_int j"

definition run_adder :: "(string \<Rightarrow> string \<Rightarrow> fault + string) \<Rightarrow> string \<Rightarrow> string \<Rightarrow> string list" where
  \<comment> \<open>what is printed before a fault is lost with the buffer of \<open>stdout\<close>\<close>
  "run_adder overlap filename query = (case adder overlap (Some query) of Inl e \<Rightarrow> [] | Inr out \<Rightarrow> [out])"

lemma show_nat_chars: "c \<in> set (show_nat n) \<Longrightarrow> \<not> isspace c \<and> c \<noteq> CHR 0x00"
  using show_nat_digits [of n] isdigit_not_isspace [of c] by (auto simp: isdigit_def)

lemma word_adder_uri: "word (adder_uri i j)"
  by (auto simp: word_def adder_uri_def show_int_def isspace_def split: if_splits dest!: show_nat_chars)

lemma parse_adder_uri:
  assumes "in_int i" "in_int j"
  shows "parse_uri (adder_uri i j) = Inr (False, ''./cgi-bin/adder'', show_int i @ ''&'' @ show_int j)"
proof -
  have "strstr (adder_uri i j) ''cgi-bin'' \<noteq> None" by (simp add: adder_uri_def)
  then show ?thesis by (simp add: parse_uri_def adder_uri_def copy_to_def MAXLINE_def)
qed

text \<open>
  C31: The web server and its program together: a GET request for \<open>/cgi-bin/adder?i&j\<close>, where the two numbers
  and their sum are in the range of \<open>int\<close>, is answered with the first two header lines from the server and then,
  from the program that the child of the server runs, the rest of the headers, with the right length, and the
  content that the program has built with the sum in it. The calls of \<open>sprintf\<close> that build it read the buffer that
  they write to, which C leaves undefined: whatever the library makes of them, the answer is complete and consistent,
  as long as they do not fail.
\<close>
theorem sum_served:
  assumes "clean client" "content client = a @ '' '' @ adder_uri i j @ '' '' @ v @ crlf @ lines_text ls @ crlf @ body"
    and "word a" "word v" "length a + length v < 8000" "strcasecmp_eq a ''GET''" "list_all header_line_ok ls"
    and "in_int i" "in_int j" "in_int (i + j)" "stat ''./cgi-bin/adder'' = Some f" "regular f" "executable f"
    and "WFailed \<notin> set snk" "calls_ok k" "builds overlap (answer_text i j) c"
  shows "\<exists>ps. doit stat (run_adder overlap) k junk client snk = Some (Inr ps) \<and>
    concat ps = ''HTTP/1.0 200 OK'' @ crlf @ ''Server: Tiny Web Server'' @ crlf @ ''Connection: close'' @ crlf @
      ''Content-length: '' @ show_nat (length c) @ crlf @ ''Content-type: text/html'' @ crlf @ crlf @ c"
proof -
  have "length (a @ adder_uri i j @ v) + 4 < MAXLINE"
    using assms(5) show_int_length [OF assms(8)] show_int_length [OF assms(9)] by (simp add: adder_uri_def MAXLINE_def)
  from doit_complete [OF assms(1-3) word_adder_uri assms(4) this assms(6,7), of stat "run_adder overlap" k junk snk]
    serve_dynamic_sends [OF assms(14,15), of "run_adder overlap" "''./cgi-bin/adder''" "show_int i @ ''&'' @ show_int j"]
    parse_adder_uri [OF assms(8,9)] adder_sum [OF assms(8-10,16)] assms(11-13)
  show ?thesis by (simp add: answer_request_def run_adder_def)
qed

text \<open>A library that copies forwards, so that the calls append.\<close>

definition appending :: "string \<Rightarrow> string \<Rightarrow> fault + string" where
  "appending c t = Inr (c @ t)"

theorem sum_served_witness:
  "\<exists>ps front back. doit (\<lambda>f. Some (page\<lparr>executable := True\<rparr>)) (run_adder appending) fine []
       [Data (''GET /cgi-bin/adder?15&-7 HTT''), Data (''P/1.0'' @ crlf @ crlf)] [] = Some (Inr ps) \<and>
     concat ps = front @ ''15 + -7 = 8'' @ back"
proof -
  let ?c = "[Data (''GET /cgi-bin/adder?15&-7 HTT''), Data (''P/1.0'' @ crlf @ crlf)]"
  have s: "show_int 15 = ''15''" "show_int (-7) = ''-7''" "show_int 8 = ''8''" by code_simp+
  let ?f = "''Welcome to add.com: THE Internet addition portal.'' @ crlf @ ''<p>The answer is: ''"
  let ?b = "crlf @ ''<p>Thanks for visiting!'' @ crlf"
  let ?p = "?f @ ''15 + -7 = 8'' @ ?b"
  let ?h = "''HTTP/1.0 200 OK'' @ crlf @ ''Server: Tiny Web Server'' @ crlf @ ''Connection: close'' @ crlf @
      ''Content-length: '' @ show_nat (length ?p) @ crlf @ ''Content-type: text/html'' @ crlf @ crlf"
  have "builds appending (answer_text 15 (-7)) ?p"
    by (simp add: builds_def appending_def answer_text_def s MAXLINE_def)
  then have "\<exists>ps. doit (\<lambda>f. Some (page\<lparr>executable := True\<rparr>)) (run_adder appending) fine [] ?c [] = Some (Inr ps) \<and>
    concat ps = ?h @ ?p"
    unfolding append_assoc
    by (intro sum_served [of ?c "''GET''" 15 "-7" "''HTTP/1.0''" "[]" "[]" _ "page\<lparr>executable := True\<rparr>"])
       (simp_all add: word_def isspace_def s adder_uri_def strcasecmp_eq_def lines_text_def in_int_def page_def fine_ok)
  then obtain ps where ps: "doit (\<lambda>f. Some (page\<lparr>executable := True\<rparr>)) (run_adder appending) fine [] ?c [] = Some (Inr ps)"
    "concat ps = ?h @ ?p" by blast
  then have "concat ps = (?h @ ?f) @ ''15 + -7 = 8'' @ ?b" unfolding ps(2) append_assoc by (intro refl)
  with ps(1) show ?thesis by (intro exI [of _ ps] exI [of _ "?h @ ?f"] exI [of _ ?b] conjI)
qed

text \<open>Without an ampersand it follows a null pointer.\<close>

lemma adder_no_amp: "CHR ''&'' \<notin> set q \<Longrightarrow> adder overlap (Some q) = Inl NullDeref"
  using strchr_None_iff [of q "CHR ''&''"] by (simp add: adder_def)

end
