(* ===== verification/Proxy_Tiny.thy ===== *)
theory Proxy_Tiny
  imports Proxy_Props Tiny_Props
begin

text \<open>
  The two programs of lab5 together: a browser that asks the proxy for a file of the Tiny web server.
  What the proxy sends is what the server reads, and what the server sends is what the proxy reads.
\<close>

lemma lines_of_headers:
  "lines_text (map (\<lambda>h. fst h @ '': '' @ snd h @ [carriage_return]) hs) = concat (map header_bytes hs)"
  by (simp add: lines_text_def comp_def header_bytes_def [abs_def])

lemma header_lines_ok:
  "list_all header_ok hs \<Longrightarrow> list_all header_line_ok (map (\<lambda>h. fst h @ '': '' @ snd h @ [carriage_return]) hs)"
  by (auto simp: list_all_iff header_ok_def header_line_ok_def MAXLINE_def MAX_HEADERNAME_LEN_def MAX_HEADER_LEN_def
      append_eq_Cons_conv)

definition sent_headers :: "(string \<times> string) list \<Rightarrow> header_line list" where
  "sent_headers hs = map (\<lambda>h. \<lparr>headername = fst h, header = snd h @ crlf\<rparr>) hs"

lemma request_text_sent:
  "request_text \<lparr>hostname = h, port = p, path = ''/'' @ q\<rparr> (sent_headers hs) =
    ''GET'' @ '' '' @ (CHR ''/'' # q) @ '' '' @ ''HTTP/1.0'' @ crlf @ concat (map header_bytes hs) @ crlf"
  by (simp add: request_text_def sent_headers_def comp_def header_bytes_def [abs_def])

lemma send_to_server_bytes:
  assumes "open_clientfd addrs = (fd, opened)" "fd \<ge> 0" "WFailed \<notin> set ssnk" "length (request_text line hs) < MAXLINE"
  obtains req where "send_to_server addrs ssnk junk line hs = Inr req"
    "concat req = request_text line hs @ CHR 0x00 # drop (Suc (length (request_text line hs))) junk"
proof -
  let ?b = "request_text line hs @ CHR 0x00 # drop (Suc (length (request_text line hs))) junk"
  obtain req rest where "Rio_writen ssnk ?b = Inr (req, rest)" "concat req = ?b" by (rule Rio_writen_all [OF assms(3)])
  with assms(1,2,4) show thesis by (intro that [of req]) (simp_all add: send_to_server_def Open_clientfd_def copy_to_def Let_def)
qed

definition tiny_page :: "string \<Rightarrow> string \<Rightarrow> string" where
  "tiny_page filename d = ''HTTP/1.0 200 OK'' @ crlf @ ''Server: Tiny Web Server'' @ crlf @
     ''Content-length: '' @ show_nat (length d) @ crlf @
     ''Content-type: '' @ get_filetype filename @ crlf @ crlf @ d"

lemma tiny_page_length:
  assumes "length d + 200 < MAX_OBJECT_SIZE"
  shows "length (tiny_page filename d) < MAX_OBJECT_SIZE" "length d < 2 ^ 31"
proof -
  show l: "length d < 2 ^ 31" using assms by (simp add: MAX_OBJECT_SIZE_def)
  then have "length (show_nat (length d)) \<le> Suc 9" by (intro show_nat_length) simp
  then show "length (tiny_page filename d) < MAX_OBJECT_SIZE"
    using get_filetype_length [of filename] assms by (simp add: tiny_page_def MAX_OBJECT_SIZE_def)
qed

lemma get_GET_upper: "strcasecmp_eq ''GET'' ''GET''"
  by code_simp

lemma tiny_serves_file:
  assumes "clean client" "content client = a @ '' '' @ uri @ '' '' @ v @ crlf @ lines_text ls @ crlf @ body"
    and "word a" "word uri" "word v" "length (a @ uri @ v) + 4 < MAXLINE" "strcasecmp_eq a ''GET''"
    and "list_all header_line_ok ls" "strstr uri ''cgi-bin'' = None" "last uri \<noteq> CHR ''/''"
    and "stat (CHR ''.'' # uri) = Some f" "regular f" "readable f" "bytes f \<noteq> []" "length (bytes f) < 2 ^ 31"
    and "WFailed \<notin> set snk" "calls_ok k"
  shows "\<exists>ps. Tiny.doit stat cgi k junk client snk = Some (Inr ps) \<and> concat ps = tiny_page (CHR ''.'' # uri) (bytes f)"
  unfolding tiny_page_def by (rule file_answer [where stat = stat, OF assms])

text \<open>
  C17: The proxy in front of the web server: a browser asks the proxy, in absolute form with a port and with header
  lines that the arrays can hold, for a file of the server that is not in the cache yet and has at least one and fewer
  than \<open>MAX_OBJECT_SIZE\<close> - 200 bytes, of any kind. The bytes that the proxy then writes, with the rest of its buffer after the
  request, are a request which the server answers with the file, in whatever pieces they arrive. When
  that answer comes back, in whatever pieces, the browser gets it unchanged, and the
  proxy keeps it under the host and the path; what it keeps is a string, the answer up to its first NUL.
\<close>
theorem page_through_proxy:
  assumes "clean client"
    and "content client = m @ '' '' @ uri_text h p q @ '' '' @ v @ crlf @ concat (map header_bytes hs) @ crlf @ body"
    and "word m" "word (uri_text h p q)" "word v" "length (m @ uri_text h p q @ v) + 4 < MAXLINE"
    and "CHR '':'' \<notin> set h" "CHR ''/'' \<notin> set p" "length h < MAX_HOSTNAME_LEN" "length p < MAX_PORT_LEN"
    and "list_all header_ok hs" "length hs \<le> 20" "length q + length (concat (map header_bytes hs)) + 20 < MAXLINE"
    and "cache_ok s" "reader (h @ CHR ''/'' # q) s = None" "length ob = MAX_OBJECT_SIZE" "cl \<ge> 0"
    and "open_clientfd addrs = (fd, opened)" "fd \<ge> 0" "WFailed \<notin> set ssnk" "WFailed \<notin> set csnk"
    and "strstr (CHR ''/'' # q) ''cgi-bin'' = None" "last (CHR ''/'' # q) \<noteq> CHR ''/''"
    and "stat (''./'' @ q) = Some f" "regular f" "readable f" "bytes f \<noteq> []"
    and "length (bytes f) + 200 < MAX_OBJECT_SIZE" "WFailed \<notin> set tsnk" "calls_ok k"
  shows "\<exists>line headers req. parse_request client = Inr (line, headers) \<and>
    send_to_server addrs ssnk junk line headers = Inr req \<and>
    (\<forall>server. clean server \<longrightarrow> content server = concat req \<longrightarrow>
      (\<exists>ps. Tiny.doit stat cgi k tjunk server tsnk = Some (Inr ps) \<and> concat ps = tiny_page (''./'' @ q) (bytes f))) \<and>
    (\<forall>answer. clean answer \<longrightarrow> content answer = tiny_page (''./'' @ q) (bytes f) \<longrightarrow>
      (\<exists>ps t i b. Proxy.doit client csnk addrs ssnk answer cl junk ob s = Inr (ps, t) \<and>
        concat ps = tiny_page (''./'' @ q) (bytes f) \<and>
        reader (h @ CHR ''/'' # q) t = Some (i, b) \<and> c_string b = c_string (tiny_page (''./'' @ q) (bytes f))))"
proof -
  let ?line = "\<lparr>hostname = h, port = p, path = ''/'' @ q\<rparr>" and ?p = "tiny_page (''./'' @ q) (bytes f)"
  let ?t = "request_text ?line (sent_headers hs)"
  have pr: "parse_request client = Inr (?line, sent_headers hs)"
    unfolding sent_headers_def by (rule parse_request_text [OF assms(1-12)])
  have "length ?t < MAXLINE" using assms(13) unfolding request_text_sent by simp
  then obtain req where req: "send_to_server addrs ssnk junk ?line (sent_headers hs) = Inr req"
    "concat req = ?t @ CHR 0x00 # drop (Suc (length ?t)) junk"
    by (rule send_to_server_bytes [OF assms(18-20)])
  have q: "word (CHR ''/'' # q)" "word ''GET''" "word ''HTTP/1.0''"
    using assms(4) by (auto simp: word_def uri_text_def isspace_def)
  have answered: "\<exists>ps. Tiny.doit stat cgi k tjunk server tsnk = Some (Inr ps) \<and> concat ps = ?p"
    if "clean server" "content server = concat req" for server
  proof -
    have "content server = ''GET'' @ '' '' @ (CHR ''/'' # q) @ '' '' @ ''HTTP/1.0'' @ crlf @
        lines_text (map (\<lambda>h. fst h @ '': '' @ snd h @ [carriage_return]) hs) @ crlf @
        (CHR 0x00 # drop (Suc (length ?t)) junk)"
      unfolding that(2) req(2) lines_of_headers by (subst (1) request_text_sent) simp
    moreover have "length (''GET'' @ (CHR ''/'' # q) @ ''HTTP/1.0'') + 4 < MAXLINE" using assms(13) by simp
    ultimately show ?thesis
      using tiny_serves_file [OF that(1) _ q(2,1,3) _ get_GET_upper header_lines_ok [OF assms(11)] assms(22,23) _
        assms(25-27) tiny_page_length(2) [OF assms(28)] assms(29,30), where stat = stat] assms(24) by simp
  qed
  have key: "cache_key ?line = Inr (h @ CHR ''/'' # q)"
    using assms(6) by (simp add: cache_key_def copy_to_def uri_text_def)
  have "?p \<noteq> []" by (simp add: tiny_page_def)
  then have "\<exists>ps t i b. Proxy.doit client csnk addrs ssnk answer cl junk ob s = Inr (ps, t) \<and>
      concat ps = ?p \<and> reader (h @ CHR ''/'' # q) t = Some (i, b) \<and> c_string b = c_string ?p"
    if "clean answer" "content answer = ?p" for answer
    using doit_miss [OF assms(14) pr key assms(15) req(1) assms(21) that(1) _ _ assms(16,17)]
      tiny_page_length(1) [OF assms(28)] that(2) by metis
  with answered pr req(1) show ?thesis by blast
qed

lemma whole_script: "\<exists>src. clean src \<and> content src = bs"
  by (cases "bs = []") (auto intro: exI [of _ "[]"] exI [of _ "[Data bs]"])

lemma reader_initial: "reader uri (initialize_cache junk) = None"
  by (simp add: reader_def initialize_cache_def)

text \<open>A browser, the proxy and the server with one page.\<close>

definition browser :: "read_event list" where
  "browser = [Data (''GET http://h:80/a.html HTTP/1.1'' @ crlf @ ''Hos''), Data (''t: h'' @ crlf @ crlf)]"

theorem page_through_proxy_witness:
  "\<exists>line headers req server ps qs t. parse_request browser = Inr (line, headers) \<and>
     send_to_server route [] [] line headers = Inr req \<and> content server = concat req \<and>
     Tiny.doit (\<lambda>f. Some page) (\<lambda>f q. []) fine [] server [Wrote 7] = Some (Inr ps) \<and>
     Proxy.doit browser [Wrote 2] route [] [Data (concat ps)] 0 [] marks (initialize_cache marks) = Inr (qs, t) \<and>
     concat qs = concat ps \<and> concat ps = tiny_page ''./a.html'' ''<p>hi''"
proof -
  let ?p = "tiny_page (''./'' @ ''a.html'') (bytes page)"
  have "\<exists>line headers req. parse_request browser = Inr (line, headers) \<and>
    send_to_server route [] [] line headers = Inr req \<and>
    (\<forall>server. clean server \<longrightarrow> content server = concat req \<longrightarrow>
      (\<exists>ps. Tiny.doit (\<lambda>f. Some page) (\<lambda>f q. []) fine [] server [Wrote 7] = Some (Inr ps) \<and> concat ps = ?p)) \<and>
    (\<forall>answer. clean answer \<longrightarrow> content answer = ?p \<longrightarrow>
      (\<exists>ps t i b. Proxy.doit browser [Wrote 2] route [] answer 0 [] marks (initialize_cache marks) = Inr (ps, t) \<and>
        concat ps = ?p \<and> reader (''h'' @ CHR ''/'' # ''a.html'') t = Some (i, b) \<and> c_string b = c_string ?p))"
    by (rule page_through_proxy [where stat = "\<lambda>f. Some page" and f = page and fd = 3 and opened = "[3]" and h = "''h''"
          and m = "''GET''" and p = "''80''" and v = "''HTTP/1.1''" and hs = "[(''Host'', ''h'')]" and body = "[]"])
       (simp_all add: browser_def uri_text_def header_bytes_def word_def isspace_def header_ok_def MAXLINE_def
         MAX_HOSTNAME_LEN_def MAX_PORT_LEN_def MAX_HEADERNAME_LEN_def MAX_HEADER_LEN_def marks_facts reader_initial
         route_def open_clientfd_def page_def fine_ok MAX_OBJECT_SIZE_def)
  then obtain line headers req where r: "parse_request browser = Inr (line, headers)"
    "send_to_server route [] [] line headers = Inr req"
    "\<And>server. clean server \<Longrightarrow> content server = concat req \<Longrightarrow>
      \<exists>ps. Tiny.doit (\<lambda>f. Some page) (\<lambda>f q. []) fine [] server [Wrote 7] = Some (Inr ps) \<and> concat ps = ?p"
    "\<And>answer. clean answer \<Longrightarrow> content answer = ?p \<Longrightarrow>
      \<exists>ps t i b. Proxy.doit browser [Wrote 2] route [] answer 0 [] marks (initialize_cache marks) = Inr (ps, t) \<and>
        concat ps = ?p \<and> reader (''h'' @ CHR ''/'' # ''a.html'') t = Some (i, b) \<and> c_string b = c_string ?p" by blast
  obtain server where server: "clean server" "content server = concat req" using whole_script by blast
  from r(3) [OF this] obtain ps where ps:
    "Tiny.doit (\<lambda>f. Some page) (\<lambda>f q. []) fine [] server [Wrote 7] = Some (Inr ps)" "concat ps = ?p" by blast
  have "clean [Data (concat ps)]" "content [Data (concat ps)] = ?p" by (simp_all add: ps(2) tiny_page_def)
  from r(4) [OF this] obtain qs t where
    "Proxy.doit browser [Wrote 2] route [] [Data (concat ps)] 0 [] marks (initialize_cache marks) = Inr (qs, t)"
    "concat qs = ?p" by blast
  with r(1,2) server(2) ps show ?thesis by (auto simp: page_def)
qed

end
