(* ===== verification/Tiny_Headers.thy ===== *)
theory Tiny_Headers
  imports Tiny_Props
begin

text \<open>
  Exactly when the web server of lab5/tiny finishes reading the headers of a request: its loop is
  compared, on every stream, with a reader that takes lines off the text as \<open>fgets\<close> does.
\<close>

lemma fgets_MAXLINE_shrinks: "fgets MAXLINE f = Some (l, r) \<Longrightarrow> length r < length f"
  using fgets_chars_shrinks [of f "MAXLINE - 2"]
  by (auto simp: fgets_def MAXLINE_def numeral_eq_Suc split: if_splits)

function after_headers :: "string \<Rightarrow> string option" where
  \<comment> \<open>what follows the first empty line, if there is one\<close>
  "after_headers f = (case fgets MAXLINE f of
     None \<Rightarrow> None
   | Some (l, r) \<Rightarrow> if c_string l = crlf then Some r else after_headers r)"
  by pat_completeness auto
termination
  by (relation "measure length") (auto intro: fgets_MAXLINE_shrinks)

declare after_headers.simps [simp del]

lemma after_headers_Nil: "after_headers [] = None"
  by (simp add: after_headers.simps [of "[]"] fgets_def)

lemma after_headers_line:
  assumes "header_line_ok l"
  shows "after_headers (l @ newline # f) = after_headers f"
  using fgets_line [of l MAXLINE f] header_line_c_string [OF assms] assms
  by (simp add: after_headers.simps [of "l @ newline # f"] header_line_ok_def)

lemma after_headers_blank: "after_headers (crlf @ body) = Some body"
proof -
  have "fgets MAXLINE ([carriage_return] @ newline # body) = Some ([carriage_return] @ [newline], body)"
    by (rule fgets_line) (simp_all add: MAXLINE_def)
  moreover have "c_string crlf = crlf" by (simp add: c_string_def)
  ultimately show ?thesis by (simp add: after_headers.simps [of "carriage_return # newline # body"])
qed

section \<open>The loop of the server\<close>

lemma header_loop_after:
  assumes "rio_ok rp" "c_string buf \<noteq> crlf"
  shows "case after_headers (stream rp) of
      None \<Rightarrow> header_loop rp buf = None
    | Some r \<Rightarrow> \<exists>t. header_loop rp buf = Some (Inr t) \<and> rio_ok t \<and> stream t = r"
  using assms
proof (induction "length (stream rp)" arbitrary: rp buf rule: less_induct)
  case less
  have m: "2 \<le> MAXLINE" by (simp add: MAXLINE_def)
  obtain t where t: "rio_ok t" "case fgets MAXLINE (stream rp) of
      None \<Rightarrow> rio_readlineb rp MAXLINE = (Eof, t) \<and> stream t = []
    | Some (l, r) \<Rightarrow> rio_readlineb rp MAXLINE = (Line l, t) \<and> stream t = r"
    using rio_readlineb_stream [OF less.prems(1) m] by blast
  show ?case
  proof (cases "fgets MAXLINE (stream rp)")
    case None
    then have "dead rp buf" using less.prems by (simp add: dead_def fgets_def split: if_splits)
    with None show ?thesis by (simp add: after_headers.simps [of "stream rp"] header_loop_dead)
  next
    case (Some x)
    obtain l r where x: "x = (l, r)" by (cases x)
    have t': "rio_readlineb rp MAXLINE = (Line l, t)" "stream t = r" using t(2) Some x by simp_all
    then have step: "header_loop rp buf = header_loop t l"
      using less.prems(2) by (simp add: header_loop.simps [of rp] Rio_readlineb_def)
    have after: "after_headers (stream rp) = (if c_string l = crlf then Some r else after_headers r)"
      using Some x by (simp add: after_headers.simps [of "stream rp"])
    show ?thesis
    proof (cases "c_string l = crlf")
      case True
      then show ?thesis using after step t(1) t'(2) by (simp add: header_loop.simps [of t])
    next
      case False
      have "length (stream t) < length (stream rp)" using fgets_MAXLINE_shrinks Some x t'(2) by simp
      from less.hyps [OF this t(1) False] show ?thesis
        using after step t'(2) False by (cases "after_headers r") simp_all
    qed
  qed
qed

lemma read_requesthdrs_after:
  assumes "rio_ok rp" "c_string junk \<noteq> crlf"
  shows "case after_headers (stream rp) of
      None \<Rightarrow> read_requesthdrs junk rp = None
    | Some r \<Rightarrow> \<exists>t. read_requesthdrs junk rp = Some (Inr t) \<and> rio_ok t \<and> stream t = r"
proof -
  let ?b = "if stream rp = [] then junk else []"
  have "c_string ?b \<noteq> crlf" using assms(2) by (simp add: c_string_def)
  from header_loop_after [OF assms(1) this] show ?thesis
    using read_requesthdrs_loop [OF assms(1), of junk] assms(2) by (simp cong: option.case_cong)
qed

section \<open>Properties\<close>

lemma answered_after:
  assumes "clean client" "content client = a @ '' '' @ uri @ '' '' @ v @ crlf @ rest"
    and "word a" "word uri" "word v" "length (a @ uri @ v) + 4 < MAXLINE" "strcasecmp_eq a ''GET''"
    and "c_string junk \<noteq> crlf"
  shows "doit stat cgi k junk client snk = map_option (\<lambda>_. answer_request stat cgi k snk uri) (after_headers rest)"
proof -
  obtain t where "rio_ok t" "stream t = rest"
    "doit stat cgi k junk client snk = (case read_requesthdrs junk t of None \<Rightarrow> None
       | Some (Inl e) \<Rightarrow> Some (Inl e) | Some (Inr rio) \<Rightarrow> Some (answer_request stat cgi k snk uri))"
    by (rule doit_GET [OF assms(1-7), of stat cgi k junk snk])
  with read_requesthdrs_after [of t junk] assms(8) show ?thesis by (auto split: option.splits)
qed

lemma serve_goes_on:
  "serve stat cgi cs = Some (Inr pss) \<Longrightarrow>
   doit stat cgi (calls c) (stack c) (request c) (takes c) \<noteq> None \<Longrightarrow> serve stat cgi (cs @ [c]) \<noteq> None"
proof (induction cs arbitrary: pss)
  case Nil
  then show ?case by (auto simp: bindO_def split: option.splits sum.splits)
next
  case (Cons d cs)
  then show ?case by (auto simp: bindO_eq_Inr_iff bindO_def split: option.splits sum.splits)
qed

text \<open>
  C29: the Tiny web server finishes with a \<open>GET\<close> request if and only if an empty line follows the
  request line, whatever else follows, in whatever pieces it arrives, and with lines of more than 8191 bytes
  taken as \<open>fgets\<close> cuts them. If it finishes, the answer depends on the URI only, not on the headers
  nor on what comes after them; if not, it goes round for ever.
\<close>
theorem answered_iff_headers_end:
  assumes "clean client" "content client = a @ '' '' @ uri @ '' '' @ v @ crlf @ rest"
    and "word a" "word uri" "word v" "length (a @ uri @ v) + 4 < MAXLINE" "strcasecmp_eq a ''GET''"
    and "c_string junk \<noteq> crlf"
  shows "doit stat cgi k junk client snk = map_option (\<lambda>_. answer_request stat cgi k snk uri) (after_headers rest)"
  by (rule answered_after [OF assms])

text \<open>
  One request with an empty line after a header, which is answered with an error page because the file
  does not exist, and the same one without it.
\<close>
theorem answered_iff_headers_end_witness:
  "doit (\<lambda>f. None) (\<lambda>f q. []) fine [] [Data (''GET /x HTTP/1.0'' @ crlf @ ''A: b'' @ crlf @ crlf @ ''rest'')] [] =
     Some (answer_request (\<lambda>f. None) (\<lambda>f q. []) fine [] ''/x'') \<and>
   doit (\<lambda>f. None) (\<lambda>f q. []) fine [] [Data (''GET /x HTTP/1.0'' @ crlf @ ''A: b'' @ crlf)] [] = None"
proof -
  let ?l = "''A: b'' @ [carriage_return]"
  have l: "header_line_ok ?l" by (simp_all add: header_line_ok_def MAXLINE_def)
  have run: "doit (\<lambda>f. None) (\<lambda>f q. []) fine [] [Data (''GET /x HTTP/1.0'' @ crlf @ rest)] [] =
      map_option (\<lambda>_. answer_request (\<lambda>f. None) (\<lambda>f q. []) fine [] ''/x'') (after_headers rest)" for rest
    by (rule answered_iff_headers_end [of _ "''GET''" _ "''HTTP/1.0''"])
      (simp_all add: word_def isspace_def MAXLINE_def strcasecmp_eq_def tolower_def c_string_def)
  have "after_headers (?l @ newline # crlf @ ''rest'') = Some ''rest''"
    by (simp only: after_headers_line [OF l] after_headers_blank)
  moreover have "after_headers (?l @ newline # []) = None"
    by (simp only: after_headers_line [OF l] after_headers_Nil)
  ultimately show ?thesis using run [of "?l @ newline # crlf @ ''rest''"] run [of "?l @ newline # []"] by simp
qed

text \<open>
  C40: a \<open>GET\<close> request keeps the server for ever if and only if the client ends its stream before an empty line,
  in the middle of a header line, after some lines or with none: \<open>read_requesthdrs\<close> then tests the same
  buffer again and again. The server takes one connection after the other, so it never comes to the connections that
  follow, however many it has served before. (The request line is one that fits, the connection itself does not
  fail, and the uninitialised buffer does not happen to hold an empty line.)
\<close>
theorem server_blocked_iff:
  assumes "clean (request c)" "content (request c) = a @ '' '' @ uri @ '' '' @ v @ crlf @ r"
    and "word a" "word uri" "word v" "length (a @ uri @ v) + 4 < MAXLINE" "strcasecmp_eq a ''GET''"
    and "c_string (stack c) \<noteq> crlf" "accepted c \<ge> 0" "named c = 0" "serve stat cgi cs = Some (Inr pss)"
  shows "(serve stat cgi (cs @ [c]) = None \<longleftrightarrow> after_headers r = None) \<and>
    (after_headers r = None \<longrightarrow> serve stat cgi (cs @ c # ds) = None)"
proof -
  let ?d = "doit stat cgi (calls c) (stack c) (request c) (takes c)"
  have d: "?d = map_option (\<lambda>_. answer_request stat cgi (calls c) (takes c) uri) (after_headers r)"
    using answered_after [OF assms(1-8)] .
  have stuck: "serve stat cgi (cs @ c # ds) = None" if "after_headers r = None" for ds
    by (rule serve_stops [OF assms(11,9,10)]) (simp add: d that)
  have "serve stat cgi (cs @ [c]) \<noteq> None" if "after_headers r \<noteq> None"
    using serve_goes_on [OF assms(11), of c] d that by auto
  with stuck show ?thesis by blast
qed

definition visit :: "string \<Rightarrow> connection" where
  "visit t = \<lparr>accepted = 4, named = 0, closed = 0, request = [Data t], takes = [], calls = fine, stack = []\<rparr>"

text \<open>A request that is not GET is served; the next one breaks off in a header line.\<close>

theorem server_blocked_iff_witness:
  "serve (\<lambda>f. None) (\<lambda>f q. []) ([visit (''HEAD'' @ crlf)] @
     visit (''GET / HTTP/1.0'' @ crlf @ ''Host: x'' @ crlf) # [visit ''again'']) = None"
proof -
  obtain t where "Rio_readlineb (rio_readinitb [Data (''HEAD'' @ crlf)]) MAXLINE [] =
      Inr (Suc (length (''HEAD'' @ [carriage_return])), (''HEAD'' @ [carriage_return]) @ [newline], t)"
    by (rule Rio_readlineb_line [of "rio_readinitb [Data (''HEAD'' @ crlf)]" "''HEAD'' @ [carriage_return]" "[]" MAXLINE "[]"])
       (simp_all add: MAXLINE_def)
  moreover have "scan_words (c_string (''HEAD'' @ crlf)) = [''HEAD'']" "\<not> strcasecmp_eq ''HEAD'' ''GET''"
    by code_simp+
  moreover have short: "list_all (\<lambda>t. length t < MAXLINE)
      (error_page ''HEAD'' ''501'' ''Not Implemented'' ''Tiny does not implement this method'')"
    by (simp add: error_page_def MAXLINE_def)
  moreover obtain ps r where "send_all (error_page ''HEAD'' ''501'' ''Not Implemented'' ''Tiny does not implement this method'') [] = Inr (ps, r)"
    by (rule send_all_concat [of "[]", OF _ short]) (auto intro: that)
  ultimately have first: "serve (\<lambda>f. None) (\<lambda>f q. []) [visit (''HEAD'' @ crlf)] = Some (Inr [ps])"
    by (simp add: visit_def doit_def Accept_def Getnameinfo_def Close_def clienterror_def)
  have "after_headers ((''Host: x'' @ [carriage_return]) @ newline # []) = None"
    by (subst after_headers_line) (simp_all add: header_line_ok_def MAXLINE_def after_headers_Nil)
  then have "after_headers (''Host: x'' @ crlf) = None" by simp
  moreover have "(serve (\<lambda>f. None) (\<lambda>f q. []) ([visit (''HEAD'' @ crlf)] @
      [visit (''GET / HTTP/1.0'' @ crlf @ ''Host: x'' @ crlf)]) = None \<longleftrightarrow> after_headers (''Host: x'' @ crlf) = None) \<and>
    (after_headers (''Host: x'' @ crlf) = None \<longrightarrow> serve (\<lambda>f. None) (\<lambda>f q. []) ([visit (''HEAD'' @ crlf)] @
      visit (''GET / HTTP/1.0'' @ crlf @ ''Host: x'' @ crlf) # [visit ''again'']) = None)"
    by (rule server_blocked_iff [of _ "''GET''" "''/''" "''HTTP/1.0''", rotated 10, OF first])
       (simp_all add: visit_def word_def isspace_def MAXLINE_def strcasecmp_eq_def tolower_def c_string_def)
  ultimately show ?thesis by blast
qed

end
