(* ===== verification/Fs.thy ===== *)
theory Fs
  imports CString
begin

text \<open>
  lab1/lab1_hutchins.c: a file system kept in memory as a tree of nodes, each with a pointer to
  its first child, its next sibling and its parent. Nodes are the cells of a heap; a freed cell
  is no longer in it, and \<open>malloc\<close> always returns a new address. The loops along siblings
  and towards the root get fuel from the number of addresses handed out so far, and running
  out of it means a cycle of pointers. The file does not compile as it stands (see the
  findings); the model takes \<open>dirname (x)\<close> and \<open>basename (x)\<close> for the functions
  of libgen.h, and leaves out the text that is printed with \<open>%a\<close>.
\<close>

section \<open>Names\<close>

definition strip_slashes :: "string \<Rightarrow> string" where
  "strip_slashes s = rev (dropWhile (\<lambda>c. c = CHR ''/'') (rev s))"

definition posix_dirname :: "string \<Rightarrow> string" where
  "posix_dirname s =
     (let t = strip_slashes s in
      if s = [] then ''.''
      else if t = [] then ''/''
      else if CHR ''/'' \<notin> set t then ''.''
      else let d = strip_slashes (rev (dropWhile (\<lambda>c. c \<noteq> CHR ''/'') (rev t))) in
           if d = [] then ''/'' else d)"

definition posix_basename :: "string \<Rightarrow> string" where
  "posix_basename s =
     (let t = strip_slashes s in
      if s = [] then ''.''
      else if t = [] then ''/''
      else rev (takeWhile (\<lambda>c. c \<noteq> CHR ''/'') (rev t)))"

section \<open>Nodes\<close>

type_synonym addr = nat

record node =
  nm :: string
  type :: char
  Cptr :: "addr option"
  Sptr :: "addr option"
  Pptr :: "addr option"

record fs =
  heap :: "addr \<Rightarrow> node option"
  fresh :: addr \<comment> \<open>the next address \<open>malloc\<close> returns\<close>
  root :: addr
  cwd :: addr
  dirname :: string
  basename :: string

definition deref :: "fs \<Rightarrow> addr option \<Rightarrow> fault + node" where
  "deref s p = (case p of None \<Rightarrow> Inl NullDeref
     | Some a \<Rightarrow> case heap s a of None \<Rightarrow> Inl NullDeref | Some n \<Rightarrow> Inr n)"

definition upd :: "addr \<Rightarrow> (node \<Rightarrow> node) \<Rightarrow> fs \<Rightarrow> fs" where
  "upd a f s = s\<lparr>heap := (heap s)(a := map_option f (heap s a))\<rparr>"

definition free :: "addr \<Rightarrow> fs \<Rightarrow> fs" where
  "free a s = s\<lparr>heap := (heap s)(a := None)\<rparr>"

definition initialize :: "fs" where
  "initialize = \<lparr>heap = [0 \<mapsto> \<lparr>nm = ''/'', type = CHR ''D'', Cptr = None, Sptr = None, Pptr = Some 0\<rparr>],
     fresh = 1, root = 0, cwd = 0, dirname = [], basename = []\<rparr>"

section \<open>Walking the tree\<close>

fun find_sibling :: "nat \<Rightarrow> fs \<Rightarrow> addr option \<Rightarrow> string \<Rightarrow> fault + addr option" where
  \<comment> \<open>the loop of \<open>lookC\<close>\<close>
  "find_sibling 0 s chief x = Inl NonTermination"
| "find_sibling (Suc k) s None x = Inr None"
| "find_sibling (Suc k) s (Some a) x =
     bindE (deref s (Some a)) (\<lambda>n. if nm n = x then Inr (Some a) else find_sibling k s (Sptr n) x)"

definition lookC :: "addr option \<Rightarrow> string \<Rightarrow> fs \<Rightarrow> fault + addr option" where
  "lookC p x s = bindE (deref s p) (\<lambda>n. find_sibling (Suc (fresh s)) s (Cptr n) x)"

fun last_sibling :: "nat \<Rightarrow> fs \<Rightarrow> addr \<Rightarrow> fault + addr" where
  \<comment> \<open>the loop of \<open>insert_child\<close>\<close>
  "last_sibling 0 s a = Inl NonTermination"
| "last_sibling (Suc k) s a =
     bindE (deref s (Some a)) (\<lambda>n. case Sptr n of None \<Rightarrow> Inr a | Some b \<Rightarrow> last_sibling k s b)"

definition insert_child :: "addr option \<Rightarrow> addr \<Rightarrow> fs \<Rightarrow> fault + fs" where
  "insert_child p zero s =
     bindE (deref s p) (\<lambda>n.
     bindE (case Cptr n of
         None \<Rightarrow> Inr (upd (the p) (\<lambda>n. n\<lparr>Cptr := Some zero\<rparr>) s)
       | Some c \<Rightarrow> bindE (last_sibling (Suc (fresh s)) s c) (\<lambda>l. Inr (upd l (\<lambda>n. n\<lparr>Sptr := Some zero\<rparr>) s))) (\<lambda>s.
     Inr (upd zero (\<lambda>n. n\<lparr>Pptr := p, Cptr := None, Sptr := None\<rparr>) s)))"

definition tokenize :: "string \<Rightarrow> fault + string list" where
  \<comment> \<open>the names in \<open>nm\<close>, whose number is \<open>prime\<close>\<close>
  "tokenize pathname =
     bindE (copy_to 130 pathname) (\<lambda>t.
     let ws = strtok_all (CHR ''/'') t in if length ws \<le> 40 then Inr ws else Inl OutOfBounds)"

fun walk :: "fs \<Rightarrow> addr option \<Rightarrow> string list \<Rightarrow> fault + addr option" where
  \<comment> \<open>the loop of \<open>nodeP\<close>; \<open>Inr None\<close> is the error return\<close>
  "walk s chief [] = Inr chief"
| "walk s chief (x # xs) =
     (if x = ''.'' then walk s chief xs
      else if x = ''..'' then bindE (deref s chief) (\<lambda>n. walk s (Pptr n) xs)
      else bindE (lookC chief x s) (\<lambda>c. case c of None \<Rightarrow> Inr None | Some a \<Rightarrow> walk s (Some a) xs))"

definition nodeP :: "string \<Rightarrow> fs \<Rightarrow> fault + addr option" where
  \<comment> \<open>where the path starts is decided by the global \<open>dirname\<close>\<close>
  "nodeP pathname s =
     (let start = (case dirname s of c # _ \<Rightarrow> if c = CHR ''/'' then root s else cwd s | [] \<Rightarrow> cwd s) in
      bindE (tokenize pathname) (walk s (Some start)))"

definition z :: "string \<Rightarrow> fs \<Rightarrow> fault + fs" where
  "z pathname s =
     bindE (copy_to 130 pathname) (\<lambda>x.
     bindE (copy_to 70 (posix_dirname x)) (\<lambda>d.
     bindE (copy_to 70 (posix_basename x)) (\<lambda>b.
     Inr (s\<lparr>dirname := d, basename := b\<rparr>))))"

section \<open>Commands\<close>

text \<open>Every command returns its result and the new state.\<close>

definition reserved :: "string \<Rightarrow> bool" where
  "reserved b \<longleftrightarrow> b = ''/'' \<or> b = ''.'' \<or> b = ''..''"

definition add_node :: "char \<Rightarrow> string \<Rightarrow> fs \<Rightarrow> fault + int \<times> fs" where
  \<comment> \<open>\<open>mkdir\<close> and \<open>create\<close>, which differ in the type only\<close>
  "add_node ty pathname s =
     bindE (z pathname s) (\<lambda>s.
     if reserved (basename s) then Inr (-1, s)
     else bindE (nodeP (dirname s) s) (\<lambda>sT.
          bindE (lookC sT (basename s) s) (\<lambda>chief.
          if chief \<noteq> None then Inr (-1, s)
          else let zero = fresh s;
                   s = s\<lparr>fresh := Suc zero, heap := (heap s)(zero \<mapsto>
                     \<lparr>nm = basename s, type = ty, Cptr = None, Sptr = None, Pptr = None\<rparr>)\<rparr> in
               bindE (insert_child sT zero s) (\<lambda>s. Inr (0, s)))))"

definition mkdir :: "string \<Rightarrow> fs \<Rightarrow> fault + int \<times> fs" where
  "mkdir = add_node (CHR ''Y'')"

definition create :: "string \<Rightarrow> fs \<Rightarrow> fault + int \<times> fs" where
  "create = add_node (CHR ''G'')"

definition rmdir :: "string \<Rightarrow> fs \<Rightarrow> fault + int \<times> fs" where
  "rmdir pathname s =
     bindE (z pathname s) (\<lambda>s.
     if reserved (basename s) then Inr (-1, s)
     else bindE (nodeP (dirname s) s) (\<lambda>sT.
          bindE (lookC sT (basename s) s) (\<lambda>chief.
          case chief of None \<Rightarrow> Inr (-1, s)
          | Some a \<Rightarrow>
            bindE (deref s (Some a)) (\<lambda>n.
            if Cptr n \<noteq> None then Inr (-1, s)
            else bindE (deref s (Pptr n)) (\<lambda>_.
                 Inr (0, free a (upd (the (Pptr n)) (\<lambda>p. p\<lparr>Cptr := Sptr n\<rparr>) s)))))))"

definition rm :: "string \<Rightarrow> fs \<Rightarrow> fault + int \<times> fs" where
  "rm pathname s =
     bindE (z pathname s) (\<lambda>s.
     bindE (nodeP (dirname s) s) (\<lambda>sT.
     bindE (lookC sT (basename s) s) (\<lambda>chief.
     case chief of None \<Rightarrow> Inr (-1, s)
     | Some a \<Rightarrow>
       bindE (deref s (Some a)) (\<lambda>n.
       if type n \<noteq> CHR ''G'' then Inr (-1, s)
       else bindE (deref s (Pptr n)) (\<lambda>_.
            Inr (0, free a (upd (the (Pptr n)) (\<lambda>p. p\<lparr>Cptr := None\<rparr>) s)))))))"

definition cd :: "string \<Rightarrow> fs \<Rightarrow> fault + int \<times> fs" where
  "cd pathname s =
     bindE (nodeP pathname s) (\<lambda>chief.
     bindE (deref s chief) (\<lambda>n.
     if type n = CHR ''Y'' then Inr (0, s\<lparr>cwd := the chief\<rparr>) else Inr (-1, s)))"

fun list_siblings :: "nat \<Rightarrow> fs \<Rightarrow> addr option \<Rightarrow> fault + (char \<times> string) list" where
  \<comment> \<open>the loop of \<open>ls\<close>\<close>
  "list_siblings 0 s chief = Inl NonTermination"
| "list_siblings (Suc k) s None = Inr []"
| "list_siblings (Suc k) s (Some a) =
     bindE (deref s (Some a)) (\<lambda>n. bindE (list_siblings k s (Sptr n)) (\<lambda>es. Inr ((type n, nm n) # es)))"

definition ls :: "string \<Rightarrow> fs \<Rightarrow> fault + (char \<times> string) list \<times> fs" where
  \<comment> \<open>the types and names that are passed to \<open>printf\<close>\<close>
  "ls pathname s =
     bindE (z pathname s) (\<lambda>s.
     bindE (nodeP pathname s) (\<lambda>chief.
     bindE (deref s chief) (\<lambda>n.
     bindE (list_siblings (Suc (fresh s)) s (Cptr n)) (\<lambda>es. Inr (es, s)))))"

fun helperFunction :: "nat \<Rightarrow> fs \<Rightarrow> addr option \<Rightarrow> fault + string list" where
  \<comment> \<open>the names that are passed to \<open>printf (''%a/'', ...)\<close>, in order; what it makes of them is not modelled\<close>
  "helperFunction 0 s chief = Inl NonTermination"
| "helperFunction (Suc k) s chief =
     (if chief = Some (root s) then Inr []
      else bindE (deref s chief) (\<lambda>n. bindE (helperFunction k s (Pptr n)) (\<lambda>xs. Inr (xs @ [nm n]))))"

definition pwd :: "fs \<Rightarrow> fault + string list" where
  "pwd s = helperFunction (Suc (fresh s)) s (Some (cwd s))"

section \<open>The command loop\<close>

definition commands :: "string list" where
  \<comment> \<open>the array \<open>cmd\<close>\<close>
  "commands = [''mkdir'', ''rmdir'', ''ls'', ''cd'', ''pwd'', ''create'', ''rm'', ''reload'', ''save'', ''quit'']"

fun find_commad_loop :: "string list \<Rightarrow> string \<Rightarrow> int \<Rightarrow> int" where
  "find_commad_loop [] u j = -1"
| "find_commad_loop (c # cs) u j = (if u = c then j else find_commad_loop cs u (j + 1))"

definition find_commad :: "string \<Rightarrow> int" where
  "find_commad u = find_commad_loop commands u 0"

definition quit :: "fault + fs" where
  "quit = Inl (Exit 0)"

lemma quit_exits [simp]: "quit = Inl (Exit 0)"
  by (simp add: quit_def)

definition call :: "int \<Rightarrow> string \<Rightarrow> fs \<Rightarrow> fault + fs" where
  \<comment> \<open>\<open>Ar[origin] (pathname)\<close>; the array has eight entries\<close>
  "call origin pathname s =
     (if origin = 0 then bindE (mkdir pathname s) (Inr \<circ> snd)
      else if origin = 1 then bindE (rmdir pathname s) (Inr \<circ> snd)
      else if origin = 2 then bindE (ls pathname s) (Inr \<circ> snd)
      else if origin = 3 then bindE (cd pathname s) (Inr \<circ> snd)
      else if origin = 4 then bindE (pwd s) (\<lambda>_. Inr s)
      else if origin = 5 then bindE (create pathname s) (Inr \<circ> snd)
      else if origin = 6 then bindE (rm pathname s) (Inr \<circ> snd)
      else if origin = 7 then quit
      else Inl OutOfBounds)"

definition command :: "string \<times> string \<Rightarrow> fs \<Rightarrow> fault + fs" where
  \<comment> \<open>one round of \<open>main\<close>, from the two words that \<open>sscanf\<close> has stored\<close>
  "command = (\<lambda>(user_command, pathname) s.
     if user_command = [] then Inr s else call (find_commad user_command) pathname s)"

lemma fgets_130_shrinks: "fgets 130 f = Some (l, r) \<Longrightarrow> length r < length f"
  using fgets_chars_shrinks [of f 128]
  by (auto simp: fgets_def numeral_eq_Suc split: if_splits)

definition read_line :: "string \<Rightarrow> string \<Rightarrow> string \<times> string" where
  \<comment> \<open>\<open>fgets (line, 130, stdin)\<close>: at the end of the input the old line stays\<close>
  "read_line stdin old = (case fgets 130 stdin of None \<Rightarrow> (old, []) | Some (l, r) \<Rightarrow> (c_string l, r))"

lemma read_line_shrinks:
  assumes "(l, rest) = read_line stdin old"
  shows "length rest < length stdin \<or> (rest = [] \<and> stdin = [] \<and> l = old)"
proof (cases "fgets 130 stdin")
  case None
  with assms show ?thesis by (simp add: read_line_def fgets_def split: if_splits)
next
  case (Some x)
  with assms fgets_130_shrinks [of stdin "fst x" "snd x"] show ?thesis
    by (auto simp: read_line_def split: prod.splits)
qed

function main_loop :: "(string \<Rightarrow> string list) \<Rightarrow> string \<Rightarrow> string \<Rightarrow> string \<Rightarrow> fs \<Rightarrow> fault \<times> fs" where
  \<comment> \<open>the loop of \<open>main\<close> with the input left, and the globals \<open>line\<close> and \<open>user_command\<close>: how the
      program ends, and the state then. \<open>scan\<close> gives the words that \<open>sscanf (line, "%a %a", ...)\<close> stores.\<close>
  "main_loop scan stdin old user_command s =
     (let (l, rest) = read_line stdin old in
      if l = [] then (OutOfBounds, s)
      else
        let l = butlast l;
            user_command = (case scan l of [] \<Rightarrow> user_command | w # _ \<Rightarrow> w);
            pathname = (case scan l of _ # p # _ \<Rightarrow> p | _ \<Rightarrow> [])
        in if length user_command < 20 \<and> length pathname < 70
           then case command (user_command, pathname) s of
               Inl f \<Rightarrow> (f, s)
             | Inr s \<Rightarrow> main_loop scan rest l user_command s
           else (OutOfBounds, s))"
  by pat_completeness auto
termination
proof (relation "measures [\<lambda>(scan, stdin, old, u, s). length stdin, \<lambda>(scan, stdin, old, u, s). length old]", goal_cases)
  case (2 scan stdin old u s x l rest)
  then show ?case using read_line_shrinks [of l rest stdin old] by auto
qed simp

declare main_loop.simps [simp del]

definition main_fs :: "(string \<Rightarrow> string list) \<Rightarrow> string \<Rightarrow> fault \<times> fs" where
  "main_fs scan stdin = main_loop scan stdin [] [] initialize"

end
