(* ===== verification/Fs_Inv.thy ===== *)
theory Fs_Inv
  imports Fs
begin

text \<open>
  The well-formedness of the tree of lab1/lab1_hutchins.c, what the pointer loops compute in a
  well-formed tree, and what linking and unlinking nodes does to it.
\<close>

section \<open>Views of the heap\<close>

definition sptr :: "fs \<Rightarrow> addr \<Rightarrow> addr option" where
  "sptr s a = Option.bind (heap s a) Sptr"

definition cptr :: "fs \<Rightarrow> addr \<Rightarrow> addr option" where
  "cptr s a = Option.bind (heap s a) Cptr"

definition pptr :: "fs \<Rightarrow> addr \<Rightarrow> addr option" where
  "pptr s a = Option.bind (heap s a) Pptr"

definition names :: "fs \<Rightarrow> addr \<Rightarrow> string" where
  "names s a = (case heap s a of None \<Rightarrow> [] | Some n \<Rightarrow> nm n)"

lemmas views = sptr_def cptr_def pptr_def names_def

definition kids :: "fs \<Rightarrow> addr \<Rightarrow> addr list \<Rightarrow> bool" where
  \<comment> \<open>the children of a node in order\<close>
  "kids s a xs \<longleftrightarrow> chain (sptr s) (cptr s a) xs \<and>
     (\<forall>b \<in> set xs. b \<in> dom (heap s) \<and> pptr s b = Some a \<and> b \<noteq> root s) \<and> distinct (map (names s) xs)"

definition tree_ok :: "fs \<Rightarrow> bool" where
  "tree_ok s \<longleftrightarrow> root s \<in> dom (heap s) \<and> pptr s (root s) = Some (root s) \<and>
     (\<forall>a \<in> dom (heap s). a < fresh s \<and> (pptr s a = Some a \<longrightarrow> a = root s) \<and> (\<exists>xs. kids s a xs))"

lemma wf_self: "tree_ok s \<Longrightarrow> a \<in> dom (heap s) \<Longrightarrow> pptr s a = Some a \<Longrightarrow> a = root s"
  by (simp add: tree_ok_def)

lemma tree_ok_initialize: "tree_ok initialize"
  by (simp add: tree_ok_def initialize_def kids_def views)

lemma kids_unique: "kids s a xs \<Longrightarrow> kids s a ys \<Longrightarrow> xs = ys"
  by (auto simp: kids_def dest: chain_unique)

lemma wf_kids:
  assumes "tree_ok s" "a \<in> dom (heap s)"
  obtains xs where "kids s a xs" "length xs \<le> fresh s"
proof -
  obtain xs where xs: "kids s a xs" using assms by (auto simp: tree_ok_def)
  then have "distinct xs" by (auto simp: kids_def dest: chain_distinct)
  moreover have "set xs \<subseteq> {0..<fresh s}" using xs assms(1) by (auto simp: kids_def tree_ok_def)
  ultimately have "length xs \<le> fresh s" by (metis card_atLeastLessThan card_mono distinct_card finite_atLeastLessThan minus_nat.diff_0)
  with xs show thesis by (rule that)
qed

lemma kids_disjoint: "kids s a ys \<Longrightarrow> kids s b xs \<Longrightarrow> a \<noteq> b \<Longrightarrow> c \<in> set xs \<Longrightarrow> c \<notin> set ys"
  unfolding kids_def by fastforce

lemma deref_simps [simp]:
  "deref s None = Inl NullDeref"
  "heap s a = Some n \<Longrightarrow> deref s (Some a) = Inr n"
  by (simp_all add: deref_def)

section \<open>The loops\<close>

lemma find_sibling_chain:
  "chain (sptr s) p xs \<Longrightarrow> set xs \<subseteq> dom (heap s) \<Longrightarrow> length xs \<le> k \<Longrightarrow>
   find_sibling (Suc k) s p x = Inr (List.find (\<lambda>b. names s b = x) xs)"
proof (induction xs arbitrary: p k)
  case (Cons a xs)
  then obtain n where n: "heap s a = Some n" by auto
  obtain k' where "k = Suc k'" using Cons.prems(3) by (cases k) auto
  with Cons n show ?case by (simp add: views)
qed simp

lemma last_sibling_chain:
  "chain (sptr s) (Some a) (a # xs) \<Longrightarrow> set (a # xs) \<subseteq> dom (heap s) \<Longrightarrow> length (a # xs) \<le> Suc k \<Longrightarrow>
   last_sibling (Suc k) s a = Inr (last (a # xs))"
proof (induction xs arbitrary: a k)
  case Nil
  then obtain n where "heap s a = Some n" by auto
  with Nil show ?case by (simp add: views)
next
  case (Cons b xs)
  then obtain n where n: "heap s a = Some n" by auto
  obtain k' where "k = Suc k'" using Cons.prems(3) by (cases k) auto
  with Cons n show ?case by (simp add: views)
qed

lemma list_siblings_chain:
  "chain (sptr s) p xs \<Longrightarrow> set xs \<subseteq> dom (heap s) \<Longrightarrow> length xs \<le> k \<Longrightarrow>
   list_siblings (Suc k) s p = Inr (map (\<lambda>b. (type (the (heap s b)), names s b)) xs)"
proof (induction xs arbitrary: p k)
  case (Cons a xs)
  then obtain n where n: "heap s a = Some n" by auto
  obtain k' where "k = Suc k'" using Cons.prems(3) by (cases k) auto
  with Cons n show ?case by (simp add: views)
qed simp

lemma kids_dom: "kids s a xs \<Longrightarrow> set xs \<subseteq> dom (heap s)"
  by (auto simp: kids_def)

lemma lookC_kids:
  assumes "tree_ok s" "a \<in> dom (heap s)" "kids s a xs"
  shows "lookC (Some a) x s = Inr (List.find (\<lambda>b. names s b = x) xs)"
proof -
  obtain ys where "kids s a ys" "length ys \<le> fresh s" by (rule wf_kids [OF assms(1,2)])
  with kids_unique [OF assms(3)] have "length xs \<le> fresh s" by blast
  with find_sibling_chain [of s "cptr s a" xs "fresh s" x] kids_dom [OF assms(3)] assms(2,3)
  show ?thesis by (auto simp: lookC_def kids_def cptr_def)
qed

lemma find_name_Some:
  "distinct (map f xs) \<Longrightarrow> List.find (\<lambda>b. f b = x) xs = Some b \<longleftrightarrow> b \<in> set xs \<and> f b = x"
  by (induction xs) auto

lemma find_name_None: "List.find (\<lambda>b. f b = x) xs = None \<longleftrightarrow> x \<notin> f ` set xs"
  by (induction xs) auto

lemma find_snoc: "List.find P (xs @ [a]) =
    (case List.find P xs of Some b \<Rightarrow> Some b | None \<Rightarrow> if P a then Some a else None)"
  by (induction xs) auto

lemma lookC_Some:
  assumes "tree_ok s" "a \<in> dom (heap s)" "lookC (Some a) x s = Inr (Some b)"
  shows "b \<in> dom (heap s)" "pptr s b = Some a" "b \<noteq> root s" "names s b = x"
proof -
  obtain xs where xs: "kids s a xs" using assms(1,2) by (rule wf_kids)
  with lookC_kids [OF assms(1,2) xs, of x] assms(3) have "List.find (\<lambda>b. names s b = x) xs = Some b" by simp
  then have "b \<in> set xs" "names s b = x" using find_name_Some [of "names s" xs] xs by (auto simp: kids_def)
  then show "b \<in> dom (heap s)" "pptr s b = Some a" "b \<noteq> root s" "names s b = x"
    using xs by (auto simp: kids_def)
qed

lemma lookC_total:
  assumes "tree_ok s" "a \<in> dom (heap s)"
  obtains r where "lookC (Some a) x s = Inr r"
  using wf_kids [OF assms] lookC_kids [OF assms] by metis

section \<open>Linking a new node\<close>

definition alloc :: "char \<Rightarrow> string \<Rightarrow> fs \<Rightarrow> fs" where
  "alloc ty x s = s\<lparr>fresh := Suc (fresh s), heap := (heap s)(fresh s \<mapsto>
     \<lparr>nm = x, type = ty, Cptr = None, Sptr = None, Pptr = None\<rparr>)\<rparr>"

definition link_last :: "addr \<Rightarrow> addr list \<Rightarrow> addr \<Rightarrow> fs \<Rightarrow> fs" where
  "link_last p xs b s = upd b (\<lambda>n. n\<lparr>Pptr := Some p, Cptr := None, Sptr := None\<rparr>)
     (if xs = [] then upd p (\<lambda>n. n\<lparr>Cptr := Some b\<rparr>) s else upd (last xs) (\<lambda>n. n\<lparr>Sptr := Some b\<rparr>) s)"

lemma link_views:
  assumes "tree_ok s" "p \<in> dom (heap s)" "kids s p xs" and t: "t = link_last p xs (fresh s) (alloc ty x s)"
  shows "dom (heap t) = insert (fresh s) (dom (heap s))"
    "sptr t = (if xs = [] then sptr s else (sptr s)(last xs := Some (fresh s)))(fresh s := None)"
    "cptr t = (if xs = [] then (cptr s)(p := Some (fresh s)) else cptr s)(fresh s := None)"
    "pptr t = (pptr s)(fresh s := Some p)" "names t = (names s)(fresh s := x)"
    "root t = root s" "fresh t = Suc (fresh s)" "cwd t = cwd s"
    "map_option type \<circ> heap t = (map_option type \<circ> heap s)(fresh s \<mapsto> ty)"
proof -
  have new: "fresh s \<notin> dom (heap s)" using assms(1) by (auto simp: tree_ok_def)
  have "xs \<noteq> [] \<Longrightarrow> last xs \<in> dom (heap s)" using kids_dom [OF assms(3)] by (meson last_in_set subsetD)
  with new assms(2) have d: "p \<noteq> fresh s" "xs \<noteq> [] \<Longrightarrow> last xs \<noteq> fresh s"
      "\<exists>n. heap s p = Some n" "xs \<noteq> [] \<Longrightarrow> \<exists>n. heap s (last xs) = Some n" by auto
  show "dom (heap t) = insert (fresh s) (dom (heap s))"
    using d by (auto simp: t link_last_def alloc_def upd_def split: if_splits)
  show "sptr t = (if xs = [] then sptr s else (sptr s)(last xs := Some (fresh s)))(fresh s := None)"
    "cptr t = (if xs = [] then (cptr s)(p := Some (fresh s)) else cptr s)(fresh s := None)"
    "pptr t = (pptr s)(fresh s := Some p)" "names t = (names s)(fresh s := x)"
    "map_option type \<circ> heap t = (map_option type \<circ> heap s)(fresh s \<mapsto> ty)"
    using d by (auto simp: t link_last_def alloc_def upd_def views fun_eq_iff)
  show "root t = root s" "fresh t = Suc (fresh s)" "cwd t = cwd s"
    by (simp_all add: t link_last_def alloc_def upd_def)
qed

lemma insert_child_links:
  assumes "tree_ok s" "p \<in> dom (heap s)" "kids s p xs"
  shows "insert_child (Some p) (fresh s) (alloc ty x s) = Inr (link_last p xs (fresh s) (alloc ty x s))"
proof -
  let ?s = "alloc ty x s"
  have new: "fresh s \<notin> dom (heap s)" using assms(1) by (auto simp: tree_ok_def)
  obtain n where n: "heap s p = Some n" using assms(2) by auto
  with new have "heap ?s p = Some n" by (auto simp: alloc_def)
  moreover have xs: "set xs \<subseteq> dom (heap s)" by (rule kids_dom [OF assms(3)])
  moreover have l: "length xs \<le> Suc (fresh s)"
    using wf_kids [OF assms(1,2)] kids_unique [OF assms(3)] by (metis le_Suc_eq)
  moreover have sp: "sptr ?s = (sptr s)(fresh s := None)" by (auto simp: alloc_def views)
  ultimately show ?thesis
  proof (cases xs)
    case Nil
    then have "Cptr n = None" using assms(3) n by (simp add: kids_def cptr_def)
    with \<open>heap ?s p = Some n\<close> Nil show ?thesis by (simp add: insert_child_def link_last_def)
  next
    case (Cons c ys)
    then have c: "Cptr n = Some c" "chain (sptr s) (Some c) (c # ys)"
      using assms(3) n by (simp_all add: kids_def cptr_def)
    have "fresh s \<notin> set (c # ys)" using xs new Cons by auto
    then have "chain (sptr ?s) (Some c) (c # ys)" using c(2) unfolding sp by (simp del: chain.simps)
    moreover have "set (c # ys) \<subseteq> dom (heap ?s)" using xs Cons by (auto simp: alloc_def)
    ultimately have "last_sibling (Suc (Suc (fresh s))) ?s c = Inr (last (c # ys))"
      using l Cons by (intro last_sibling_chain) auto
    moreover have "fresh ?s = Suc (fresh s)" by (simp add: alloc_def)
    ultimately show ?thesis using \<open>heap ?s p = Some n\<close> Cons c(1)
      by (simp add: insert_child_def link_last_def del: last_sibling.simps)
  qed
qed

lemma link_kids:
  assumes "tree_ok s" "p \<in> dom (heap s)" "kids s p xs" "x \<notin> names s ` set xs"
    and t: "t = link_last p xs (fresh s) (alloc ty x s)"
  shows "kids t p (xs @ [fresh s])" "kids t (fresh s) []"
    "a \<in> dom (heap s) \<Longrightarrow> a \<noteq> p \<Longrightarrow> kids s a ys \<Longrightarrow> kids t a ys"
proof -
  note v = link_views [OF assms(1-3) t]
  have new: "fresh s \<notin> dom (heap s)" using assms(1) by (auto simp: tree_ok_def)
  then have nf: "fresh s \<notin> set xs" "p \<noteq> fresh s" "root s \<noteq> fresh s"
    using kids_dom [OF assms(3)] assms(1,2) by (auto simp: tree_ok_def)
  have c: "chain (sptr s) (cptr s p) xs" using assms(3) by (simp add: kids_def)
  have "chain (sptr t) (cptr t p) (xs @ [fresh s])"
  proof (cases "xs = []")
    case True
    then show ?thesis using nf by (simp add: v(2,3))
  next
    case False
    with chain_append_cell [OF c False nf(1)] nf show ?thesis by (simp add: v(2,3))
  qed
  moreover have m: "map (names t) (xs @ [fresh s]) = map (names s) xs @ [x]"
    using nf(1) by (auto simp: v(5))
  have "distinct (map (names t) (xs @ [fresh s]))"
    unfolding m using assms(3,4) by (auto simp: kids_def)
  ultimately show "kids t p (xs @ [fresh s])"
    using assms(3) nf unfolding kids_def by (auto simp: v(1,4,6))
  show "kids t (fresh s) []" by (simp add: kids_def v(3))
  show "kids t a ys" if a: "a \<in> dom (heap s)" "a \<noteq> p" "kids s a ys"
  proof -
    have "fresh s \<notin> set ys" "a \<noteq> fresh s" using kids_dom [OF a(3)] a(1) new by auto
    moreover have "xs \<noteq> [] \<Longrightarrow> last xs \<notin> set ys"
      using a(2) kids_disjoint [OF a(3) assms(3)] last_in_set [of xs] by auto
    ultimately have "chain (sptr t) (cptr t a) ys"
      using a by (auto simp: kids_def v(2,3))
    moreover have m: "map (names t) ys = map (names s) ys" using \<open>fresh s \<notin> set ys\<close> by (auto simp: v(5))
    have "distinct (map (names t) ys)" using a(3) unfolding m by (simp add: kids_def)
    ultimately show ?thesis using a(3) \<open>fresh s \<notin> set ys\<close> unfolding kids_def by (auto simp: v(1,4,6))
  qed
qed

lemma link_wf:
  assumes "tree_ok s" "p \<in> dom (heap s)" "kids s p xs" "x \<notin> names s ` set xs"
    and t: "t = link_last p xs (fresh s) (alloc ty x s)"
  shows "tree_ok t"
proof -
  note v = link_views [OF assms(1-3) t] and k = link_kids [OF assms]
  have new: "fresh s \<notin> dom (heap s)" using assms(1) by (auto simp: tree_ok_def)
  have "\<exists>ys. kids t a ys" if "a \<in> dom (heap t)" for a
  proof (cases "a = p \<or> a = fresh s")
    case True
    then show ?thesis using k(1,2) by blast
  next
    case False
    then have "a \<in> dom (heap s)" using that by (simp add: v(1))
    with False k(3) show ?thesis using assms(1) by (meson wf_kids)
  qed
  moreover have "a < fresh t" if "a \<in> dom (heap t)" for a
    using that assms(1) by (auto simp: v(1,7) tree_ok_def intro: less_SucI)
  moreover have "a = root t" if a: "a \<in> dom (heap t)" "pptr t a = Some a" for a
  proof (cases "a = fresh s")
    case True
    then show ?thesis using a(2) assms(2) new by (simp add: v(4))
  next
    case False
    then have "a \<in> dom (heap s)" "pptr s a = Some a" using a by (simp_all add: v(1,4))
    then show ?thesis unfolding v(6) by (rule wf_self [OF assms(1)])
  qed
  moreover have "root t \<in> dom (heap t)" "pptr t (root t) = Some (root t)"
    using assms(1) new by (auto simp: tree_ok_def v(1,4,6))
  ultimately show ?thesis unfolding tree_ok_def by blast
qed

text \<open>What lookups find after the new node has been linked.\<close>

lemma link_lookC:
  assumes "tree_ok s" "p \<in> dom (heap s)" "kids s p xs" "x \<notin> names s ` set xs"
    and t: "t = link_last p xs (fresh s) (alloc ty x s)"
  shows "a \<in> dom (heap s) \<Longrightarrow> lookC (Some a) y t =
      (if a = p \<and> y = x then Inr (Some (fresh s)) else lookC (Some a) y s)"
    "lookC (Some (fresh s)) y t = Inr None"
proof -
  note v = link_views [OF assms(1-3) t] and k = link_kids [OF assms] and w = link_wf [OF assms]
  have new: "fresh s \<notin> dom (heap s)" using assms(1) by (auto simp: tree_ok_def)
  have same: "List.find (\<lambda>b. names t b = y) ys = List.find (\<lambda>b. names s b = y) ys" if "set ys \<subseteq> dom (heap s)" for ys
    using that new by (induction ys) (auto simp: v(5))
  show "lookC (Some (fresh s)) y t = Inr None"
    using lookC_kids [OF w _ k(2)] by (simp add: v(1))
  show "lookC (Some a) y t = (if a = p \<and> y = x then Inr (Some (fresh s)) else lookC (Some a) y s)"
    if a: "a \<in> dom (heap s)"
  proof (cases "a = p")
    case True
    have "List.find (\<lambda>b. names s b = y) xs = None" if "y = x"
      using that assms(4) by (simp add: find_name_None)
    moreover have "names t (fresh s) = x" by (simp add: v(5))
    ultimately have "List.find (\<lambda>b. names t b = y) (xs @ [fresh s]) =
        (if y = x then Some (fresh s) else List.find (\<lambda>b. names t b = y) xs)"
      using same [OF kids_dom [OF assms(3)]] by (simp add: find_snoc split: option.split)
    then show ?thesis
      using True lookC_kids [OF w _ k(1)] lookC_kids [OF assms(1-3)] same [OF kids_dom [OF assms(3)]]
      by (simp add: v(1) assms(2))
  next
    case False
    obtain ys where ys: "kids s a ys" using assms(1) a by (rule wf_kids)
    with lookC_kids [OF w _ k(3) [OF a False ys]] lookC_kids [OF assms(1) a ys] same [OF kids_dom [OF ys]] a False
    show ?thesis by (simp add: v(1))
  qed
qed

section \<open>Unlinking a node\<close>

definition unlink :: "addr \<Rightarrow> addr \<Rightarrow> addr option \<Rightarrow> fs \<Rightarrow> fs" where
  "unlink p a q s = free a (upd p (\<lambda>n. n\<lparr>Cptr := q\<rparr>) s)"

lemma unlink_views:
  assumes "p \<in> dom (heap s)" "a \<noteq> p" and t: "t = unlink p a q s"
  shows "dom (heap t) = dom (heap s) - {a}" "sptr t = (sptr s)(a := None)"
    "cptr t = (cptr s)(p := q, a := None)" "pptr t = (pptr s)(a := None)" "names t = (names s)(a := [])"
    "root t = root s" "fresh t = fresh s" "cwd t = cwd s"
    "map_option type \<circ> heap t = (map_option type \<circ> heap s)(a := None)"
proof -
  show "dom (heap t) = dom (heap s) - {a}"
    using assms(1,2) by (auto simp: t unlink_def free_def upd_def)
  show "sptr t = (sptr s)(a := None)" "pptr t = (pptr s)(a := None)" "names t = (names s)(a := [])"
    "cptr t = (cptr s)(p := q, a := None)" "map_option type \<circ> heap t = (map_option type \<circ> heap s)(a := None)"
    using assms(1,2) by (auto simp: t unlink_def free_def upd_def views fun_eq_iff split: option.split)
qed (simp_all add: t unlink_def free_def upd_def)

lemma child_not_parent: "tree_ok s \<Longrightarrow> kids s p xs \<Longrightarrow> a \<in> set xs \<Longrightarrow> a \<noteq> p"
  by (auto simp: tree_ok_def kids_def)

text \<open>The first children, among them the one that is freed, go away; the others stay.\<close>

lemma unlink_kids:
  assumes "tree_ok s" "p \<in> dom (heap s)" "kids s p (ys @ zs)" "a \<in> set ys" "chain (sptr s) q zs"
    and t: "t = unlink p a q s"
  shows "kids t p zs" "b \<noteq> p \<Longrightarrow> b \<noteq> a \<Longrightarrow> kids s b ws \<Longrightarrow> kids t b ws"
proof -
  have ap: "a \<noteq> p" using child_not_parent [OF assms(1,3)] assms(4) by simp
  note v = unlink_views [OF assms(2) ap t]
  have keep: "chain (sptr t) r us \<and> map (names t) us = map (names s) us \<and>
      (\<forall>c \<in> set us. (c \<in> dom (heap t)) = (c \<in> dom (heap s)) \<and> pptr t c = pptr s c)"
    if "chain (sptr s) r us" "a \<notin> set us" for r us
    using that by (auto simp: v(1,2,4,5))
  have "distinct (ys @ zs)" using assms(3) by (auto simp: kids_def dest: chain_distinct)
  then have "a \<notin> set zs" using assms(4) by auto
  from keep [OF assms(5) this] show "kids t p zs"
    using assms(3) ap unfolding kids_def by (auto simp: v(3,6) simp del: map_eq_conv)
  show "kids t b ws" if b: "b \<noteq> p" "b \<noteq> a" "kids s b ws"
  proof -
    have "a \<notin> set ws" using kids_disjoint [OF b(3) assms(3)] b(1) assms(4) by auto
    from keep [OF _ this, of "cptr s b"] b show ?thesis
      unfolding kids_def by (auto simp: v(3,6) simp del: map_eq_conv)
  qed
qed

lemma unlink_wf:
  assumes "tree_ok s" "p \<in> dom (heap s)" "kids s p (ys @ zs)" "a \<in> set ys" "chain (sptr s) q zs"
    and t: "t = unlink p a q s"
  shows "tree_ok t"
proof -
  have ap: "a \<noteq> p" "a \<noteq> root s"
    using child_not_parent [OF assms(1,3)] assms(3,4) by (auto simp: kids_def)
  note v = unlink_views [OF assms(2) ap(1) t] and k = unlink_kids [OF assms]
  have "\<exists>ws. kids t b ws" if "b \<in> dom (heap t)" for b
  proof (cases "b = p")
    case True
    then show ?thesis using k(1) by blast
  next
    case False
    have "b \<in> dom (heap s)" "b \<noteq> a" using that by (auto simp: v(1))
    with False k(2) assms(1) show ?thesis by (meson wf_kids)
  qed
  then show ?thesis using assms(1) ap(2) unfolding tree_ok_def by (auto simp: v(1,4,6,7) split: if_splits)
qed

lemma unlink_lookC:
  assumes "tree_ok s" "p \<in> dom (heap s)" "kids s p (ys @ zs)" "a \<in> set ys" "chain (sptr s) q zs"
    and t: "t = unlink p a q s" and b: "b \<in> dom (heap s)" "b \<noteq> a"
  shows "lookC (Some b) y t = (if b = p \<and> y \<in> names s ` set ys then Inr None else lookC (Some b) y s)"
proof -
  have ap: "a \<noteq> p" using child_not_parent [OF assms(1,3)] assms(4) by simp
  note v = unlink_views [OF assms(2) ap t] and k = unlink_kids [OF assms(1-5) t]
    and w = unlink_wf [OF assms(1-5) t]
  have bt: "b \<in> dom (heap t)" using b by (simp add: v(1))
  have same: "List.find (\<lambda>c. names t c = y) us = List.find (\<lambda>c. names s c = y) us" if "a \<notin> set us" for us
    using that by (induction us) (auto simp: v(5))
  show ?thesis
  proof (cases "b = p")
    case True
    have d: "distinct (ys @ zs)" "distinct (map (names s) (ys @ zs))"
      using assms(3) by (auto simp: kids_def dest: chain_distinct)
    then have "a \<notin> set zs" using assms(4) by auto
    from same [OF this] have "lookC (Some b) y t = Inr (List.find (\<lambda>c. names s c = y) zs)"
      using lookC_kids [OF w bt, of zs] k(1) True by simp
    moreover have "List.find (\<lambda>c. names s c = y) zs = None" if "y \<in> names s ` set ys"
      using that d(2) by (auto simp: find_name_None)
    moreover have "List.find (\<lambda>c. names s c = y) (ys @ zs) = List.find (\<lambda>c. names s c = y) zs" if "y \<notin> names s ` set ys"
      using that by (intro find_skip) auto
    ultimately show ?thesis using lookC_kids [OF assms(1-3)] True by auto
  next
    case False
    obtain ws where ws: "kids s b ws" using assms(1) b(1) by (rule wf_kids)
    have "a \<notin> set ws" using kids_disjoint [OF ws assms(3) False] assms(4) by auto
    from same [OF this] show ?thesis
      using lookC_kids [OF w bt k(2) [OF False b(2) ws]] lookC_kids [OF assms(1) b(1) ws] False by simp
  qed
qed

end
