(* ===== verification/Fs_Props.thy ===== *)
theory Fs_Props
  imports Fs_Inv
begin

text \<open>
  The file system of lab1/lab1_hutchins.c as a map from absolute paths to node types: how each
  command changes the map, where that is not what the command means, and that every command
  keeps the tree well formed.
\<close>

section \<open>The map of paths\<close>

fun resolve :: "fs \<Rightarrow> addr \<Rightarrow> string list \<Rightarrow> addr option" where
  "resolve s a [] = Some a"
| "resolve s a (x # xs) = (case lookC (Some a) x s of Inr (Some b) \<Rightarrow> resolve s b xs | _ \<Rightarrow> None)"

definition paths :: "fs \<Rightarrow> string list \<Rightarrow> char option" where
  "paths s q = Option.bind (resolve s (root s) q) (\<lambda>a. map_option type (heap s a))"

lemma resolve_append:
  "resolve s a (xs @ ys) = Option.bind (resolve s a xs) (\<lambda>b. resolve s b ys)"
  by (induction xs arbitrary: a) (auto split: sum.split option.split)

lemma resolve_dom: "tree_ok s \<Longrightarrow> a \<in> dom (heap s) \<Longrightarrow> resolve s a q = Some b \<Longrightarrow> b \<in> dom (heap s)"
proof (induction q arbitrary: a)
  case (Cons x q)
  then obtain c where c: "lookC (Some a) x s = Inr (Some c)" "resolve s c q = Some b"
    by (auto split: sum.splits option.splits)
  with Cons lookC_Some(1) [OF Cons.prems(1,2) c(1)] show ?case by blast
qed simp

lemma wf_root: "tree_ok s \<Longrightarrow> root s \<in> dom (heap s)"
  by (simp add: tree_ok_def)

lemma resolve_snoc_Some:
  assumes "tree_ok s" "a \<in> dom (heap s)" "resolve s a (q @ [x]) = Some b"
  obtains c where "resolve s a q = Some c" "c \<in> dom (heap s)" "lookC (Some c) x s = Inr (Some b)"
    "pptr s b = Some c" "names s b = x" "b \<noteq> root s" "b \<in> dom (heap s)"
proof -
  from assms(3) obtain c where c: "resolve s a q = Some c" "resolve s c [x] = Some b"
    by (auto simp: resolve_append Option.bind_eq_Some_conv simp del: resolve.simps)
  from c(2) have c': "lookC (Some c) x s = Inr (Some b)" by (auto split: sum.splits option.splits)
  have d: "c \<in> dom (heap s)" using resolve_dom [OF assms(1,2) c(1)] .
  from that [OF c(1) d c'] lookC_Some [OF assms(1) d c'] show thesis by blast
qed

text \<open>A node has one path only.\<close>

lemma resolve_unique:
  assumes "tree_ok s"
  shows "resolve s (root s) p = Some a \<Longrightarrow> resolve s (root s) q = Some a \<Longrightarrow> p = q"
proof (induction p arbitrary: a q rule: rev_induct)
  case Nil
  then show ?case
    by (cases q rule: rev_cases) (auto elim: resolve_snoc_Some [OF assms wf_root [OF assms]])
next
  case (snoc x p)
  obtain c where c: "resolve s (root s) p = Some c" "pptr s a = Some c" "names s a = x" "a \<noteq> root s"
    using resolve_snoc_Some [OF assms wf_root [OF assms] snoc.prems(1)] by blast
  show ?case
  proof (cases q rule: rev_cases)
    case Nil
    then show ?thesis using snoc.prems(2) c(4) by simp
  next
    case (snoc q' y)
    then obtain d where "resolve s (root s) q' = Some d" "pptr s a = Some d" "names s a = y"
      using resolve_snoc_Some [OF assms wf_root [OF assms]] \<open>resolve s (root s) q = Some a\<close> by metis
    with c snoc.IH [of c q'] snoc show ?thesis by simp
  qed
qed

lemma link_resolve:
  assumes "tree_ok s" "p \<in> dom (heap s)" "kids s p xs" "x \<notin> names s ` set xs"
    and t: "t = link_last p xs (fresh s) (alloc ty x s)"
  shows "a \<in> dom (heap s) \<Longrightarrow> resolve t a q =
    (if \<exists>r. q = r @ [x] \<and> resolve s a r = Some p then Some (fresh s) else resolve s a q)"
proof (induction q arbitrary: a)
  case Nil
  then show ?case by simp
next
  case (Cons y q)
  note l = link_lookC [OF assms]
  have none: "lookC (Some p) x s = Inr None"
    using lookC_kids [OF assms(1-3), of x] assms(4) by (simp add: find_name_None [THEN iffD2])
  have new: "resolve t (fresh s) q = (if q = [] then Some (fresh s) else None)"
    by (cases q) (simp_all add: l(2))
  show ?case
  proof (cases "a = p \<and> y = x")
    case True
    have "\<not> (\<exists>r. x # q = r @ [x] \<and> resolve s p r = Some p)" if "q \<noteq> []"
      using that none by (auto simp: Cons_eq_append_conv)
    with True show ?thesis using l(1) [OF Cons.prems, of x] new none by auto
  next
    case False
    then have look: "lookC (Some a) y t = lookC (Some a) y s" using l(1) [OF Cons.prems] by auto
    obtain r where r: "lookC (Some a) y s = Inr r" by (rule lookC_total [OF assms(1) Cons.prems])
    have split: "(\<exists>r. y # q = r @ [x] \<and> resolve s a r = Some p) \<longleftrightarrow>
        (\<exists>r. q = r @ [x] \<and> resolve s a (y # r) = Some p)"
      using False by (auto simp: Cons_eq_append_conv simp del: resolve.simps(2))
    show ?thesis
    proof (cases r)
      case None
      then show ?thesis by (simp only: split) (simp add: look r)
    next
      case (Some c)
      with lookC_Some(1) [OF assms(1) Cons.prems] r have "c \<in> dom (heap s)" by blast
      note ih = Cons.IH [OF this]
      have "resolve t a (y # q) = resolve t c q" "resolve s a (y # u) = resolve s c u" for u
        using r Some by (simp_all add: look)
      then show ?thesis by (simp only: split ih)
    qed
  qed
qed

text \<open>Linking a node adds one path.\<close>

lemma link_paths:
  assumes "tree_ok s" "resolve s (root s) p = Some a" "kids s a xs" "x \<notin> names s ` set xs"
    and t: "t = link_last a xs (fresh s) (alloc ty x s)"
  shows "paths t = (paths s)(p @ [x] \<mapsto> ty)"
proof
  fix q
  have a: "a \<in> dom (heap s)" by (rule resolve_dom [OF assms(1) wf_root [OF assms(1)] assms(2)])
  note v = link_views [OF assms(1) a assms(3) t] and w = link_wf [OF assms(1) a assms(3,4) t]
  have types: "map_option type (heap t b) = (if b = fresh s then Some ty else map_option type (heap s b))" for b
    using fun_cong [OF v(9), of b] by (auto simp: comp_def)
  have new: "fresh s \<notin> dom (heap s)" using assms(1) by (auto simp: tree_ok_def)
  have "(\<exists>r. q = r @ [x] \<and> resolve s (root s) r = Some a) \<longleftrightarrow> q = p @ [x]"
    using resolve_unique [OF assms(1) assms(2)] assms(2) by blast
  then have r: "resolve t (root s) q = (if q = p @ [x] then Some (fresh s) else resolve s (root s) q)"
    using link_resolve [OF assms(1) a assms(3,4) t wf_root [OF assms(1)], of q] by simp
  show "paths t q = ((paths s)(p @ [x] \<mapsto> ty)) q"
  proof (cases "q = p @ [x]")
    case True
    then show ?thesis using r by (simp add: paths_def v(6) types)
  next
    case False
    have "b \<noteq> fresh s" if "resolve s (root s) q = Some b" for b
      using resolve_dom [OF assms(1) wf_root [OF assms(1)] that] new by auto
    with False show ?thesis by (cases "resolve s (root s) q") (auto simp: paths_def v(6) r types)
  qed
qed

lemma unlink_resolve:
  assumes "tree_ok s" "p \<in> dom (heap s)" "kids s p (ys @ zs)" "a \<in> set ys" "chain (sptr s) h zs"
    and t: "t = unlink p a h s"
  shows "b \<in> dom (heap s) \<Longrightarrow> b \<noteq> a \<Longrightarrow> resolve t b q =
    (if \<exists>r y u. q = r @ y # u \<and> resolve s b r = Some p \<and> y \<in> names s ` set ys then None else resolve s b q)"
proof (induction q arbitrary: b)
  case Nil
  then show ?case by simp
next
  case (Cons y q)
  note l = unlink_lookC [OF assms Cons.prems]
  show ?case
  proof (cases "b = p \<and> y \<in> names s ` set ys")
    case True
    have "\<exists>r y' u. y # q = r @ y' # u \<and> resolve s b r = Some p \<and> y' \<in> names s ` set ys"
      using True by (intro exI [of _ "[]"] exI [of _ y] exI [of _ q]) simp
    moreover have "lookC (Some b) y t = Inr None" using l [of y] True by auto
    ultimately show ?thesis by simp
  next
    case False
    then have look: "lookC (Some b) y t = lookC (Some b) y s" using l by auto
    obtain r where r: "lookC (Some b) y s = Inr r" by (rule lookC_total [OF assms(1) Cons.prems(1)])
    have split: "(\<exists>r y' u. y # q = r @ y' # u \<and> resolve s b r = Some p \<and> y' \<in> names s ` set ys) \<longleftrightarrow>
        (\<exists>r y' u. q = r @ y' # u \<and> resolve s b (y # r) = Some p \<and> y' \<in> names s ` set ys)"
      using False by (auto simp: Cons_eq_append_conv simp del: resolve.simps(2))
    show ?thesis
    proof (cases r)
      case None
      then show ?thesis by (simp only: split) (simp add: look r)
    next
      case (Some c)
      note c = lookC_Some [OF assms(1) Cons.prems(1) r [unfolded Some]]
      have "c \<noteq> a" using c(2,4) False assms(3,4) by (auto simp: kids_def)
      note ih = Cons.IH [OF c(1) this]
      have "resolve t b (y # q) = resolve t c q" "resolve s b (y # u) = resolve s c u" for u
        using r Some by (simp_all add: look)
      then show ?thesis by (simp only: split ih)
    qed
  qed
qed

text \<open>Unlinking the first children of a node removes them and all that is below them.\<close>

lemma unlink_paths:
  assumes "tree_ok s" "resolve s (root s) p = Some d" "kids s d (ys @ zs)" "a \<in> set ys" "chain (sptr s) h zs"
    and t: "t = unlink d a h s"
  shows "paths t q = (if \<exists>y u. q = p @ y # u \<and> y \<in> names s ` set ys then None else paths s q)"
proof -
  have d: "d \<in> dom (heap s)" by (rule resolve_dom [OF assms(1) wf_root [OF assms(1)] assms(2)])
  have ad: "a \<noteq> d" "a \<noteq> root s"
    using child_not_parent [OF assms(1,3)] assms(3,4) by (auto simp: kids_def)
  note v = unlink_views [OF d ad(1) t] and w = unlink_wf [OF assms(1) d assms(3-5) t]
  have types: "map_option type (heap t b) = (if b = a then None else map_option type (heap s b))" for b
    using fun_cong [OF v(9), of b] by (auto simp: comp_def)
  have "(\<exists>r y u. q = r @ y # u \<and> resolve s (root s) r = Some d \<and> y \<in> names s ` set ys) \<longleftrightarrow>
      (\<exists>y u. q = p @ y # u \<and> y \<in> names s ` set ys)"
    using resolve_unique [OF assms(1) assms(2)] assms(2) by blast
  with unlink_resolve [OF assms(1) d assms(3-5) t wf_root [OF assms(1)] ad(2) [symmetric], of q]
  have r: "resolve t (root s) q =
      (if \<exists>y u. q = p @ y # u \<and> y \<in> names s ` set ys then None else resolve s (root s) q)" by simp
  show ?thesis
  proof (cases "\<exists>y u. q = p @ y # u \<and> y \<in> names s ` set ys")
    case True
    with r show ?thesis by (simp add: paths_def v(6))
  next
    case False
    then have e: "resolve t (root t) q = resolve s (root s) q"
      using r unfolding if_not_P [OF False] by (simp only: v(6))
    have "b \<noteq> a" if "resolve s (root s) q = Some b" for b
      using resolve_dom [OF w wf_root [OF w]] that unfolding e [symmetric] by (auto simp: v(1))
    with False e show ?thesis by (cases "resolve s (root s) q") (auto simp: paths_def types)
  qed
qed

section \<open>Path names\<close>

definition plain :: "string \<Rightarrow> bool" where
  \<comment> \<open>a name that is one component of a path\<close>
  "plain x \<longleftrightarrow> x \<noteq> [] \<and> CHR ''/'' \<notin> set x \<and> x \<noteq> ''.'' \<and> x \<noteq> ''..''"

definition path_text :: "string list \<Rightarrow> string" where
  "path_text xs = concat (map (\<lambda>x. CHR ''/'' # x) xs)"

lemma strip_slashes_id: "plain x \<Longrightarrow> strip_slashes (u @ x) = u @ x"
  by (cases x rule: rev_cases) (auto simp: strip_slashes_def plain_def)

lemma takeWhile_name: "plain x \<Longrightarrow> takeWhile (\<lambda>c. c \<noteq> CHR ''/'') (rev (u @ CHR ''/'' # x)) = rev x"
  and dropWhile_name: "plain x \<Longrightarrow> dropWhile (\<lambda>c. c \<noteq> CHR ''/'') (rev (u @ CHR ''/'' # x)) = CHR ''/'' # rev u"
  by (auto simp: plain_def takeWhile_append1 takeWhile_tail dropWhile_append3 takeWhile_append2 dropWhile_append2)

lemma strip_path: "list_all plain xs \<Longrightarrow> strip_slashes (path_text xs @ ''/'') = path_text xs"
proof (cases xs rule: rev_cases)
  case Nil
  then show ?thesis by (simp add: path_text_def strip_slashes_def)
next
  case (snoc ys y)
  assume "list_all plain xs"
  then have "strip_slashes ((path_text ys @ ''/'') @ y) = (path_text ys @ ''/'') @ y"
    by (intro strip_slashes_id) (simp add: snoc)
  then show ?thesis by (simp add: snoc path_text_def strip_slashes_def)
qed

lemma dirname_path:
  assumes "list_all plain xs" "plain x"
  shows "posix_dirname (path_text (xs @ [x])) = (if xs = [] then ''/'' else path_text xs)"
    "posix_basename (path_text (xs @ [x])) = x"
proof -
  have t: "path_text (xs @ [x]) = path_text xs @ CHR ''/'' # x" by (simp add: path_text_def)
  have s: "strip_slashes (path_text xs @ CHR ''/'' # x) = path_text xs @ CHR ''/'' # x"
    using strip_slashes_id [OF assms(2), of "path_text xs @ ''/''"] by simp
  have e: "path_text xs = [] \<longleftrightarrow> xs = []" by (cases xs) (simp_all add: path_text_def)
  show "posix_dirname (path_text (xs @ [x])) = (if xs = [] then ''/'' else path_text xs)"
    using strip_path [OF assms(1)] e
    by (simp add: posix_dirname_def t s Let_def dropWhile_name [OF assms(2), simplified])
  show "posix_basename (path_text (xs @ [x])) = x"
    by (simp add: posix_basename_def t s Let_def takeWhile_name [OF assms(2), simplified])
qed

lemma strtok_path: "list_all plain xs \<Longrightarrow> strtok_all (CHR ''/'') (path_text xs) = xs"
proof -
  have "list_all plain xs \<Longrightarrow> tokens (\<lambda>c. c = CHR ''/'') [] (path_text xs) = xs"
  proof (induction xs)
    case (Cons x xs)
    then have x: "x \<noteq> []" "\<forall>c \<in> set x. c \<noteq> CHR ''/''" by (auto simp: plain_def)
    show ?case
    proof (cases xs)
      case Nil
      then show ?thesis using tokens_last_word [of x "\<lambda>c. c = CHR ''/''"] x by (simp add: path_text_def)
    next
      case (Cons y ys)
      then show ?thesis using tokens_word [of x "\<lambda>c. c = CHR ''/''" "CHR ''/''" "tl (path_text xs)"] x
          Cons.IH Cons.prems
        by (simp add: path_text_def)
    qed
  qed (simp add: path_text_def)
  then show "list_all plain xs \<Longrightarrow> ?thesis" by (simp add: strtok_all_def)
qed

section \<open>Commands on absolute paths\<close>

lemma path_text_length: "list_all plain xs \<Longrightarrow> 2 * length xs \<le> length (path_text xs)"
proof (induction xs)
  case (Cons x xs)
  then show ?case by (cases x) (auto simp: path_text_def plain_def)
qed (simp add: path_text_def)

text \<open>Only the heap matters to lookups.\<close>

lemma deref_cong: "heap t = heap s \<Longrightarrow> deref t = deref s"
  by (simp add: deref_def fun_eq_iff split: option.split)

lemma find_sibling_cong: "heap t = heap s \<Longrightarrow> find_sibling k t p x = find_sibling k s p x"
proof (induction k s p x rule: find_sibling.induct)
  case (3 k s a x)
  then show ?case using deref_cong [of t s] by (cases "deref s (Some a)") simp_all
qed simp_all

lemma lookC_cong: "heap t = heap s \<Longrightarrow> fresh t = fresh s \<Longrightarrow> lookC p x t = lookC p x s"
  using deref_cong [of t s] find_sibling_cong [of t s] by (simp add: lookC_def)

lemma resolve_cong: "heap t = heap s \<Longrightarrow> fresh t = fresh s \<Longrightarrow> resolve t a q = resolve s a q"
  using lookC_cong [of t s] by (induction q arbitrary: a) (simp_all split: sum.split option.split)

lemma named_lookups [simp]:
  "deref (s\<lparr>dirname := d, basename := b\<rparr>) p = deref s p"
  "lookC p x (s\<lparr>dirname := d, basename := b\<rparr>) = lookC p x s"
  "resolve (s\<lparr>dirname := d, basename := b\<rparr>) a q = resolve s a q"
  by (simp_all add: deref_cong [of "s\<lparr>dirname := d, basename := b\<rparr>" s]
      lookC_cong [of "s\<lparr>dirname := d, basename := b\<rparr>" s] resolve_cong [of "s\<lparr>dirname := d, basename := b\<rparr>" s])

lemma named [simp]:
  "paths (s\<lparr>dirname := d, basename := b\<rparr>) = paths s"
  "kids (s\<lparr>dirname := d, basename := b\<rparr>) a xs = kids s a xs"
  "tree_ok (s\<lparr>dirname := d, basename := b\<rparr>) = tree_ok s"
  "names (s\<lparr>dirname := d, basename := b\<rparr>) = names s"
  "sptr (s\<lparr>dirname := d, basename := b\<rparr>) = sptr s"
proof -
  have v: "sptr (s\<lparr>dirname := d, basename := b\<rparr>) = sptr s" "cptr (s\<lparr>dirname := d, basename := b\<rparr>) = cptr s"
    "pptr (s\<lparr>dirname := d, basename := b\<rparr>) = pptr s" "names (s\<lparr>dirname := d, basename := b\<rparr>) = names s"
    by (simp_all add: views fun_eq_iff)
  have k: "kids (s\<lparr>dirname := d, basename := b\<rparr>) a xs = kids s a xs" for a xs by (simp add: kids_def v)
  show "paths (s\<lparr>dirname := d, basename := b\<rparr>) = paths s" by (simp add: paths_def fun_eq_iff)
  show "kids (s\<lparr>dirname := d, basename := b\<rparr>) a xs = kids s a xs" by (rule k)
  show "tree_ok (s\<lparr>dirname := d, basename := b\<rparr>) = tree_ok s" by (simp add: tree_ok_def k v)
  show "names (s\<lparr>dirname := d, basename := b\<rparr>) = names s" "sptr (s\<lparr>dirname := d, basename := b\<rparr>) = sptr s"
    by (rule v)+
qed

lemma walk_resolve:
  "tree_ok s \<Longrightarrow> a \<in> dom (heap s) \<Longrightarrow> list_all plain xs \<Longrightarrow> walk s (Some a) xs = Inr (resolve s a xs)"
proof (induction xs arbitrary: a)
  case (Cons x xs)
  obtain r where r: "lookC (Some a) x s = Inr r" by (rule lookC_total [OF Cons.prems(1,2)])
  show ?case
  proof (cases r)
    case None
    with r Cons.prems(3) show ?thesis by (simp add: plain_def)
  next
    case (Some b)
    with lookC_Some(1) [OF Cons.prems(1,2)] r have "b \<in> dom (heap s)" by blast
    with Cons r Some show ?thesis by (simp add: plain_def)
  qed
qed simp

text \<open>What every command does first with an absolute path.\<close>

definition enter :: "string list \<Rightarrow> string \<Rightarrow> fs \<Rightarrow> fs" where
  "enter xs x s = s\<lparr>dirname := (if xs = [] then ''/'' else path_text xs), basename := x\<rparr>"

lemma enter_simps [simp]:
  "dirname (enter xs x s) = (if xs = [] then ''/'' else path_text xs)" "basename (enter xs x s) = x"
  "root (enter xs x s) = root s" "heap (enter xs x s) = heap s" "cwd (enter xs x s) = cwd s"
  "fresh (enter xs x s) = fresh s" "lookC p y (enter xs x s) = lookC p y s" "tree_ok (enter xs x s) = tree_ok s"
  "paths (enter xs x s) = paths s" "kids (enter xs x s) a ks = kids s a ks" "names (enter xs x s) = names s"
  "resolve (enter xs x s) a q = resolve s a q" "sptr (enter xs x s) = sptr s"
  "deref (enter xs x s) = deref s"
  by (simp_all add: enter_def fun_eq_iff)

lemma z_path:
  assumes "list_all plain xs" "plain x" "length (path_text (xs @ [x])) < 70"
  shows "z (path_text (xs @ [x])) s = Inr (enter xs x s)"
  using assms(3) dirname_path [OF assms(1,2)]
  by (auto simp: z_def copy_to_def enter_def path_text_def)

lemma nodeP_path:
  assumes "tree_ok s" "list_all plain xs" "length (path_text xs) < 70"
  shows "nodeP (if xs = [] then ''/'' else path_text xs) (enter xs x s) = Inr (resolve s (root s) xs)"
proof -
  have w: "tree_ok (enter xs x s)" using assms(1) by simp
  have "tokenize (if xs = [] then ''/'' else path_text xs) = Inr xs"
    using assms(3) path_text_length [OF assms(2)] strtok_path [OF assms(2)]
    by (auto simp: tokenize_def copy_to_def strtok_all_def)
  moreover obtain cs where "(if xs = [] then ''/'' else path_text xs) = CHR ''/'' # cs"
    by (cases xs) (simp_all add: path_text_def)
  ultimately show ?thesis
    using walk_resolve [OF w wf_root [OF w] assms(2)] by (simp add: nodeP_def del: resolve.simps walk.simps)
qed

lemma paths_None_lookC:
  assumes "tree_ok s" "resolve s (root s) xs = Some d" "paths s (xs @ [x]) = None"
  shows "lookC (Some d) x s = Inr None"
proof -
  have d: "d \<in> dom (heap s)" by (rule resolve_dom [OF assms(1) wf_root [OF assms(1)] assms(2)])
  obtain r where r: "lookC (Some d) x s = Inr r" by (rule lookC_total [OF assms(1) d])
  show ?thesis
  proof (cases r)
    case (Some b)
    with lookC_Some(1) [OF assms(1) d] r have "b \<in> dom (heap s)" by blast
    then have "paths s (xs @ [x]) \<noteq> None" using r Some assms(2) by (auto simp: paths_def resolve_append)
    with assms(3) show ?thesis by simp
  qed (simp add: r)
qed

lemma not_reserved: "plain x \<Longrightarrow> \<not> reserved x"
  by (auto simp: plain_def reserved_def)

lemma add_node_paths:
  assumes "tree_ok s" "list_all plain xs" "plain x" "length (path_text (xs @ [x])) < 70"
    and "paths s xs \<noteq> None" "paths s (xs @ [x]) = None"
  shows "\<exists>t. add_node ty (path_text (xs @ [x])) s = Inr (0, t) \<and> tree_ok t \<and> cwd t = cwd s \<and>
    paths t = (paths s)(xs @ [x] \<mapsto> ty)"
proof -
  let ?s = "enter xs x s"
  obtain d where r: "resolve s (root s) xs = Some d"
    using assms(5) by (cases "resolve s (root s) xs") (auto simp: paths_def)
  have d: "d \<in> dom (heap s)" by (rule resolve_dom [OF assms(1) wf_root [OF assms(1)] r])
  have l: "lookC (Some d) x s = Inr None" by (rule paths_None_lookC [OF assms(1) r assms(6)])
  obtain ks where k: "kids s d ks" using assms(1) d by (rule wf_kids)
  with lookC_kids [OF assms(1) d] l have n: "x \<notin> names s ` set ks" by (simp add: find_name_None)
  define t where "t = link_last d ks (fresh ?s) (alloc ty x ?s)"
  have "tree_ok ?s" "d \<in> dom (heap ?s)" "kids ?s d ks" "x \<notin> names ?s ` set ks" "resolve ?s (root ?s) xs = Some d"
    using assms(1) d k n r by simp_all
  note e = this
  have short: "length (path_text xs) < 70" using assms(4) by (simp add: path_text_def)
  have "add_node ty (path_text (xs @ [x])) s = Inr (0, t)"
    using z_path [OF assms(2-4)] nodeP_path [OF assms(1,2) short] not_reserved [OF assms(3)] l r
      insert_child_links [OF e(1-3), of ty x]
    by (simp add: add_node_def t_def alloc_def Let_def)
  with link_wf [OF e(1-4) t_def] link_paths [OF e(1,5,3,4) t_def] link_views(8) [OF e(1-3) t_def]
  show ?thesis by simp
qed

text \<open>The node that a command removes is found among the children of its parent.\<close>

lemma path_child:
  assumes "tree_ok s" "paths s (xs @ [x]) = Some ty"
  obtains d a n ks where "resolve s (root s) xs = Some d" "d \<in> dom (heap s)" "kids s d ks"
    "lookC (Some d) x s = Inr (Some a)" "a \<in> set ks" "heap s a = Some n" "type n = ty" "nm n = x"
    "Pptr n = Some d"
proof -
  obtain a n where a: "resolve s (root s) (xs @ [x]) = Some a" "heap s a = Some n" "type n = ty"
    using assms(2) by (auto simp: paths_def Option.bind_eq_Some_conv)
  obtain d where d: "resolve s (root s) xs = Some d" "d \<in> dom (heap s)" "lookC (Some d) x s = Inr (Some a)"
      "pptr s a = Some d" "names s a = x"
    using resolve_snoc_Some [OF assms(1) wf_root [OF assms(1)] a(1)] by blast
  obtain ks where k: "kids s d ks" using assms(1) d(2) by (rule wf_kids)
  with lookC_kids [OF assms(1) d(2)] d(3) have "a \<in> set ks" by (auto simp: find_Some_iff)
  with that [OF d(1,2) k d(3) _ a(2,3)] a(2) d(4,5) show thesis by (simp add: views)
qed

lemma remove_state:
  "free a (upd d (\<lambda>p. p\<lparr>Cptr := h\<rparr>) s) = unlink d a h s"
  by (simp add: unlink_def)

lemma rm_paths:
  assumes "tree_ok s" "list_all plain xs" "plain x" "length (path_text (xs @ [x])) < 70"
    and "paths s (xs @ [x]) = Some (CHR ''G'')"
  shows "\<exists>t. rm (path_text (xs @ [x])) s = Inr (0, t) \<and> tree_ok t \<and>
    paths t = (\<lambda>q. if \<exists>y u. q = xs @ y # u then None else paths s q)"
proof -
  let ?s = "enter xs x s"
  obtain d a n ks where d: "resolve s (root s) xs = Some d" "d \<in> dom (heap s)" "kids s d ks"
    "lookC (Some d) x s = Inr (Some a)" "a \<in> set ks" "heap s a = Some n" "type n = CHR ''G''" "Pptr n = Some d"
    by (rule path_child [OF assms(1,5)]) blast
  define t where "t = unlink d a None ?s"
  have short: "length (path_text xs) < 70" using assms(4) by (simp add: path_text_def)
  have e: "tree_ok ?s" "d \<in> dom (heap ?s)" "kids ?s d (ks @ [])" "chain (sptr ?s) None []" "resolve ?s (root ?s) xs = Some d"
    using assms(1) d by simp_all
  have "deref s (Some d) = Inr (the (heap s d))" using d(2) by auto
  then have "rm (path_text (xs @ [x])) s = Inr (0, t)"
    using z_path [OF assms(2-4)] nodeP_path [OF assms(1,2) short] d
    by (simp add: rm_def t_def remove_state)
  moreover have "tree_ok t" by (rule unlink_wf [OF e(1-3) d(5) e(4) t_def])
  moreover have "paths t q = (if \<exists>y u. q = xs @ y # u then None else paths s q)" for q
  proof -
    have "paths s q = None" if q: "q = xs @ y # u" and y: "y \<notin> names s ` set ks" for y u
    proof -
      have "lookC (Some d) y s = Inr None"
        using lookC_kids [OF assms(1) d(2,3)] y by (simp add: find_name_None)
      then show ?thesis using d(1) by (simp add: paths_def resolve_append q)
    qed
    with unlink_paths [OF e(1,5,3) d(5) e(4) t_def, of q] show ?thesis by auto
  qed
  ultimately show ?thesis by blast
qed

section \<open>Listings\<close>

definition entries :: "fs \<Rightarrow> string list \<Rightarrow> fault + (char \<times> string) list" where
  \<comment> \<open>what \<open>ls\<close> prints for this directory\<close>
  "entries s xs = bindE (deref s (resolve s (root s) xs)) (\<lambda>n. list_siblings (Suc (fresh s)) s (Cptr n))"

lemma entries_kids:
  assumes "tree_ok s" "resolve s (root s) xs = Some d" "kids s d ks"
  shows "entries s xs = Inr (map (\<lambda>b. (type (the (heap s b)), names s b)) ks)"
proof -
  have d: "d \<in> dom (heap s)" by (rule resolve_dom [OF assms(1) wf_root [OF assms(1)] assms(2)])
  obtain n where n: "heap s d = Some n" using d by auto
  obtain us where "kids s d us" "length us \<le> fresh s" by (rule wf_kids [OF assms(1) d])
  with kids_unique [OF assms(3)] have "length ks \<le> fresh s" by blast
  moreover have "chain (sptr s) (Cptr n) ks" using assms(3) n by (simp add: kids_def cptr_def)
  ultimately show ?thesis
    using list_siblings_chain [of s "Cptr n" ks "fresh s"] kids_dom [OF assms(3)] n
    by (simp add: entries_def assms(2))
qed

lemma entries_child:
  assumes "tree_ok s" "entries s xs = Inr (es @ (ty, x) # fs)"
  obtains d ys a zs where "resolve s (root s) xs = Some d" "d \<in> dom (heap s)" "kids s d (ys @ a # zs)"
    "lookC (Some d) x s = Inr (Some a)" "names s ` set ys = snd ` set es"
    "map (\<lambda>b. (type (the (heap s b)), names s b)) zs = fs"
proof -
  obtain d where r: "resolve s (root s) xs = Some d"
    using assms(2) by (cases "resolve s (root s) xs") (simp_all add: entries_def)
  have d: "d \<in> dom (heap s)" by (rule resolve_dom [OF assms(1) wf_root [OF assms(1)] r])
  obtain ks where k: "kids s d ks" using assms(1) d by (rule wf_kids)
  have "map (\<lambda>b. (type (the (heap s b)), names s b)) ks = es @ (ty, x) # fs"
    using entries_kids [OF assms(1) r k] assms(2) by simp
  then obtain ys a zs where ks: "ks = ys @ a # zs" "map (\<lambda>b. (type (the (heap s b)), names s b)) ys = es"
    "names s a = x" "map (\<lambda>b. (type (the (heap s b)), names s b)) zs = fs"
    by (auto simp: map_eq_append_conv map_eq_Cons_conv)
  have "lookC (Some d) x s = Inr (Some a)"
    using lookC_kids [OF assms(1) d k] find_name_Some [of "names s" ks x a] k ks(1,3) by (simp add: kids_def)
  moreover have "names s ` set ys = snd ` set es" using ks(2) by (auto simp: image_iff)
  ultimately show thesis using that [of d ys a zs] r d k ks by simp
qed

lemma entries_Nil:
  assumes "tree_ok s" "resolve s (root s) xs = Some a" "heap s a = Some n" "entries s xs = Inr []"
  shows "Cptr n = None"
proof -
  have a: "a \<in> dom (heap s)" using assms(3) by auto
  obtain ks where k: "kids s a ks" using assms(1) a by (rule wf_kids)
  with entries_kids [OF assms(1,2) k] assms(3,4) show ?thesis by (simp add: kids_def cptr_def)
qed

lemma unlink_entries:
  assumes "tree_ok s" "resolve s (root s) p = Some d" "kids s d (ys @ zs)" "a \<in> set ys" "chain (sptr s) h zs"
    and t: "t = unlink d a h s"
  shows "entries t p = Inr (map (\<lambda>b. (type (the (heap s b)), names s b)) zs)"
proof -
  have d: "d \<in> dom (heap s)" by (rule resolve_dom [OF assms(1) wf_root [OF assms(1)] assms(2)])
  have ad: "a \<noteq> d" "a \<noteq> root s"
    using child_not_parent [OF assms(1,3)] assms(3,4) by (auto simp: kids_def)
  note v = unlink_views [OF d ad(1) t]
  have "\<not> (\<exists>r y u. p = r @ y # u \<and> resolve s (root s) r = Some d \<and> y \<in> names s ` set ys)"
    using resolve_unique [OF assms(1) assms(2)] by auto
  with unlink_resolve [OF assms(1) d assms(3-5) t wf_root [OF assms(1)] ad(2) [symmetric], of p] assms(2)
  have r: "resolve t (root t) p = Some d" unfolding v(6) by (simp only: if_False)
  have "distinct (ys @ zs)" using assms(3) by (auto simp: kids_def dest: chain_distinct)
  then have "a \<notin> set zs" using assms(4) by auto
  have same: "(type (the (heap t b)), names t b) = (type (the (heap s b)), names s b)" if "b \<in> set zs" for b
  proof -
    have "b \<noteq> a" using that \<open>a \<notin> set zs\<close> by blast
    moreover have "heap t b \<noteq> None" using kids_dom [OF assms(3)] that \<open>b \<noteq> a\<close> v(1) by (auto simp: domIff [symmetric])
    ultimately show ?thesis using fun_cong [OF v(9), of b] by (auto simp: v(5) map_option_case split: option.splits)
  qed
  show ?thesis
    using entries_kids [OF unlink_wf [OF assms(1) d assms(3-5) t] r unlink_kids(1) [OF assms(1) d assms(3-5) t]] same
    by (simp cong: map_cong)
qed

lemma rmdir_paths:
  assumes "tree_ok s" "list_all plain xs" "plain x" "length (path_text (xs @ [x])) < 70"
    and "entries s xs = Inr (es @ (ty, x) # fs)" "entries s (xs @ [x]) = Inr []"
  shows "\<exists>t. rmdir (path_text (xs @ [x])) s = Inr (0, t) \<and> tree_ok t \<and> entries t xs = Inr fs \<and>
    paths t = (\<lambda>q. if \<exists>y u. q = xs @ y # u \<and> y \<in> insert x (snd ` set es) then None else paths s q)"
proof -
  let ?s = "enter xs x s"
  obtain d ys a zs where d: "resolve s (root s) xs = Some d" "d \<in> dom (heap s)" "kids s d (ys @ a # zs)"
    "lookC (Some d) x s = Inr (Some a)" "names s ` set ys = snd ` set es"
    "map (\<lambda>b. (type (the (heap s b)), names s b)) zs = fs"
    by (rule entries_child [OF assms(1,5)])
  note a = lookC_Some [OF assms(1) d(2,4)]
  obtain n where n: "heap s a = Some n" using a(1) by auto
  have leaf: "Cptr n = None"
    by (rule entries_Nil [OF assms(1) _ n assms(6)]) (simp add: resolve_append d(1,4))
  define t where "t = unlink d a (Sptr n) ?s"
  have short: "length (path_text xs) < 70" using assms(4) by (simp add: path_text_def)
  have "chain (sptr s) (cptr s d) (ys @ a # zs)" using d(3) by (simp add: kids_def)
  from chain_suffix [OF this] have "chain (sptr s) (Sptr n) zs" using n by (simp add: sptr_def)
  then have e: "tree_ok ?s" "d \<in> dom (heap ?s)" "kids ?s d ((ys @ [a]) @ zs)" "a \<in> set (ys @ [a])"
    "chain (sptr ?s) (Sptr n) zs" "resolve ?s (root ?s) xs = Some d"
    using assms(1) d by simp_all
  have "deref s (Some d) = Inr (the (heap s d))" "Pptr n = Some d" using d(2) a(2) n by (auto simp: pptr_def)
  then have "rmdir (path_text (xs @ [x])) s = Inr (0, t)"
    using z_path [OF assms(2-4)] nodeP_path [OF assms(1,2) short] not_reserved [OF assms(3)] d n leaf
    by (simp add: rmdir_def t_def remove_state)
  moreover have "tree_ok t" by (rule unlink_wf [OF e(1-5) t_def])
  moreover have "entries t xs = Inr fs" using unlink_entries [OF e(1,6,3-5) t_def] d(6) by simp
  moreover have "names ?s ` set (ys @ [a]) = insert x (snd ` set es)" using d(5) a(4) by simp
  with unlink_paths [OF e(1,6,3-5) t_def]
  have "paths t q = (if \<exists>y u. q = xs @ y # u \<and> y \<in> insert x (snd ` set es) then None else paths s q)" for q
    by (simp only: enter_simps)
  ultimately show ?thesis by blast
qed

section \<open>Every command keeps the tree well formed\<close>

lemma z_wf: "z pathname s = Inr t \<Longrightarrow> tree_ok t = tree_ok s"
  by (auto simp: z_def copy_to_def bindE_eq_Inr_iff split: if_splits)

lemma lookC_dom:
  assumes "lookC p x s = Inr r"
  obtains a where "p = Some a" "a \<in> dom (heap s)"
  using assms by (cases p) (auto simp: lookC_def deref_def bindE_eq_Inr_iff split: option.splits)

lemma add_node_wf:
  assumes "add_node ty pathname s = Inr (r, t)" "tree_ok s"
  shows "tree_ok t"
proof -
  obtain s1 where s1: "z pathname s = Inr s1" "tree_ok s1"
    using assms z_wf by (auto simp: add_node_def bindE_eq_Inr_iff)
  show ?thesis
  proof (cases "t = s1")
    case False
    then obtain p where p: "lookC p (basename s1) s1 = Inr None"
      "insert_child p (fresh s1) (alloc ty (basename s1) s1) = Inr t"
      using assms(1) s1(1) by (auto simp: add_node_def bindE_eq_Inr_iff alloc_def Let_def split: if_splits)
    obtain a where a: "p = Some a" "a \<in> dom (heap s1)" by (rule lookC_dom [OF p(1)])
    obtain ks where k: "kids s1 a ks" using s1(2) a(2) by (rule wf_kids)
    have "basename s1 \<notin> names s1 ` set ks"
      using lookC_kids [OF s1(2) a(2) k] p(1) a(1) by (simp add: find_name_None)
    moreover have "t = link_last a ks (fresh s1) (alloc ty (basename s1) s1)"
      using insert_child_links [OF s1(2) a(2) k] p(2) a(1) by simp
    ultimately show ?thesis by (rule link_wf [OF s1(2) a(2) k])
  qed (use s1 in simp)
qed

lemma remove_wf:
  assumes "tree_ok s" "lookC p x s = Inr (Some a)" "heap s a = Some n"
    and "h = None \<or> h = Sptr n"
  shows "tree_ok (free a (upd (the (Pptr n)) (\<lambda>p. p\<lparr>Cptr := h\<rparr>) s))"
proof -
  obtain d where d: "p = Some d" "d \<in> dom (heap s)" by (rule lookC_dom [OF assms(2)])
  note a = lookC_Some [OF assms(1) d(2) assms(2) [unfolded d(1)]]
  obtain ks where k: "kids s d ks" using assms(1) d(2) by (rule wf_kids)
  then have "a \<in> set ks"
    using lookC_kids [OF assms(1) d(2) k, of x] assms(2) d(1) by (auto simp: find_Some_iff)
  then obtain ys zs where ks: "ks = ys @ a # zs" by (auto simp: in_set_conv_decomp)
  have "chain (sptr s) (cptr s d) (ys @ a # zs)" using k ks by (simp add: kids_def)
  from chain_suffix [OF this] have suffix: "chain (sptr s) (Sptr n) zs" using assms(3) by (simp add: sptr_def)
  have p: "the (Pptr n) = d" using a(2) assms(3) by (simp add: pptr_def)
  show ?thesis
  proof (cases "h = None")
    case True
    show ?thesis unfolding p True remove_state
      by (rule unlink_wf [OF assms(1) d(2) _ \<open>a \<in> set ks\<close> _ refl]) (use k in simp_all)
  next
    case False
    then have h: "h = Sptr n" using assms(4) by blast
    show ?thesis unfolding p h remove_state
      by (rule unlink_wf [OF assms(1) d(2) _ _ suffix refl, of "ys @ [a]"]) (use k ks in simp_all)
  qed
qed

lemma deref_Some: "deref s (Some a) = Inr n \<Longrightarrow> heap s a = Some n"
  by (auto simp: deref_def split: option.splits)

lemma rm_wf:
  assumes "rm pathname s = Inr (r, t)" "tree_ok s"
  shows "tree_ok t"
proof -
  obtain s1 p c where s1: "z pathname s = Inr s1" "lookC p (basename s1) s1 = Inr c" "tree_ok s1"
    and c: "(case c of None \<Rightarrow> Inr (-1, s1)
     | Some a \<Rightarrow>
       bindE (deref s1 (Some a)) (\<lambda>n.
       if type n \<noteq> CHR ''G'' then Inr (-1, s1)
       else bindE (deref s1 (Pptr n)) (\<lambda>_.
            Inr (0, free a (upd (the (Pptr n)) (\<lambda>p. p\<lparr>Cptr := None\<rparr>) s1))))) = Inr (r, t)"
    using assms z_wf by (auto simp: rm_def bindE_eq_Inr_iff)
  show ?thesis
  proof (cases "t = s1")
    case False
    with c obtain a n where "c = Some a" "heap s1 a = Some n"
      "t = free a (upd (the (Pptr n)) (\<lambda>p. p\<lparr>Cptr := None\<rparr>) s1)"
      by (auto simp: bindE_eq_Inr_iff dest!: deref_Some split: option.splits if_splits)
    with remove_wf [OF s1(3), of p "basename s1"] s1(2) show ?thesis by simp
  qed (use s1 in simp)
qed

lemma rmdir_wf:
  assumes "rmdir pathname s = Inr (r, t)" "tree_ok s"
  shows "tree_ok t"
proof -
  obtain s1 where s1: "z pathname s = Inr s1" "tree_ok s1"
    using assms z_wf by (auto simp: rmdir_def bindE_eq_Inr_iff)
  show ?thesis
  proof (cases "t = s1")
    case False
    then obtain p c where p: "lookC p (basename s1) s1 = Inr c"
      and c: "(case c of None \<Rightarrow> Inr (-1, s1)
          | Some a \<Rightarrow>
            bindE (deref s1 (Some a)) (\<lambda>n.
            if Cptr n \<noteq> None then Inr (-1, s1)
            else bindE (deref s1 (Pptr n)) (\<lambda>_.
                 Inr (0, free a (upd (the (Pptr n)) (\<lambda>p. p\<lparr>Cptr := Sptr n\<rparr>) s1))))) = Inr (r, t)"
      using assms(1) s1(1) by (auto simp: rmdir_def bindE_eq_Inr_iff simp del: not_None_eq split: if_splits)
    with False obtain a n where "c = Some a" "heap s1 a = Some n"
      "t = free a (upd (the (Pptr n)) (\<lambda>p. p\<lparr>Cptr := Sptr n\<rparr>) s1)"
      by (auto simp: bindE_eq_Inr_iff dest!: deref_Some split: option.splits if_splits)
    with remove_wf [OF s1(2), of p "basename s1"] p show ?thesis by simp
  qed (use s1 in simp)
qed

lemma wf_cwd [simp]: "tree_ok (s\<lparr>cwd := c\<rparr>) = tree_ok s"
proof -
  have "sptr (s\<lparr>cwd := c\<rparr>) = sptr s" "names (s\<lparr>cwd := c\<rparr>) = names s"
    by (simp_all add: views fun_eq_iff)
  then have "kids (s\<lparr>cwd := c\<rparr>) a xs = kids s a xs" for a xs by (simp add: kids_def cptr_def pptr_def)
  then show ?thesis by (simp add: tree_ok_def pptr_def)
qed

lemma command_wf:
  assumes "command c s = Inr t" "tree_ok s"
  shows "tree_ok t"
proof -
  obtain u pathname where c: "c = (u, pathname)" by (cases c)
  show ?thesis using assms add_node_wf rm_wf rmdir_wf z_wf
    unfolding c command_def call_def mkdir_def create_def cd_def ls_def
    by (auto simp: bindE_eq_Inr_iff split: if_splits)
qed

interpretation tree: step_system "\<lambda>s. s = initialize" "\<lambda>s t. \<exists>c. command c s = Inr t" tree_ok
  by unfold_locales (auto intro: tree_ok_initialize command_wf)

lemma commands_tree_ok: "foldE command cmds initialize = Inr s \<Longrightarrow> tree_ok s"
proof (rule tree.inv_steps)
  show "tree_ok initialize" by (rule tree_ok_initialize)
  have "foldE command cmds u = Inr s \<Longrightarrow> (\<lambda>s t. \<exists>c. command c s = Inr t)\<^sup>*\<^sup>* u s" for u
  proof (induction cmds arbitrary: u)
    case (Cons c cmds)
    then obtain v where "command c u = Inr v" "foldE command cmds v = Inr s"
      by (auto simp: bindE_eq_Inr_iff)
    with Cons.IH converse_rtranclp_into_rtranclp [of "\<lambda>s t. \<exists>c. command c s = Inr t" u v s] show ?case
      by blast
  qed simp
  then show "foldE command cmds initialize = Inr s \<Longrightarrow> (\<lambda>s t. \<exists>c. command c s = Inr t)\<^sup>*\<^sup>* initialize s" .
qed

section \<open>No command runs for ever\<close>

definition ends :: "fault + 'a \<Rightarrow> bool" where
  "ends m \<longleftrightarrow> m \<noteq> Inl NonTermination"

lemma ends_Inr [simp]: "ends (Inr x)"
  by (simp add: ends_def)

lemma ends_Inl [simp]: "ends (Inl e) \<longleftrightarrow> e \<noteq> NonTermination"
  by (simp add: ends_def)

lemma ends_bindE: "ends m \<Longrightarrow> (\<And>x. m = Inr x \<Longrightarrow> ends (f x)) \<Longrightarrow> ends (bindE m f)"
  by (cases m) simp_all

lemma ends_parts [simp]: "ends (deref s p)" "ends (copy_to n t)" "ends (tokenize pathname)" "ends (z pathname s)"
  by (auto simp: deref_def copy_to_def tokenize_def z_def Let_def split: option.split intro!: ends_bindE)

lemma ends_lookC: "tree_ok s \<Longrightarrow> ends (lookC p x s)"
proof -
  assume ok: "tree_ok s"
  show ?thesis
  proof (cases "\<exists>a. p = Some a \<and> a \<in> dom (heap s)")
    case True
    with lookC_total [OF ok] show ?thesis by (metis ends_Inr)
  next
    case False
    then have "deref s p = Inl NullDeref" by (cases p) (auto simp: deref_def split: option.split)
    then show ?thesis by (simp add: lookC_def)
  qed
qed

lemma ends_walk: "tree_ok s \<Longrightarrow> ends (walk s p xs)"
  by (induction xs arbitrary: p) (auto intro!: ends_bindE ends_lookC split: option.split)

lemma ends_nodeP: "tree_ok s \<Longrightarrow> ends (nodeP pathname s)"
  by (auto simp: nodeP_def Let_def intro!: ends_bindE ends_walk)

lemma ends_insert:
  assumes "tree_ok s" "lookC p x s = Inr r"
  shows "ends (insert_child p (fresh s) (alloc ty b s))"
proof -
  obtain a where a: "p = Some a" "a \<in> dom (heap s)" by (rule lookC_dom [OF assms(2)])
  obtain ks where "kids s a ks" using assms(1) a(2) by (rule wf_kids)
  from insert_child_links [OF assms(1) a(2) this] a(1) show ?thesis by simp
qed

lemma add_node_alloc:
  "add_node ty pathname s =
     bindE (z pathname s) (\<lambda>s.
     if reserved (basename s) then Inr (-1, s)
     else bindE (nodeP (dirname s) s) (\<lambda>sT.
          bindE (lookC sT (basename s) s) (\<lambda>chief.
          if chief \<noteq> None then Inr (-1, s)
          else bindE (insert_child sT (fresh s) (alloc ty (basename s) s)) (\<lambda>s. Inr (0, s)))))"
  unfolding add_node_def Let_def alloc_def ..

lemma ends_add_node:
  assumes "tree_ok s"
  shows "ends (add_node ty pathname s)"
  unfolding add_node_alloc
proof (rule ends_bindE)
  fix t
  assume "z pathname s = Inr t"
  then have ok: "tree_ok t" using assms z_wf by simp
  have "ends (bindE (lookC sT (basename t) t) (\<lambda>chief. if chief \<noteq> None then Inr (-1, t)
      else bindE (insert_child sT (fresh t) (alloc ty (basename t) t)) (\<lambda>s. Inr (0, s))))" for sT
    using ends_insert [OF ok] by (intro ends_bindE ends_lookC [OF ok]) (simp add: ends_bindE)
  then show "ends (if reserved (basename t) then Inr (-1, t)
     else bindE (nodeP (dirname t) t) (\<lambda>sT.
          bindE (lookC sT (basename t) t) (\<lambda>chief.
          if chief \<noteq> None then Inr (-1, t)
          else bindE (insert_child sT (fresh t) (alloc ty (basename t) t)) (\<lambda>s. Inr (0, s)))))"
    by (cases "reserved (basename t)") (auto intro!: ends_bindE [OF ends_nodeP [OF ok]] simp del: not_None_eq)
qed simp

lemma ends_removal:
  "tree_ok s \<Longrightarrow> ends (rm pathname s)" "tree_ok s \<Longrightarrow> ends (rmdir pathname s)"
  by (auto simp: rm_def rmdir_def z_wf ends_nodeP ends_lookC intro!: ends_bindE split: option.split)

lemma ends_siblings:
  assumes "tree_ok s" "deref s p = Inr n"
  shows "ends (list_siblings (Suc (fresh s)) s (Cptr n))"
proof -
  obtain a where a: "heap s a = Some n" using assms(2) by (cases p) (auto simp: deref_def split: option.splits)
  then have "a \<in> dom (heap s)" by auto
  then obtain ks where k: "kids s a ks" "length ks \<le> fresh s" using assms(1) by (auto elim: wf_kids)
  with list_siblings_chain [of s "Cptr n" ks "fresh s"] kids_dom [OF k(1)] a
  show ?thesis by (simp add: kids_def cptr_def)
qed

lemma ends_cd_ls: "tree_ok s \<Longrightarrow> ends (cd pathname s)" "tree_ok s \<Longrightarrow> ends (ls pathname s)"
  by (auto simp: cd_def ls_def z_wf ends_nodeP ends_siblings intro!: ends_bindE)

text \<open>
  The recursion of \<open>pwd\<close> follows parent pointers, also from a directory that is no longer in the
  tree; it ends because a node is always newer than its parent.
\<close>

definition older :: "fs \<Rightarrow> bool" where
  "older s \<longleftrightarrow> (\<forall>a \<in> dom (heap s). a \<noteq> root s \<longrightarrow> (\<exists>p < a. pptr s a = Some p))"

lemma ends_pwd:
  assumes "tree_ok s" "older s"
  shows "ends (pwd s)"
proof -
  have "ends (helperFunction (Suc k) s (Some a))" if "a \<notin> dom (heap s) \<or> a \<le> k" for k a
    using that
  proof (induction k arbitrary: a)
    case 0
    then show ?case using assms(2) by (cases "heap s a") (auto simp: deref_def older_def pptr_def)
  next
    case (Suc k)
    show ?case
    proof (cases "a = root s \<or> a \<notin> dom (heap s)")
      case True
      then show ?thesis by (cases "heap s a") (auto simp: deref_def)
    next
      case False
      then obtain n p where n: "heap s a = Some n" "p < a" "Pptr n = Some p"
        using assms(2) by (force simp: older_def pptr_def)
      with Suc.prems have "ends (helperFunction (Suc k) s (Some p))" by (intro Suc.IH) auto
      with n False show ?thesis by (auto intro!: ends_bindE simp del: helperFunction.simps simp add: helperFunction.simps(2) [of "Suc k"])
    qed
  qed
  moreover have "cwd s \<notin> dom (heap s) \<or> cwd s \<le> fresh s" using assms(1) unfolding tree_ok_def by (meson less_imp_le)
  ultimately show ?thesis by (simp only: pwd_def)
qed

lemma older_cong:
  assumes "older s" "root t = root s" "dom (heap t) \<subseteq> dom (heap s)" "\<And>a. a \<in> dom (heap t) \<Longrightarrow> pptr t a = pptr s a"
  shows "older t"
  using assms unfolding older_def by (metis subsetD)

lemma z_older: "z pathname s = Inr t \<Longrightarrow> older t = older s"
  by (auto simp: z_def older_def pptr_def bindE_eq_Inr_iff)

lemma removed_older: "older s \<Longrightarrow> older (free a (upd d (\<lambda>p. p\<lparr>Cptr := h\<rparr>) s))"
  by (erule older_cong) (auto simp: free_def upd_def pptr_def split: if_splits)

lemma linked_older:
  assumes "tree_ok s" "older s" "lookC p x s = Inr None" "insert_child p (fresh s) (alloc ty x s) = Inr t"
  shows "older t"
proof -
  obtain a where a: "p = Some a" "a \<in> dom (heap s)" by (rule lookC_dom [OF assms(3)])
  obtain ks where k: "kids s a ks" using assms(1) a(2) by (rule wf_kids)
  have "t = link_last a ks (fresh s) (alloc ty x s)"
    using insert_child_links [OF assms(1) a(2) k] assms(4) a(1) by simp
  note v = link_views [OF assms(1) a(2) k this]
  have "a < fresh s" using assms(1) a(2) by (simp add: tree_ok_def)
  then show ?thesis using assms(1,2) v(1,4,6) by (auto simp: older_def)
qed

lemma removal_older:
  "rm pathname s = Inr (r, t) \<Longrightarrow> older s \<Longrightarrow> older t"
  "rmdir pathname s = Inr (r, t) \<Longrightarrow> older s \<Longrightarrow> older t"
  by (auto simp: rm_def rmdir_def bindE_eq_Inr_iff removed_older dest!: z_older split: if_splits option.splits)

lemma command_older:
  assumes "command c s = Inr t" "tree_ok s" "older s"
  shows "older t"
proof -
  obtain u pathname where c: "c = (u, pathname)" by (cases c)
  have "older t" if add: "add_node ty pathname s = Inr (r, t)" for ty r
  proof -
    obtain s1 where "z pathname s = Inr s1" using add by (auto simp: add_node_def bindE_eq_Inr_iff)
    with assms(2,3) have s1: "z pathname s = Inr s1" "tree_ok s1" "older s1" using z_wf z_older by auto
    show ?thesis
    proof (cases "t = s1")
      case False
      then obtain p where "lookC p (basename s1) s1 = Inr None"
        "insert_child p (fresh s1) (alloc ty (basename s1) s1) = Inr t"
        using add s1(1) by (auto simp: add_node_def bindE_eq_Inr_iff alloc_def Let_def split: if_splits)
      then show ?thesis by (rule linked_older [OF s1(2,3)])
    qed (use s1 in simp)
  qed
  moreover note removal_older [OF _ assms(3), of pathname]
  moreover have "older (s\<lparr>cwd := x\<rparr>)" for x using assms(3) by (simp add: older_def pptr_def)
  moreover have "older t" if "z pathname s = Inr t" for t using z_older [OF that] assms(3) by simp
  ultimately show ?thesis using assms(1,3)
    unfolding c command_def call_def mkdir_def create_def cd_def ls_def
    by (auto simp: bindE_eq_Inr_iff split: if_splits)
qed

lemma ends_command: "tree_ok s \<Longrightarrow> older s \<Longrightarrow> ends (command c s)"
  by (cases c) (auto simp: command_def call_def mkdir_def create_def ends_add_node ends_removal ends_cd_ls
      ends_pwd intro!: ends_bindE)

lemma main_loop_ends:
  "tree_ok s \<Longrightarrow> older s \<Longrightarrow> main_loop scan stdin old u s = (f, t) \<Longrightarrow> tree_ok t \<and> f \<noteq> NonTermination"
proof (induction scan stdin old u s rule: main_loop.induct)
  case (1 scan stdin old u s)
  obtain l rest where l: "read_line stdin old = (l, rest)" by fastforce
  let ?u = "case scan (butlast l) of [] \<Rightarrow> u | w # _ \<Rightarrow> w"
  let ?p = "case scan (butlast l) of _ # p # _ \<Rightarrow> p | _ \<Rightarrow> []"
  show ?case
  proof (cases "l \<noteq> [] \<and> length ?u < 20 \<and> length ?p < 70")
    case False
    with 1 l show ?thesis by (auto simp: main_loop.simps [of scan stdin] Let_def split: if_splits)
  next
    case True
    show ?thesis
    proof (cases "command (?u, ?p) s")
      case (Inl e)
      with True 1 l ends_command [of s "(?u, ?p)"] show ?thesis
        by (simp add: main_loop.simps [of scan stdin])
    next
      case (Inr s')
      then have "tree_ok s'" "older s'" using command_wf command_older 1 by blast+
      with True 1 l Inr show ?thesis by (simp add: main_loop.simps [of scan stdin] Let_def)
    qed
  qed
qed

lemma older_initialize: "older initialize"
  by (simp add: older_def initialize_def)

section \<open>The way to the root\<close>

lemma helperFunction_path:
  assumes "tree_ok s"
  shows "resolve s (root s) p = Some a \<Longrightarrow> length p \<le> k \<Longrightarrow> helperFunction (Suc k) s (Some a) = Inr p"
proof (induction p arbitrary: a k rule: rev_induct)
  case (snoc x p)
  obtain c where c: "resolve s (root s) p = Some c" "pptr s a = Some c" "names s a = x" "a \<noteq> root s"
      "a \<in> dom (heap s)"
    using resolve_snoc_Some [OF assms wf_root [OF assms] snoc.prems(1)] by blast
  obtain k' where k: "k = Suc k'" "length p \<le> k'" using snoc.prems(2) by (cases k) auto
  obtain n where "heap s a = Some n" "Pptr n = Some c" "nm n = x" using c by (auto simp: views)
  then have "helperFunction (Suc (Suc k')) s (Some a) =
      bindE (helperFunction (Suc k') s (Some c)) (\<lambda>xs. Inr (xs @ [x]))"
    using c(4) by (subst helperFunction.simps(2)) (simp del: helperFunction.simps)
  then show ?case using snoc.IH [OF c(1) k(2)] by (simp add: k(1) del: helperFunction.simps)
qed simp

lemma path_bound:
  assumes "tree_ok s" "resolve s (root s) p = Some a"
  shows "length p < fresh s"
proof -
  let ?f = "\<lambda>i. the (resolve s (root s) (take i p))"
  have r: "resolve s (root s) (take i p) = Some (?f i)" for i
    using assms(2) resolve_append [of s "root s" "take i p" "drop i p"]
    by (cases "resolve s (root s) (take i p)") auto
  have "inj_on ?f {0..length p}"
  proof (rule inj_onI)
    fix i j assume ij: "i \<in> {0..length p}" "j \<in> {0..length p}" "?f i = ?f j"
    have "take i p = take j p"
      by (rule resolve_unique [OF assms(1) r [of i]]) (use r [of j] ij(3) in simp)
    then have "length (take i p) = length (take j p)" by simp
    then show "i = j" using ij(1,2) by simp
  qed
  moreover have "?f ` {0..length p} \<subseteq> {0..<fresh s}"
    using resolve_dom [OF assms(1) wf_root [OF assms(1)] r] assms(1) by (auto simp: tree_ok_def)
  ultimately have "card {0..length p} \<le> card {0..<fresh s}"
    by (intro card_inj_on_le [of ?f]) simp_all
  then show ?thesis by simp
qed

lemma cd_path:
  assumes "tree_ok s" "list_all plain xs" "length (path_text xs) < 70" "dirname s = CHR ''/'' # d"
    and "paths s xs = Some (CHR ''Y'')"
  shows "\<exists>a. cd (path_text xs) s = Inr (0, s\<lparr>cwd := a\<rparr>) \<and> resolve s (root s) xs = Some a"
proof -
  obtain a n where a: "resolve s (root s) xs = Some a" "heap s a = Some n" "type n = CHR ''Y''"
    using assms(5) by (auto simp: paths_def Option.bind_eq_Some_conv)
  have "tokenize (path_text xs) = Inr xs"
    using assms(3) path_text_length [OF assms(2)] strtok_path [OF assms(2)]
    by (auto simp: tokenize_def copy_to_def)
  then have "nodeP (path_text xs) s = Inr (Some a)"
    using walk_resolve [OF assms(1) wf_root [OF assms(1)] assms(2)] a(1) assms(4) by (simp add: nodeP_def)
  with a show ?thesis by (simp add: cd_def)
qed

section \<open>Properties\<close>

text \<open>
  C22: whatever is typed and however the words of a line are scanned, no command follows pointers for ever, so the
  program runs until it exits, faults or has used up its input, and the tree is well formed
  up to then: the root is its own parent and nobody's child; every node's children form a finite
  list that ends, they point back to their parent, have different names and have not been freed.
\<close>
theorem fs_tree_ok:
  "(case main_fs scan stdin of (f, s) \<Rightarrow> tree_ok s \<and> f \<noteq> NonTermination)"
  using main_loop_ends [OF tree_ok_initialize older_initialize] by (auto simp: main_fs_def split: prod.split)

text \<open>
  \<open>mkdir\<close> with an absolute path adds exactly one path to the map of paths, that of an empty
  directory, if the directory above it exists and the name is free; \<open>create\<close> does the same for
  a file. All other paths keep their meaning.
\<close>
theorem mkdir_adds_path:
  assumes "tree_ok s" "list_all plain xs" "plain x" "length (path_text (xs @ [x])) < 70"
    and "paths s xs \<noteq> None" "paths s (xs @ [x]) = None"
  shows "\<exists>t u. mkdir (path_text (xs @ [x])) s = Inr (0, t) \<and> tree_ok t \<and>
      paths t = (paths s)(xs @ [x] \<mapsto> CHR ''Y'') \<and>
    create (path_text (xs @ [x])) s = Inr (0, u) \<and> tree_ok u \<and> paths u = (paths s)(xs @ [x] \<mapsto> CHR ''G'')"
  using add_node_paths [OF assms] unfolding mkdir_def create_def by blast

text \<open>
  \<open>rm\<close> removes more than it should: removing a file takes away every file and directory of the
  same directory and all that is below them, because the parent's child pointer is set to null.
\<close>
theorem rm_drops_siblings:
  assumes "tree_ok s" "list_all plain xs" "plain x" "length (path_text (xs @ [x])) < 70"
    and "paths s (xs @ [x]) = Some (CHR ''G'')"
  shows "\<exists>t. rm (path_text (xs @ [x])) s = Inr (0, t) \<and> tree_ok t \<and>
    paths t = (\<lambda>q. if \<exists>y u. q = xs @ y # u then None else paths s q)"
  by (rule rm_paths [OF assms])

text \<open>
  \<open>rmdir\<close> of an empty directory keeps the entries listed after it, but takes away the ones listed
  before it with all that is below them; it is right exactly for the first entry.
\<close>
theorem rmdir_drops_earlier:
  assumes "tree_ok s" "list_all plain xs" "plain x" "length (path_text (xs @ [x])) < 70"
    and "entries s xs = Inr (es @ (ty, x) # fs)" "entries s (xs @ [x]) = Inr []"
  shows "\<exists>t. rmdir (path_text (xs @ [x])) s = Inr (0, t) \<and> tree_ok t \<and> entries t xs = Inr fs \<and>
    paths t = (\<lambda>q. if \<exists>y u. q = xs @ y # u \<and> y \<in> insert x (snd ` set es) then None else paths s q)"
  by (rule rmdir_paths [OF assms])

text \<open>
  C30: \<open>pwd\<close> finds the way back: after \<open>cd\<close> to the absolute path of a directory, the recursion of \<open>pwd\<close> ends at the
  root and hands to \<open>printf\<close> exactly the names on that path, in order. The directory must have been made by
  \<open>mkdir\<close> (type Y), and \<open>cd\<close> takes the path as absolute only when the last command that set \<open>dirname\<close> had an
  absolute path. What \<open>printf\<close> makes of a name under \<open>%a\<close>, a format for numbers, C does not define, and is not modelled.
\<close>
theorem pwd_after_cd:
  assumes "tree_ok s" "list_all plain xs" "length (path_text xs) < 70" "dirname s = CHR ''/'' # d"
    and "paths s xs = Some (CHR ''Y'')"
  shows "\<exists>t. cd (path_text xs) s = Inr (0, t) \<and> pwd t = Inr xs"
proof -
  obtain a where a: "cd (path_text xs) s = Inr (0, s\<lparr>cwd := a\<rparr>)" "resolve s (root s) xs = Some a"
    using cd_path [OF assms] by blast
  let ?t = "s\<lparr>cwd := a\<rparr>"
  have r: "resolve ?t b q = resolve s b q" for b q by (rule resolve_cong) simp_all
  have "tree_ok ?t" using assms(1) by simp
  from helperFunction_path [OF this, of xs a "fresh s"] path_bound [OF this, of xs a] a(2)
  have "pwd ?t = Inr xs" by (simp add: pwd_def r)
  with a(1) show ?thesis by blast
qed

text \<open>
  A command whose path leads through a directory that does not exist brings the program down:
  \<open>nodeP\<close> returns a null pointer, which \<open>mkdir\<close> passes on to \<open>lookC\<close> unchecked.
\<close>
theorem missing_parent_crashes:
  assumes "tree_ok s" "list_all plain xs" "plain x" "length (path_text (xs @ [x])) < 70" "paths s xs = None"
  shows "mkdir (path_text (xs @ [x])) s = Inl NullDeref"
proof -
  have "resolve s (root s) xs = None"
  proof (rule ccontr)
    assume "resolve s (root s) xs \<noteq> None"
    then obtain a where a: "resolve s (root s) xs = Some a" by blast
    with resolve_dom [OF assms(1) wf_root [OF assms(1)] a] assms(5) show False by (auto simp: paths_def)
  qed
  moreover have "length (path_text xs) < 70" using assms(4) by (simp add: path_text_def)
  ultimately show ?thesis
    using z_path [OF assms(2-4)] nodeP_path [OF assms(1,2)] not_reserved [OF assms(3)]
    by (simp add: mkdir_def add_node_def lookC_def)
qed

section \<open>Witnesses\<close>

definition session :: "(string \<times> string) list \<Rightarrow> (fs \<Rightarrow> bool) \<Rightarrow> bool" where
  \<comment> \<open>the commands run without a fault and the state afterwards satisfies the predicate\<close>
  "session cmds P = (case foldE command cmds initialize of Inl e \<Rightarrow> False | Inr s \<Rightarrow> P s)"

lemma sessionE:
  assumes "session cmds P"
  obtains s where "foldE command cmds initialize = Inr s" "tree_ok s" "P s"
  using assms commands_tree_ok by (auto simp: session_def split: sum.splits)

abbreviation sample :: "(string \<times> string) list" where
  "sample \<equiv> [(''create'', ''/a''), (''mkdir'', ''/b'')]"

abbreviation sample_facts :: "fs \<Rightarrow> bool" where
  "sample_facts s \<equiv> paths s [''a''] = Some (CHR ''G'') \<and> paths s [''b''] = Some (CHR ''Y'') \<and> paths s [''c''] = None \<and>
       entries s [] = Inr [(CHR ''G'', ''a''), (CHR ''Y'', ''b'')] \<and> entries s [''b''] = Inr [] \<and>
       dirname s = ''/'' \<and> paths s [] = Some (CHR ''D'')"

lemma session_two: "session sample sample_facts"
  by code_simp

lemma plain_letters: "plain ''a''" "plain ''b''" "plain ''c''"
  by (simp_all add: plain_def)

theorem mkdir_adds_path_witness:
  "\<exists>s t u. foldE command sample initialize = Inr s \<and> mkdir ''/c'' s = Inr (0, t) \<and>
     paths t = (paths s)([''c''] \<mapsto> CHR ''Y'') \<and> create ''/c'' s = Inr (0, u)"
proof (rule sessionE [OF session_two])
  fix s assume s: "foldE command sample initialize = Inr s" "tree_ok s"
    and p: "sample_facts s"
  have "\<exists>t u. mkdir (path_text ([] @ [''c''])) s = Inr (0, t) \<and> tree_ok t \<and>
      paths t = (paths s)([] @ [''c''] \<mapsto> CHR ''Y'') \<and>
      create (path_text ([] @ [''c''])) s = Inr (0, u) \<and> tree_ok u \<and> paths u = (paths s)([] @ [''c''] \<mapsto> CHR ''G'')"
    by (rule mkdir_adds_path [OF s(2)]) (use p in \<open>simp_all add: plain_letters path_text_def\<close>)
  with s(1) show ?thesis by (auto simp: path_text_def)
qed

text \<open>Removing the file \<open>/a\<close> takes the directory \<open>/b\<close> away.\<close>

theorem rm_drops_siblings_witness:
  "\<exists>s t. foldE command sample initialize = Inr s \<and> paths s [''b''] = Some (CHR ''Y'') \<and>
     rm ''/a'' s = Inr (0, t) \<and> paths t [''b''] = None"
proof (rule sessionE [OF session_two])
  fix s assume s: "foldE command sample initialize = Inr s" "tree_ok s"
    and p: "sample_facts s"
  have "\<exists>t. rm (path_text ([] @ [''a''])) s = Inr (0, t) \<and> tree_ok t \<and>
      paths t = (\<lambda>q. if \<exists>y u. q = [] @ y # u then None else paths s q)"
    by (rule rm_drops_siblings [OF s(2)]) (use p in \<open>simp_all add: plain_letters path_text_def\<close>)
  with s(1) p show ?thesis by (auto simp: path_text_def)
qed

text \<open>Removing the directory \<open>/b\<close> takes the file \<open>/a\<close> away, which is listed before it.\<close>

theorem rmdir_drops_earlier_witness:
  "\<exists>s t. foldE command sample initialize = Inr s \<and> paths s [''a''] = Some (CHR ''G'') \<and>
     rmdir ''/b'' s = Inr (0, t) \<and> entries t [] = Inr [] \<and> paths t [''a''] = None"
proof (rule sessionE [OF session_two])
  fix s assume s: "foldE command sample initialize = Inr s" "tree_ok s"
    and p: "sample_facts s"
  have "\<exists>t. rmdir (path_text ([] @ [''b''])) s = Inr (0, t) \<and> tree_ok t \<and> entries t [] = Inr [] \<and>
      paths t = (\<lambda>q. if \<exists>y u. q = [] @ y # u \<and> y \<in> insert ''b'' (snd ` set [(CHR ''G'', ''a'')]) then None else paths s q)"
    by (rule rmdir_drops_earlier [OF s(2)]) (use p in \<open>simp_all add: plain_letters path_text_def\<close>)
  with s(1) p show ?thesis by (auto simp: path_text_def)
qed

theorem pwd_after_cd_witness:
  "\<exists>s t. foldE command sample initialize = Inr s \<and> cd ''/b'' s = Inr (0, t) \<and> pwd t = Inr [''b'']"
proof (rule sessionE [OF session_two])
  fix s assume s: "foldE command sample initialize = Inr s" "tree_ok s"
    and p: "sample_facts s"
  have "\<exists>t. cd (path_text [''b'']) s = Inr (0, t) \<and> pwd t = Inr [''b'']"
    by (rule pwd_after_cd [OF s(2), of _ "[]"]) (use p in \<open>simp_all add: plain_letters path_text_def\<close>)
  with s(1) show ?thesis by (auto simp: path_text_def)
qed

theorem missing_parent_crashes_witness:
  "\<exists>s. foldE command sample initialize = Inr s \<and> mkdir ''/c/a'' s = Inl NullDeref"
proof (rule sessionE [OF session_two])
  fix s assume s: "foldE command sample initialize = Inr s" "tree_ok s"
    and p: "sample_facts s"
  have "mkdir (path_text ([''c''] @ [''a''])) s = Inl NullDeref"
    by (rule missing_parent_crashes [OF s(2)]) (use p in \<open>simp_all add: plain_letters path_text_def\<close>)
  with s(1) show ?thesis by (auto simp: path_text_def)
qed

text \<open>
  The table of functions is shorter than the table of names: \<open>reload\<close> ends the program, and
  \<open>save\<close>, \<open>quit\<close> and every unknown command read outside the table.
\<close>

lemma dispatch_mismatch:
  "command (''reload'', p) s = Inl (Exit 0)" "command (''save'', p) s = Inl OutOfBounds"
  "command (''quit'', p) s = Inl OutOfBounds" "command (''help'', p) s = Inl OutOfBounds"
  by (simp_all add: command_def call_def find_commad_def commands_def)

text \<open>A whole run, with words separated by white space; the name that ends the program is \<open>reload\<close>.\<close>

lemma sample_run:
  "(case main_fs scan_words (''mkdir /b'' @ [newline] @ ''create /b/f'' @ [newline] @ ''reload'' @ [newline]) of
     (f, s) \<Rightarrow> f = Exit 0 \<and> paths s [''b''] = Some (CHR ''Y'') \<and> paths s [''b'', ''f''] = Some (CHR ''G''))"
  by code_simp

end
