(* ===== verification/Fs_Session.thy ===== *)
theory Fs_Session
  imports Fs_Props
begin

text \<open>
  Whole sessions with the file system of lab1/lab1_hutchins.c: a run of commands with absolute
  paths is refined to a run over an abstract tree, which has no heap, no addresses and no current
  directory: a map from the paths that exist to their entries in the order \<open>ls\<close> prints them.
\<close>

section \<open>The listing of every path\<close>

type_synonym tree = "string list \<Rightarrow> (char \<times> string) list option"

definition listing :: "fs \<Rightarrow> tree" where
  "listing s xs = (case entries s xs of Inr es \<Rightarrow> Some es | Inl _ \<Rightarrow> None)"

abbreviation entry :: "fs \<Rightarrow> addr \<Rightarrow> char \<times> string" where
  "entry s b \<equiv> (type (the (heap s b)), names s b)"

lemma listing_kids:
  "tree_ok s \<Longrightarrow> resolve s (root s) xs = Some d \<Longrightarrow> kids s d ks \<Longrightarrow> listing s xs = Some (map (entry s) ks)"
  using entries_kids by (simp add: listing_def)

lemma listing_None_iff:
  assumes "tree_ok s"
  shows "listing s xs = None \<longleftrightarrow> resolve s (root s) xs = None"
proof (cases "resolve s (root s) xs")
  case (Some d)
  obtain ks where "kids s d ks"
    by (rule wf_kids [OF assms resolve_dom [OF assms wf_root [OF assms] Some]])
  from listing_kids [OF assms Some this] Some show ?thesis by simp
qed (simp add: listing_def entries_def)

lemma listing_Some:
  assumes "tree_ok s" "listing s xs = Some es"
  obtains d ks where "resolve s (root s) xs = Some d" "d \<in> dom (heap s)" "kids s d ks" "es = map (entry s) ks"
proof -
  obtain d where r: "resolve s (root s) xs = Some d" using assms listing_None_iff [of s xs] by fastforce
  have d: "d \<in> dom (heap s)" by (rule resolve_dom [OF assms(1) wf_root [OF assms(1)] r])
  obtain ks where k: "kids s d ks" using assms(1) d by (rule wf_kids)
  with that [OF r d k] listing_kids [OF assms(1) r k] assms(2) show thesis by simp
qed

lemma listing_cong:
  "tree_ok s \<Longrightarrow> tree_ok t \<Longrightarrow> resolve t (root t) q = Some b \<Longrightarrow> resolve s (root s) q = Some b \<Longrightarrow>
   kids s b ks \<Longrightarrow> kids t b ks \<Longrightarrow> (\<And>c. c \<in> set ks \<Longrightarrow> entry t c = entry s c) \<Longrightarrow> listing t q = listing s q"
  using listing_kids [of s q b ks] listing_kids [of t q b ks] by simp

text \<open>A name is listed exactly if the path with that name exists.\<close>

lemma listed_lookC:
  assumes "tree_ok s" "d \<in> dom (heap s)" "kids s d ks"
  shows "lookC (Some d) x s = Inr None \<longleftrightarrow> x \<notin> snd ` set (map (entry s) ks)"
  using lookC_kids [OF assms, of x] by (auto simp: find_name_None [unfolded image_def] image_iff)

section \<open>Linking and unlinking\<close>

lemma link_listing:
  assumes "tree_ok s" "resolve s (root s) p = Some a" "kids s a ks" "x \<notin> names s ` set ks"
    and t: "t = link_last a ks (fresh s) (alloc ty x s)"
  shows "listing t = (listing s)(p \<mapsto> map (entry s) ks @ [(ty, x)], p @ [x] \<mapsto> [])"
proof
  fix q
  have a: "a \<in> dom (heap s)" by (rule resolve_dom [OF assms(1) wf_root [OF assms(1)] assms(2)])
  note v = link_views [OF assms(1) a assms(3) t] and w = link_wf [OF assms(1) a assms(3,4) t]
    and k = link_kids [OF assms(1) a assms(3,4) t]
  have new: "fresh s \<notin> dom (heap s)" using assms(1) by (auto simp: tree_ok_def)
  have old: "entry t b = entry s b" if "b \<in> dom (heap s)" for b
  proof -
    have "b \<noteq> fresh s" "b \<in> dom (heap t)" using that new v(1) by auto
    then show ?thesis using fun_cong [OF v(9), of b] that by (auto simp: v(5))
  qed
  have fresh: "entry t (fresh s) = (ty, x)"
    using fun_cong [OF v(9), of "fresh s"] by (auto simp: v(5))
  have "(\<exists>r. q = r @ [x] \<and> resolve s (root s) r = Some a) \<longleftrightarrow> q = p @ [x]"
    using resolve_unique [OF assms(1) assms(2)] assms(2) by blast
  then have r: "resolve t (root t) q = (if q = p @ [x] then Some (fresh s) else resolve s (root s) q)"
    using link_resolve [OF assms(1) a assms(3,4) t wf_root [OF assms(1)], of q] by (simp add: v(6))
  consider "q = p @ [x]" | "q = p" | "q \<noteq> p @ [x]" "q \<noteq> p" by blast
  then show "listing t q = ((listing s)(p \<mapsto> map (entry s) ks @ [(ty, x)], p @ [x] \<mapsto> [])) q"
  proof cases
    case 1
    then show ?thesis using listing_kids [OF w _ k(2), of q] r by simp
  next
    case 2
    have "map (entry t) ks = map (entry s) ks" using kids_dom [OF assms(3)] old by auto
    with 2 show ?thesis using listing_kids [OF w _ k(1), of q] r assms(2) fresh by simp
  next
    case 3
    show ?thesis
    proof (cases "resolve s (root s) q")
      case None
      with 3 r listing_None_iff [OF assms(1), of q] listing_None_iff [OF w, of q] show ?thesis by simp
    next
      case (Some b)
      have b: "b \<in> dom (heap s)" by (rule resolve_dom [OF assms(1) wf_root [OF assms(1)] Some])
      have "b \<noteq> a" using resolve_unique [OF assms(1) Some, of p] assms(2) 3 by auto
      obtain ws where ws: "kids s b ws" using assms(1) b by (rule wf_kids)
      have "resolve t (root t) q = Some b" using r 3 Some by simp
      have "entry t c = entry s c" if "c \<in> set ws" for c using old kids_dom [OF ws] that by blast
      from listing_cong [OF assms(1) w \<open>resolve t (root t) q = Some b\<close> Some ws k(3) [OF b \<open>b \<noteq> a\<close> ws] this] 3
      show ?thesis by simp
    qed
  qed
qed

definition below :: "string list \<Rightarrow> string set \<Rightarrow> string list \<Rightarrow> bool" where
  "below xs ds q \<longleftrightarrow> length xs < length q \<and> take (length xs) q = xs \<and> q ! length xs \<in> ds"

lemma below_iff: "below xs ds q \<longleftrightarrow> (\<exists>y u. q = xs @ y # u \<and> y \<in> ds)"
proof
  assume "below xs ds q"
  then have "q = xs @ q ! length xs # drop (Suc (length xs)) q" "q ! length xs \<in> ds"
    by (auto simp: below_def dest: id_take_nth_drop)
  then show "\<exists>y u. q = xs @ y # u \<and> y \<in> ds" by blast
qed (auto simp: below_def)

definition prune :: "string list \<Rightarrow> (char \<times> string) list \<Rightarrow> (char \<times> string) list \<Rightarrow> tree \<Rightarrow> tree" where
  \<comment> \<open>the entries \<open>gone\<close> of a directory go with all that is below them, \<open>kept\<close> stay\<close>
  "prune xs gone kept T q =
     (if q = xs then Some kept else if below xs (snd ` set gone) q then None else T q)"

lemma unlink_listing:
  assumes "tree_ok s" "resolve s (root s) p = Some d" "kids s d (ys @ zs)" "a \<in> set ys" "chain (sptr s) h zs"
    and t: "t = unlink d a h s"
  shows "listing t = prune p (map (entry s) ys) (map (entry s) zs) (listing s)"
proof
  fix q
  have d: "d \<in> dom (heap s)" by (rule resolve_dom [OF assms(1) wf_root [OF assms(1)] assms(2)])
  have ad: "a \<noteq> d" "a \<noteq> root s"
    using child_not_parent [OF assms(1,3)] assms(3,4) by (auto simp: kids_def)
  note v = unlink_views [OF d ad(1) t] and w = unlink_wf [OF assms(1) d assms(3-5) t]
    and k = unlink_kids [OF assms(1) d assms(3-5) t]
  have ds: "snd ` set (map (entry s) ys) = names s ` set ys" by (simp add: image_image)
  have "(\<exists>r y u. q = r @ y # u \<and> resolve s (root s) r = Some d \<and> y \<in> names s ` set ys) \<longleftrightarrow>
      below p (names s ` set ys) q"
    unfolding below_iff using resolve_unique [OF assms(1) assms(2)] assms(2) by blast
  with unlink_resolve [OF assms(1) d assms(3-5) t wf_root [OF assms(1)] ad(2) [symmetric], of q]
  have r: "resolve t (root t) q = (if below p (names s ` set ys) q then None else resolve s (root s) q)"
    by (simp add: v(6))
  consider "q = p" | "below p (names s ` set ys) q" "q \<noteq> p" | "q \<noteq> p" "\<not> below p (names s ` set ys) q" by blast
  then show "listing t q = prune p (map (entry s) ys) (map (entry s) zs) (listing s) q"
  proof cases
    case 1
    with unlink_entries [OF assms] show ?thesis by (simp add: listing_def prune_def)
  next
    case 2
    with r listing_None_iff [OF w, of q] show ?thesis unfolding prune_def ds by simp
  next
    case 3
    show ?thesis
    proof (cases "resolve s (root s) q")
      case None
      with 3 r listing_None_iff [OF assms(1), of q] listing_None_iff [OF w, of q] show ?thesis
        unfolding prune_def ds by simp
    next
      case (Some b)
      then have rt: "resolve t (root t) q = Some b" using r 3 by simp
      have b: "b \<in> dom (heap s)" by (rule resolve_dom [OF assms(1) wf_root [OF assms(1)] Some])
      have bt: "b \<in> dom (heap t)" by (rule resolve_dom [OF w wf_root [OF w] rt])
      then have bd: "b \<noteq> d" "b \<noteq> a" using resolve_unique [OF assms(1) Some, of p] assms(2) 3 v(1) by auto
      obtain ws where ws: "kids s b ws" using assms(1) b by (rule wf_kids)
      have kt: "kids t b ws" by (rule k(2) [OF bd ws])
      have "entry t c = entry s c" if "c \<in> set ws" for c
      proof -
        have "c \<in> dom (heap t)" using kids_dom [OF kt] that by blast
        moreover from this have "c \<noteq> a" by (auto simp: v(1))
        ultimately show ?thesis using fun_cong [OF v(9), of c] by (auto simp: v(5) map_option_case split: option.splits)
      qed
      from listing_cong [OF assms(1) w rt Some ws kt this] 3 show ?thesis unfolding prune_def ds by simp
    qed
  qed
qed

section \<open>The abstract file system\<close>

datatype verb = Mkdir | Create | Rmdir | Rm | Ls | Cd

type_synonym request = "verb \<times> string list \<times> string"

definition add_entry :: "char \<Rightarrow> string list \<Rightarrow> string \<Rightarrow> tree \<Rightarrow> fault + tree" where
  "add_entry ty xs x T = (case T xs of
     None \<Rightarrow> Inl NullDeref
   | Some es \<Rightarrow> if x \<in> snd ` set es then Inr T else Inr (T(xs \<mapsto> es @ [(ty, x)], xs @ [x] \<mapsto> [])))"

definition remove_file :: "string list \<Rightarrow> string \<Rightarrow> tree \<Rightarrow> fault + tree" where
  \<comment> \<open>every entry of the directory goes\<close>
  "remove_file xs x T = (case T xs of
     None \<Rightarrow> Inl NullDeref
   | Some es \<Rightarrow> if (CHR ''G'', x) \<in> set es then Inr (prune xs es [] T) else Inr T)"

definition remove_dir :: "string list \<Rightarrow> string \<Rightarrow> tree \<Rightarrow> fault + tree" where
  \<comment> \<open>the entries up to this one go; a file is taken as well as an empty directory\<close>
  "remove_dir xs x T = (case T xs of
     None \<Rightarrow> Inl NullDeref
   | Some es \<Rightarrow>
       if T (xs @ [x]) = Some []
       then let before = takeWhile (\<lambda>e. snd e \<noteq> x) es; after = dropWhile (\<lambda>e. snd e \<noteq> x) es
            in Inr (prune xs (before @ take 1 after) (drop 1 after) T)
       else Inr T)"

definition visit :: "string list \<Rightarrow> tree \<Rightarrow> fault + tree" where
  "visit q T = (if T q = None then Inl NullDeref else Inr T)"

fun perform :: "request \<Rightarrow> tree \<Rightarrow> fault + tree" where
  "perform (Mkdir, xs, x) T = add_entry (CHR ''Y'') xs x T"
| "perform (Create, xs, x) T = add_entry (CHR ''G'') xs x T"
| "perform (Rmdir, xs, x) T = remove_dir xs x T"
| "perform (Rm, xs, x) T = remove_file xs x T"
| "perform (Ls, xs, x) T = visit (xs @ [x]) T"
| "perform (Cd, xs, x) T = visit (xs @ [x]) T"

fun verb_text :: "verb \<Rightarrow> string" where
  "verb_text Mkdir = ''mkdir''"
| "verb_text Create = ''create''"
| "verb_text Rmdir = ''rmdir''"
| "verb_text Rm = ''rm''"
| "verb_text Ls = ''ls''"
| "verb_text Cd = ''cd''"

fun typed :: "request \<Rightarrow> string \<times> string" where
  \<comment> \<open>the two words of the command\<close>
  "typed (v, xs, x) = (verb_text v, path_text (xs @ [x]))"

fun fits :: "request \<Rightarrow> bool" where
  "fits (v, xs, x) \<longleftrightarrow> list_all plain xs \<and> plain x \<and> length (path_text (xs @ [x])) < 70"

section \<open>Every command matches its abstract operation\<close>

definition rooted :: "fs \<Rightarrow> bool" where
  \<comment> \<open>absolute paths are taken as absolute\<close>
  "rooted s \<longleftrightarrow> s = initialize \<or> (tree_ok s \<and> (\<exists>d. dirname s = CHR ''/'' # d))"

definition matches :: "fault + fs \<Rightarrow> fault + tree \<Rightarrow> bool" where
  "matches m T = (case m of Inl e \<Rightarrow> T = Inl e | Inr s \<Rightarrow> rooted s \<and> T = Inr (listing s))"

lemma matches_simps [simp]:
  "matches (Inl e) T \<longleftrightarrow> T = Inl e"
  "matches (Inr s) T \<longleftrightarrow> rooted s \<and> T = Inr (listing s)"
  by (simp_all add: matches_def)

lemma rooted_tree_ok: "rooted s \<Longrightarrow> tree_ok s"
  by (auto simp: rooted_def tree_ok_initialize)

lemma dirname_root: "\<exists>d. (if xs = [] then ''/'' else path_text xs) = CHR ''/'' # d"
  by (cases xs) (simp_all add: path_text_def)

lemma rooted_enter: "tree_ok s \<Longrightarrow> rooted (enter xs x s)"
  using dirname_root [of xs] by (simp add: rooted_def)

lemma list_siblings_cong: "heap t = heap s \<Longrightarrow> list_siblings k t p = list_siblings k s p"
proof (induction k arbitrary: p)
  case (Suc k)
  then show ?case using deref_cong [of t s] by (cases p) simp_all
qed simp

lemma listing_heap:
  "heap t = heap s \<Longrightarrow> fresh t = fresh s \<Longrightarrow> root t = root s \<Longrightarrow> listing t = listing s"
  using deref_cong [of t s] resolve_cong [of t s] list_siblings_cong [of t s]
  by (simp add: listing_def entries_def fun_eq_iff)

lemma listing_moved [simp]: "listing (enter xs x s) = listing s" "listing (s\<lparr>cwd := c\<rparr>) = listing s"
  by (rule listing_heap; simp)+

lemma nodeP_root:
  assumes "tree_ok s" "list_all plain ys" "length (path_text ys) < 70"
    and "(case dirname s of c # _ \<Rightarrow> if c = CHR ''/'' then root s else cwd s | [] \<Rightarrow> cwd s) = root s"
  shows "nodeP (path_text ys) s = Inr (resolve s (root s) ys)"
proof -
  have "tokenize (path_text ys) = Inr ys"
    using assms(3) path_text_length [OF assms(2)] strtok_path [OF assms(2)]
    by (simp add: tokenize_def copy_to_def Let_def)
  then show ?thesis
    using walk_resolve [OF assms(1) wf_root [OF assms(1)] assms(2)] assms(4) by (simp add: nodeP_def)
qed

lemma dirname_linked: "dirname (link_last d ks b (alloc ty x s)) = dirname s"
  by (simp add: link_last_def alloc_def upd_def)

lemma dirname_unlinked: "dirname (unlink d a h s) = dirname s"
  by (simp add: unlink_def free_def upd_def)

text \<open>How every command but \<open>cd\<close> begins: it looks the name up in the directory above.\<close>

lemma lookup_parent:
  assumes "tree_ok s" "fits (v, xs, x)"
  shows "z (path_text (xs @ [x])) s = Inr (enter xs x s)"
    "nodeP (if xs = [] then ''/'' else path_text xs) (enter xs x s) = Inr (resolve s (root s) xs)"
    "\<not> reserved x"
  using z_path [of xs x s] nodeP_path [OF assms(1), of xs x] not_reserved [of x] assms(2)
  by (simp_all add: path_text_def)

lemma lookup_absent: "listing s xs = None \<Longrightarrow> tree_ok s \<Longrightarrow> lookC (resolve s (root s) xs) x s = Inl NullDeref"
  by (simp add: listing_None_iff lookC_def)

lemma add_implements:
  assumes "tree_ok s" "fits (v, xs, x)"
  shows "matches (bindE (add_node ty (path_text (xs @ [x])) s) (Inr \<circ> snd)) (add_entry ty xs x (listing s))"
proof (cases "listing s xs")
  case None
  then show ?thesis using lookup_parent [OF assms] lookup_absent [OF None assms(1)]
    by (simp add: add_node_def add_entry_def)
next
  case (Some es)
  then obtain d ks where d: "resolve s (root s) xs = Some d" "d \<in> dom (heap s)" "kids s d ks" "es = map (entry s) ks"
    by (rule listing_Some [OF assms(1)])
  obtain r where r: "lookC (Some d) x s = Inr r" by (rule lookC_total [OF assms(1) d(2)])
  note enters = lookup_parent [OF assms] and absent = listed_lookC [OF assms(1) d(2,3), of x]
  show ?thesis
  proof (cases r)
    case None
    let ?s = "enter xs x s"
    define t where "t = link_last d ks (fresh ?s) (alloc ty x ?s)"
    have n: "x \<notin> names s ` set ks" using absent r None by (auto simp: image_image)
    have e: "tree_ok ?s" "d \<in> dom (heap ?s)" "kids ?s d ks" "x \<notin> names ?s ` set ks" "resolve ?s (root ?s) xs = Some d"
      using assms(1) d n by simp_all
    have run: "add_node ty (path_text (xs @ [x])) s = Inr (0, t)"
      using enters d(1) r None insert_child_links [OF e(1-3), of ty x]
      by (simp add: add_node_def t_def alloc_def Let_def)
    have "rooted t" using link_wf [OF e(1-4) t_def] dirname_root [of xs] by (simp add: rooted_def t_def dirname_linked)
    moreover have "listing t = (listing s)(xs \<mapsto> es @ [(ty, x)], xs @ [x] \<mapsto> [])"
      using link_listing [OF e(1,5,3,4) t_def] d(4) by simp
    ultimately show ?thesis using run Some absent r None d(4) by (simp add: add_entry_def)
  next
    case (Some b)
    then have "x \<in> snd ` set es" using absent r d(4) by simp
    then show ?thesis using enters d(1) r Some \<open>listing s xs = Some es\<close> rooted_enter [OF assms(1)]
      by (simp add: add_node_def add_entry_def)
  qed
qed

text \<open>The child that a name stands for, with the children before and after it.\<close>

lemma named_child:
  assumes "tree_ok s" "kids s d ks" "d \<in> dom (heap s)" "lookC (Some d) x s = Inr (Some a)"
  obtains us ws n where "ks = us @ a # ws" "x \<notin> names s ` set us" "heap s a = Some n" "nm n = x"
    "Pptr n = Some d" "chain (sptr s) (Sptr n) ws"
proof -
  have "List.find (\<lambda>b. names s b = x) ks = Some a" using lookC_kids [OF assms(1,3,2), of x] assms(4) by simp
  then have a: "a \<in> set ks" "names s a = x" using find_name_Some [of "names s" ks x a] assms(2) by (simp_all add: kids_def)
  from split_list [OF a(1)] obtain us ws where ks: "ks = us @ a # ws" by blast
  have "distinct (map (names s) ks)" using assms(2) by (simp add: kids_def)
  then have n: "x \<notin> names s ` set us" using ks a(2) by auto
  obtain n where h: "heap s a = Some n" "nm n = x" "Pptr n = Some d"
    using assms(2) a by (auto simp: kids_def views)
  have "chain (sptr s) (cptr s d) (us @ a # ws)" using assms(2) ks by (simp add: kids_def)
  from chain_suffix [OF this] h(1) have "chain (sptr s) (Sptr n) ws" by (simp add: sptr_def)
  with that [OF ks n h] show thesis .
qed

lemma unlink_implements:
  assumes "tree_ok s" "resolve s (root s) xs = Some d" "d \<in> dom (heap s)" "kids s d (ys @ zs)" "a \<in> set ys"
    and "chain (sptr s) h zs"
  shows "matches (Inr (unlink d a h (enter xs x s)))
    (Inr (prune xs (map (entry s) ys) (map (entry s) zs) (listing s)))"
proof -
  have e: "tree_ok (enter xs x s)" "d \<in> dom (heap (enter xs x s))" "kids (enter xs x s) d (ys @ zs)"
    "resolve (enter xs x s) (root (enter xs x s)) xs = Some d" "chain (sptr (enter xs x s)) h zs"
    using assms by simp_all
  show ?thesis
    using unlink_wf [OF e(1-3) assms(5) e(5) refl] unlink_listing [OF e(1,4,3) assms(5) e(5) refl] dirname_root [of xs]
    by (simp add: rooted_def dirname_unlinked)
qed

lemma listed_type:
  assumes "kids s d ks" "a \<in> set ks" "names s a = x"
  shows "(ty, x) \<in> set (map (entry s) ks) \<longleftrightarrow> type (the (heap s a)) = ty"
proof
  assume "(ty, x) \<in> set (map (entry s) ks)"
  then obtain b where b: "b \<in> set ks" "names s b = x" "type (the (heap s b)) = ty" by auto
  have "inj_on (names s) (set ks)" using assms(1) by (simp add: kids_def distinct_map)
  then have "b = a" by (rule inj_onD) (use b assms in simp_all)
  with b(3) show "type (the (heap s a)) = ty" by simp
next
  assume "type (the (heap s a)) = ty"
  then have e: "entry s a = (ty, x)" using assms(3) by simp
  have "entry s a \<in> set (map (entry s) ks)" unfolding set_map using assms(2) by (rule imageI)
  then show "(ty, x) \<in> set (map (entry s) ks)" unfolding e .
qed

lemma rm_implements:
  assumes "tree_ok s" "fits (v, xs, x)"
  shows "matches (bindE (rm (path_text (xs @ [x])) s) (Inr \<circ> snd)) (remove_file xs x (listing s))"
proof (cases "listing s xs")
  case None
  then show ?thesis using lookup_parent [OF assms] lookup_absent [OF None assms(1)]
    by (simp add: rm_def remove_file_def)
next
  case (Some es)
  then obtain d ks where d: "resolve s (root s) xs = Some d" "d \<in> dom (heap s)" "kids s d ks" "es = map (entry s) ks"
    by (rule listing_Some [OF assms(1)])
  obtain r where r: "lookC (Some d) x s = Inr r" by (rule lookC_total [OF assms(1) d(2)])
  note enters = lookup_parent [OF assms] rooted_enter [OF assms(1)]
  show ?thesis
  proof (cases r)
    case None
    then have "(CHR ''G'', x) \<notin> set es" using listed_lookC [OF assms(1) d(2,3), of x] r d(4) by (force simp: image_iff)
    then show ?thesis using enters d(1) r None Some by (simp add: rm_def remove_file_def)
  next
    case (Some a)
    obtain us ws n where n: "ks = us @ a # ws" "x \<notin> names s ` set us" "heap s a = Some n" "nm n = x" "Pptr n = Some d"
      by (rule named_child [OF assms(1) d(3,2) r [unfolded Some]])
    have a: "a \<in> set ks" "names s a = x" using n by (simp_all add: names_def)
    have "(CHR ''G'', x) \<in> set es \<longleftrightarrow> type n = CHR ''G''"
      unfolding d(4) using listed_type [OF d(3) a, of "CHR ''G''"] n(3) by simp
    moreover have "deref s (Some d) = Inr (the (heap s d))" using d(2) by auto
    moreover have "matches (Inr (unlink d a None (enter xs x s))) (Inr (prune xs es [] (listing s)))"
      using unlink_implements [OF assms(1) d(1,2), of ks "[]" a None] d(3,4) a(1) by simp
    ultimately show ?thesis using enters d(1) r Some n(3,5) \<open>listing s xs = Some es\<close>
      by (simp add: rm_def remove_file_def remove_state)
  qed
qed

lemma listing_leaf:
  assumes "tree_ok s" "resolve s (root s) q = Some a" "heap s a = Some n"
  shows "listing s q = Some [] \<longleftrightarrow> Cptr n = None"
proof -
  have "a \<in> dom (heap s)" using assms(3) by auto
  then obtain ms where k: "kids s a ms" using assms(1) by (auto elim: wf_kids)
  then have "chain (sptr s) (Cptr n) ms" using assms(3) by (simp add: kids_def cptr_def)
  then have "ms = [] \<longleftrightarrow> Cptr n = None" by (cases ms) auto
  with listing_kids [OF assms(1,2) k] show ?thesis by simp
qed

lemma split_at_name:
  assumes "x \<notin> snd ` set us"
  shows "takeWhile (\<lambda>e. snd e \<noteq> x) (us @ (ty, x) # ws) = us"
    "dropWhile (\<lambda>e. snd e \<noteq> x) (us @ (ty, x) # ws) = (ty, x) # ws"
  using assms by (induction us) auto

lemma rmdir_implements:
  assumes "tree_ok s" "fits (v, xs, x)"
  shows "matches (bindE (rmdir (path_text (xs @ [x])) s) (Inr \<circ> snd)) (remove_dir xs x (listing s))"
proof (cases "listing s xs")
  case None
  then show ?thesis using lookup_parent [OF assms] lookup_absent [OF None assms(1)]
    by (simp add: rmdir_def remove_dir_def)
next
  case (Some es)
  then obtain d ks where d: "resolve s (root s) xs = Some d" "d \<in> dom (heap s)" "kids s d ks" "es = map (entry s) ks"
    by (rule listing_Some [OF assms(1)])
  obtain r where r: "lookC (Some d) x s = Inr r" by (rule lookC_total [OF assms(1) d(2)])
  note enters = lookup_parent [OF assms] rooted_enter [OF assms(1)]
  show ?thesis
  proof (cases r)
    case None
    then have "listing s (xs @ [x]) = None" using r d(1) by (simp add: listing_None_iff [OF assms(1)] resolve_append)
    then show ?thesis using enters d(1) r None Some by (simp add: rmdir_def remove_dir_def)
  next
    case (Some a)
    obtain us ws n where n: "ks = us @ a # ws" "x \<notin> names s ` set us" "heap s a = Some n" "nm n = x" "Pptr n = Some d"
        "chain (sptr s) (Sptr n) ws"
      by (rule named_child [OF assms(1) d(3,2) r [unfolded Some]])
    have leaf: "listing s (xs @ [x]) = Some [] \<longleftrightarrow> Cptr n = None"
      by (rule listing_leaf [OF assms(1) _ n(3)]) (use d(1) r Some in \<open>simp add: resolve_append\<close>)
    have a: "names s a = x" using n(3,4) by (simp add: names_def)
    have "x \<notin> snd ` set (map (entry s) us)" using n(2) by (simp add: image_image)
    note parts = split_at_name [OF this, of "type (the (heap s a))" "map (entry s) ws"]
    have "takeWhile (\<lambda>e. snd e \<noteq> x) es = map (entry s) us"
      "dropWhile (\<lambda>e. snd e \<noteq> x) es = entry s a # map (entry s) ws"
      unfolding d(4) n(1) map_append list.map a by (rule parts)+
    moreover have "deref s (Some d) = Inr (the (heap s d))" using d(2) by auto
    moreover have "matches (Inr (unlink d a (Sptr n) (enter xs x s)))
        (Inr (prune xs (map (entry s) us @ [entry s a]) (map (entry s) ws) (listing s)))"
      using unlink_implements [OF assms(1) d(1,2), of "us @ [a]" ws a "Sptr n"] d(3) n(1,6) by simp
    ultimately show ?thesis using enters d(1) r Some n(3,5) leaf \<open>listing s xs = Some es\<close>
      by (simp add: rmdir_def remove_dir_def remove_state Let_def)
  qed
qed

lemma ls_implements:
  assumes "tree_ok s" "fits (v, xs, x)"
  shows "ls (path_text (xs @ [x])) s = (case listing s (xs @ [x]) of
      None \<Rightarrow> Inl NullDeref | Some es \<Rightarrow> Inr (es, enter xs x s))"
proof -
  let ?s = "enter xs x s" and ?p = "path_text (xs @ [x])"
  obtain d where "dirname ?s = CHR ''/'' # d" using dirname_root [of xs] by auto
  then have n: "nodeP ?p ?s = Inr (resolve s (root s) (xs @ [x]))"
    using nodeP_root [of ?s "xs @ [x]"] assms by simp
  show ?thesis
  proof (cases "resolve s (root s) (xs @ [x])")
    case None
    with listing_None_iff [OF assms(1), of "xs @ [x]"] show ?thesis
      using lookup_parent(1) [OF assms] n by (simp add: ls_def)
  next
    case (Some a)
    obtain m where m: "heap s a = Some m" using resolve_dom [OF assms(1) wf_root [OF assms(1)] Some] by auto
    then have e: "entries ?s (xs @ [x]) = list_siblings (Suc (fresh s)) ?s (Cptr m)" using Some by (simp add: entries_def)
    obtain es where es: "listing s (xs @ [x]) = Some es"
      using Some listing_None_iff [OF assms(1), of "xs @ [x]"] by fastforce
    then have "listing ?s (xs @ [x]) = Some es" by simp
    then have "entries ?s (xs @ [x]) = Inr es" unfolding listing_def by (simp split: sum.splits)
    then show ?thesis using lookup_parent(1) [OF assms] n Some m es e by (simp add: ls_def del: list_siblings.simps)
  qed
qed

lemma cd_implements:
  assumes "rooted s" "fits (v, xs, x)"
  shows "matches (bindE (cd (path_text (xs @ [x])) s) (Inr \<circ> snd)) (visit (xs @ [x]) (listing s))"
proof -
  have w: "tree_ok s" by (rule rooted_tree_ok [OF assms(1)])
  have "(case dirname s of c # _ \<Rightarrow> if c = CHR ''/'' then root s else cwd s | [] \<Rightarrow> cwd s) = root s"
    using assms(1) by (auto simp: rooted_def initialize_def)
  then have n: "nodeP (path_text (xs @ [x])) s = Inr (resolve s (root s) (xs @ [x]))"
    using nodeP_root [OF w, of "xs @ [x]"] assms(2) by simp
  show ?thesis
  proof (cases "resolve s (root s) (xs @ [x])")
    case None
    with n listing_None_iff [OF w, of "xs @ [x]"] show ?thesis by (simp add: cd_def visit_def)
  next
    case (Some a)
    have "s \<noteq> initialize"
    proof
      assume "s = initialize"
      moreover have "resolve initialize (root initialize) (y # ys) = None" for y ys
        by (simp add: initialize_def lookC_def)
      ultimately show False using Some by (cases xs) simp_all
    qed
    then have "rooted s" "\<And>c. rooted (s\<lparr>cwd := c\<rparr>)" using assms(1) by (simp_all add: rooted_def)
    moreover obtain m where "heap s a = Some m" using resolve_dom [OF w wf_root [OF w] Some] by auto
    ultimately show ?thesis using n Some listing_None_iff [OF w, of "xs @ [x]"]
      by (simp add: cd_def visit_def)
  qed
qed

section \<open>Sessions\<close>

lemma command_implements:
  assumes "rooted s" "fits r"
  shows "matches (command (typed r) s) (perform r (listing s))"
proof -
  obtain v xs x where r: "r = (v, xs, x)" by (cases r)
  note w = rooted_tree_ok [OF assms(1)] and f = assms(2) [unfolded r]
  have c: "command (verb_text v, p) s = (case v of
      Mkdir \<Rightarrow> bindE (add_node (CHR ''Y'') p s) (Inr \<circ> snd) | Create \<Rightarrow> bindE (add_node (CHR ''G'') p s) (Inr \<circ> snd)
    | Rmdir \<Rightarrow> bindE (rmdir p s) (Inr \<circ> snd) | Rm \<Rightarrow> bindE (rm p s) (Inr \<circ> snd)
    | Ls \<Rightarrow> bindE (ls p s) (Inr \<circ> snd) | Cd \<Rightarrow> bindE (cd p s) (Inr \<circ> snd))" for p
    by (cases v) (simp_all add: command_def call_def find_commad_def commands_def mkdir_def create_def)
  have "matches (bindE (ls (path_text (xs @ [x])) s) (Inr \<circ> snd)) (visit (xs @ [x]) (listing s))"
    using ls_implements [OF w f] rooted_enter [OF w] by (auto simp: visit_def split: option.split)
  then show ?thesis
    using add_implements [OF w f] rm_implements [OF w f] rmdir_implements [OF w f] cd_implements [OF assms(1) f]
    unfolding r typed.simps c by (cases v) simp_all
qed

lemma commands_implement:
  "rooted s \<Longrightarrow> list_all fits rs \<Longrightarrow>
   matches (foldE command (map typed rs) s) (foldE perform rs (listing s))"
proof (induction rs arbitrary: s)
  case (Cons r rs)
  have step: "matches (command (typed r) s) (perform r (listing s))"
    using Cons.prems by (intro command_implements) simp_all
  show ?case
  proof (cases "command (typed r) s")
    case (Inr t)
    with step Cons.IH [of t] Cons.prems(2) show ?thesis by simp
  qed (use step in simp)
qed simp

lemma listing_initialize: "listing initialize = [[] \<mapsto> []]"
proof
  fix q
  show "listing initialize q = [[] \<mapsto> []] q"
    by (cases q) (simp_all add: listing_def entries_def initialize_def lookC_def)
qed

text \<open>
  C23: whatever sequence of \<open>mkdir\<close>, \<open>create\<close>, \<open>rmdir\<close>, \<open>rm\<close>, \<open>ls\<close> and \<open>cd\<close> commands with absolute
  paths is run from the start, the linked tree of nodes behaves as the abstract tree does: it
  faults at the same command with the same fault, a null pointer when a directory above is missing,
  or ends with the same listing of every path. In the abstract tree a new entry is listed last
  in its directory, a name that is taken is refused, \<open>rm\<close> takes all entries of the directory with
  the file, and \<open>rmdir\<close> all that are listed before the directory.
\<close>
theorem sessions_refine:
  assumes "list_all fits rs"
  shows "map_sum id listing (foldE command (map typed rs) initialize) = foldE perform rs [[] \<mapsto> []]"
  using commands_implement [OF _ assms, of initialize]
  by (cases "foldE command (map typed rs) initialize") (simp_all add: rooted_def listing_initialize)

text \<open>
  A session in which \<open>rmdir /b\<close> takes \<open>/a\<close> away and keeps \<open>/d\<close>, and one that ends with a
  null pointer.
\<close>

abbreviation sample_session :: "request list" where
  "sample_session \<equiv> [(Mkdir, [], ''a''), (Create, [''a''], ''f''), (Mkdir, [], ''b''), (Mkdir, [], ''d''),
     (Cd, [], ''d''), (Rmdir, [], ''b''), (Create, [''d''], ''g''), (Ls, [], ''d'')]"

theorem sessions_refine_witness:
  "(\<exists>s. foldE command (map typed sample_session) initialize = Inr s \<and>
      listing s [] = Some [(CHR ''Y'', ''d'')] \<and> listing s [''a''] = None \<and> listing s [''a'', ''f''] = None \<and>
      listing s [''d''] = Some [(CHR ''G'', ''g'')]) \<and>
    foldE command (map typed (sample_session @ [(Create, [''a''], ''h'')])) initialize = Inl NullDeref"
proof -
  let ?T = "foldE perform sample_session [[] \<mapsto> []]"
  have fit: "list_all fits sample_session" "list_all fits (sample_session @ [(Create, [''a''], ''h'')])"
    by (simp_all add: plain_def path_text_def)
  have T: "(case ?T of Inr T \<Rightarrow> T [] = Some [(CHR ''Y'', ''d'')] \<and> T [''a''] = None \<and> T [''a'', ''f''] = None \<and>
      T [''d''] = Some [(CHR ''G'', ''g'')] | Inl e \<Rightarrow> False)"
    by code_simp
  have "(case foldE perform (sample_session @ [(Create, [''a''], ''h'')]) [[] \<mapsto> []] of Inl NullDeref \<Rightarrow> True | _ \<Rightarrow> False)"
    by code_simp
  with T sessions_refine [OF fit(1)] sessions_refine [OF fit(2)] show ?thesis
    by (auto split: sum.splits fault.splits simp: map_sum_def)
qed

end
