(* ===== verification/Spec2Isabelle.thy ===== *)
theory Spec2Isabelle
  imports Sched_Crash Tsh_Props Tsh_Text Tsh_Programs Rio_Props Kmlab_Props Proxy_Races Proxy_Coherent Proxy_Tiny Tiny_Headers Fs_Session
begin

text \<open>
  \<^bold>\<open>What is verified\<close>

  The C programs under Computer_Science-360: a scheduler simulation (lab3), a shell with job
  control (lab2), the robust I/O package (lab5/csapp.c) with the two programs on top of it, a
  caching proxy (lab5/proxy.c) and a web server (lab5/tiny), a kernel module that keeps a list of
  processes (lab4), and a file system kept in memory (lab1). The programs are independent of each
  other, but for the proxy and the web server, which call the robust I/O package.

  \<^bold>\<open>Conventions\<close>

  A function of the source is an Isabelle function of the same name. Its state is a record of the
  variables it uses, passed and returned. A dereference of a null or freed pointer, an access
  outside an array, a division by zero, an overflow of a signed sum, a read of an uninitialised variable, a call of \<open>exit\<close>,
  and the replacement of the program by \<open>execve\<close> are values of the type \<open>fault\<close> (Prelude), returned in the left summand of a sum; the right
  summand is the normal result. Where the code can run for ever the result is also an option, and
  \<open>None\<close> is not returning. Pointer loops have a number of rounds as fuel, which is never less
  than the number of cells there are; running out is the fault \<open>NonTermination\<close>, so a
  theorem that says a function returns a right summand says that the fuel was enough. Machine
  integers are words of their width where the code can reach the end of the range (counters of the
  scheduler, timestamps of the cache, sums of adder.c); other counters are unbounded. A C string is
  the list of its characters before the NUL, and a buffer is a list of bytes.

  Prelude holds these types, words, lists and pointer chains, and the locales that state the
  interfaces: \<open>fifo\<close> (a queue), \<open>keyed_table\<close> (a table of values under keys) and
  \<open>step_system\<close> (an invariant of a step relation). Rio_Props adds \<open>byte_reader\<close>. Each is
  interpreted on the definitions of the components: the ready queue, the job table, the scheduler's
  cycles, the shell between prompts, the kernel module, the threads of the proxy, the commands of the
  file system, and \<open>rio_read\<close>. CString holds the parts of the C library that several programs use.

  \<^bold>\<open>lab3/scheduler.c\<close> (theories Sched_*)

  Sched_State has the process table and the globals, with a pointer to a process as its index;
  Sched_Queues the linked ready queue, the paused queue and the blocked list (\<open>Qsetup\<close>, \<open>dsetup\<close>,
  \<open>insertB\<close>, \<open>removeB\<close>, \<open>pauseQue\<close>); Sched_Run the phases of a cycle (\<open>proceedForward\<close>,
  \<open>execxuteB\<close>, \<open>creation\<close>, \<open>executeR\<close>, \<open>countdown\<close>), the cycle \<open>datapoint\<close> and the loop
  \<open>datapoints\<close>; Sched_Out the input, the reports, the reset between passes and the command line.
  Sched_Links proves what the list operations do to chains. Sched_Spec is an abstract scheduler
  whose queues are lists; Sched_Inv, Sched_Refine and Sched_Cycle prove that a cycle of the code
  implements a cycle of it and keeps the accounts of every process, and Sched_Live that a pass ends.
  The file of random numbers is a list; scanning by \<open>fscanf\<close> and the text of floating-point
  numbers are parameters. The refinement excludes discipline 2 (uniprogrammed) for two processes or more,
  because its use of \<open>pauseQue\<close> loses processes: Sched_Props proves that, and Sched_Crash that the program follows a null
  pointer in the first cycle of that discipline on every input with six or more processes at time 0. Sched_Spec follows the code
  in the order of its queues, which is not the order that the lab text asks for. For one process it holds; Sched_Alone has what is needed for that, which is that no phase of a
  cycle pauses anything.
  Sched_Passes is about \<open>listoutputs\<close> and \<open>main\<close>: \<open>as_read\<close> is the state of the program between
  two calls of \<open>listoutputs\<close>, which every call restores (for discipline 2, with one process), and \<open>plain\<close> is
  the abstract state up to the quantum, which no reset touches; from it, that the two passes agree, that the
  driver returns, that \<open>main\<close> gets as far as discipline 2, and to its end for one process, and that three of the
  disciplines are the same for one process.

  \<^bold>\<open>lab2/tsh.c\<close> and my*.c (theories Tsh, Tsh_Text, Tsh_Props, Tsh_Programs)

  Tsh has the job table, the parser, the built-in commands, \<open>eval\<close>, the signal handlers and the
  loop of \<open>main\<close>. The kernel is a script: what \<open>fork\<close> returns, and which signals and children's
  changes of state arrive at which point. Signals are handled at the prompt, in \<open>waitfg\<close>, and at
  the points of \<open>eval\<close> and \<open>do_bgfg\<close> where they are not blocked. Tsh_Text proves that the parser
  gives back the words of a command line and that \<open>push\<close> prints numbers; Tsh_Props that the job
  table is a finite map, that no job is in the foreground at the prompt, and the races and wrong
  reports. Job ids are unbounded. The wrappers of the calls on signal sets are functions of whether the call
  succeeds, and end the shell when it does not; the child that \<open>fork\<close> makes ends as \<open>Replaced\<close> or
  exits. Tsh_Programs has the four programs that the shell is tried with, each as what it prints and the
  list of its calls, and follows one that stops itself through the shell. They are run on the
  shell's script, not by a scheduler of processes.

  \<^bold>\<open>lab5/csapp.c\<close> (theories Csapp, Rio, Rio_Props)

  Csapp has the functions that report an error and end the program, and the wrappers of single
  system functions: a wrapper is a function of what the system function returned, and either passes
  it on or exits. Rio has the Rio package, the printing of numbers and the connection helpers.
  A descriptor is a script of what \<open>read\<close> or \<open>write\<close> answer: data cut anywhere, interrupts,
  errors. \<open>content\<close> is the stream behind a script, and the properties say that the callers see the
  stream only. \<open>stream\<close> adds what the buffer of a \<open>rio_t\<close> still holds. The loop of \<open>rio_readnb\<close>
  has as many rounds as bytes were asked for, since each round reads one at least.

  \<^bold>\<open>lab5/proxy.c\<close> (theories Proxy, Proxy_Cache, Proxy_Threads, Proxy_Races, Proxy_Props, Proxy_Coherent)

  Proxy has the parsing of requests, the text sent on, the cache with \<open>reader\<close> and \<open>writer\<close>, one
  connection (\<open>doit\<close>), and the threads as a step relation: a program point is the next call on a
  semaphore or the next round of the search. What only the holder of a semaphore touches is changed
  in one step, which the exclusion theorem justifies. Proxy_Cache proves that the timestamps implement
  a least-recently-used list, Proxy_Threads exclusion, the atomicity of searches and freedom from
  deadlock over all interleavings, Proxy_Races an interleaving that stores a page twice, and Proxy_Props what one
  connection does. Bytes of buffers before
  they are written are arguments. A page that is fetched is stored with \<open>strcpy\<close>, so what the cache holds of it ends at its
  first NUL; the theorems about the cache say so. \<open>proxy_step\<close> is the whole proxy: \<open>main\<close> accepts connections, and the threads
  of all of them move in any order, with one step for what a thread does outside \<open>reader\<close> and \<open>writer\<close>, where it
  touches nothing that is shared. Proxy_Coherent proves that every run of it keeps pages and keys together.

  \<^bold>\<open>lab5/tiny\<close> (theories Tiny, Tiny_Props, Tiny_Headers)

  The server tiny.c, with \<open>main\<close> over a list of connections, and the program adder.c. What \<open>stat\<close> says,
  the content of files, what the other system functions return and what a CGI program prints are parameters, and so is what
  \<open>sprintf\<close> makes of a buffer that is its own source (adder.c);
  \<open>sum_served\<close> puts adder.c in the place of the program, which the child of the server runs. The header
  loop is a partial function, so that never returning can be proved of it; Tiny_Headers says exactly when it
  returns, whatever the client sends.

  Proxy_Tiny puts the two programs of lab5 together: a browser, the proxy and the server, over sockets
  whose scripts deliver the bytes that the other side wrote, in any pieces.

  \<^bold>\<open>lab4\<close> (theories Kmlab, Kmlab_Props)

  The kernel module's list of registered processes, reading and writing of its status file, the
  timer, the work queue and both ends of its life, and the user program userapp.c, whose \<open>main\<close> runs
  against the module with its files, calls \<open>register_pid\<close> and \<open>get_status\<close> and lets the timer fire in
  between. Whether a process lives and how much time it used are parameters; log messages are left out.

  \<^bold>\<open>lab1/lab1_hutchins.c\<close> (theories Fs, Fs_Inv, Fs_Props, Fs_Session)

  The heap of nodes, path lookup and all commands. Fs_Inv proves what linking and unlinking a node
  does to the lists of children, and Fs_Props lifts it to a map from absolute paths to node types.
  Fs_Session has an abstract tree without heap or addresses (what \<open>ls\<close> prints of every path) and proves that
  every run of commands with absolute paths implements the same run over it, faults included.
  Allocation never fails and never reuses an address. \<open>main\<close> is the loop over the lines typed, up to
  \<open>quit\<close> or the end of the input; the words that \<open>sscanf\<close> stores are the parameter \<open>scan\<close>, because
  the code asks for them with \<open>%a\<close>. The names and types that are passed to \<open>printf\<close> are results of the model; what it makes
  of a name under \<open>%a\<close>, a format for numbers, is not modelled.

  \<^bold>\<open>Not modelled\<close>

  The wrappers of csapp.c that only pass their arguments on; log messages of the servers; lab1_base.c, an empty template;
  lab5/tiny/csapp.c where it is the same text as lab5/csapp.c; and CampusSafe, which is a Django
  application in another language. \<open>atoi\<close> is that of glibc, also where C leaves it undefined: the value that \<open>strtol\<close> gives,
  which stops at the ends of \<open>long\<close>, cut down to 32 bits.
\<close>

end
